(* ===== verification/Rpc_Prelude.thy ===== *)
theory Rpc_Prelude
  imports Main "HOL-Library.Word" "HOL-Library.Sublist"
begin

text \<open>
  Shared vocabulary of the development: the names of the machine types, the parts of the C++
  standard library that several components use (decimal printing of unsigned integers, substring
  search), the collections of simplification rules that carry the component proofs, and generic
  lemmas on lists and words.

  A \<open>std::string\<close> is a \<^typ>\<open>string\<close>: a list of bytes, as in C++. Sizes (\<open>std::size_t\<close>) that are
  bounded by the memory of the process are natural numbers; counters that wrap are \<^typ>\<open>64 word\<close>;
  the length field on the wire is a \<^typ>\<open>32 word\<close>. Time points of \<open>std::chrono::steady_clock\<close> and
  durations are integers (nanoseconds since an arbitrary epoch).
\<close>

type_synonym u16 = "16 word"
type_synonym u32 = "32 word"
type_synonym u64 = "64 word"
type_synonym time_point = int
type_synonym duration = int

text \<open>Milliseconds and seconds as durations.\<close>

definition ms :: "int \<Rightarrow> duration" where
  "ms n = n * 1000000"

definition secs :: "int \<Rightarrow> duration" where
  "secs n = n * 1000000000"

text \<open>
  Rule collections: \<open>conn_simps\<close> for the field updates of a server connection, \<open>slot_simps\<close> for the
  pending-call table, \<open>io_simps\<close> for the socket model, \<open>worker_simps\<close> for the worker loop.
\<close>

named_theorems io_simps
named_theorems slot_simps
named_theorems conn_simps
named_theorems worker_simps

section \<open>Decimal printing\<close>

text \<open>\<open>std::to_string\<close> on unsigned integers.\<close>

definition digit :: "nat \<Rightarrow> char" where
  "digit d = char_of (48 + d)"

fun to_string :: "nat \<Rightarrow> string" where
  "to_string n = (if n < 10 then [digit n] else to_string (n div 10) @ [digit (n mod 10)])"

declare to_string.simps [simp del]

text \<open>Reading the digits back, used to show that distinct numbers print differently.\<close>

definition from_dec :: "string \<Rightarrow> nat" where
  "from_dec s = foldl (\<lambda>a c. a * 10 + (of_char c - 48)) 0 s"

lemma of_char_digit: "d < 10 \<Longrightarrow> of_char (digit d) = 48 + (d::nat)"
  by (simp add: digit_def of_char_of)

lemma from_dec_to_string: "from_dec (to_string n) = n"
proof (induction n rule: to_string.induct)
  case (1 n)
  show ?case
  proof (cases "n < 10")
    case True
    then show ?thesis
      by (subst to_string.simps) (simp add: from_dec_def of_char_digit)
  next
    case False
    with "1.IH" have "from_dec (to_string (n div 10)) = n div 10" by simp
    then have "foldl (\<lambda>a c. a * 10 + (of_char c - 48)) 0 (to_string (n div 10)) = n div 10"
      by (simp add: from_dec_def)
    with False show ?thesis
      by (subst to_string.simps) (simp add: from_dec_def of_char_digit)
  qed
qed

lemma to_string_inject [simp]: "to_string m = to_string n \<longleftrightarrow> m = n"
  by (metis from_dec_to_string)

lemma to_string_not_Nil [simp]: "to_string n \<noteq> []"
  by (subst to_string.simps) simp

lemma to_string_digits: "c \<in> set (to_string n) \<Longrightarrow> \<exists>d<10. c = digit d"
proof (induction n rule: to_string.induct)
  case (1 n)
  show ?case
  proof (cases "n < 10")
    case True
    with 1 show ?thesis by (subst (asm) (2) to_string.simps) auto
  next
    case False
    with "1.prems" have "c \<in> set (to_string (n div 10)) \<or> c = digit (n mod 10)"
      by (subst (asm) to_string.simps) auto
    with False "1.IH" show ?thesis by (metis mod_less_divisor zero_less_numeral)
  qed
qed

section \<open>Substring search\<close>

text \<open>\<open>s.find(pat) != npos\<close>.\<close>

definition str_find :: "string \<Rightarrow> string \<Rightarrow> bool" where
  "str_find s pat \<longleftrightarrow> sublist pat s"

text \<open>\<open>s.rfind(pat, 0) == 0\<close>, the idiom for ``starts with''.\<close>

definition starts_with :: "string \<Rightarrow> string \<Rightarrow> bool" where
  "starts_with s pat \<longleftrightarrow> take (length pat) s = pat"

lemma starts_with_append [simp]: "starts_with (pat @ s) pat"
  by (simp add: starts_with_def)

text \<open>A decimal number never starts with a letter, so it is not mistaken for a heartbeat id.\<close>

lemma to_string_not_starts_with:
  assumes "\<And>d. d < 10 \<Longrightarrow> c \<noteq> digit d"
  shows "\<not> starts_with (to_string n) (c # cs)"
proof
  assume "starts_with (to_string n) (c # cs)"
  then have "c \<in> set (to_string n)"
    by (cases "to_string n") (auto simp: starts_with_def)
  then show False using to_string_digits assms by blast
qed

section \<open>Lists\<close>

lemma take_append_prefix: "length xs = n \<Longrightarrow> take n (xs @ ys) = xs"
  by simp

lemma drop_append_prefix: "length xs = n \<Longrightarrow> drop n (xs @ ys) = ys"
  by simp

lemma take_drop_append [simp]: "take n xs @ drop n xs @ ys = xs @ ys"
  by (metis append_assoc append_take_drop_id)

lemma split_at: "n \<le> length xs \<Longrightarrow> \<exists>a b. xs = a @ b \<and> length a = n"
  by (intro exI [of _ "take n xs"] exI [of _ "drop n xs"]) simp

section \<open>Counters\<close>

lemma unat_Suc64: "unat (w :: u64) < 2 ^ 64 - 1 \<Longrightarrow> unat (w + 1) = Suc (unat w)"
  by (simp add: unat_word_ariths)

section \<open>Association lists as hash tables\<close>

text \<open>
  A \<open>std::unordered_map\<close> is an association list with distinct keys; the iteration order is the order
  of the list. \<open>mapsto\<close> is \<open>map[k] = v\<close> on a key that is there or not, \<open>erase_key\<close> is
  \<open>map.erase\<close>.
\<close>

fun put_key :: "'k \<Rightarrow> 'v \<Rightarrow> ('k \<times> 'v) list \<Rightarrow> ('k \<times> 'v) list" where
  "put_key k v [] = [(k, v)]"
| "put_key k v ((k', v') # m) = (if k = k' then (k, v) # m else (k', v') # put_key k v m)"

definition erase_key :: "'k \<Rightarrow> ('k \<times> 'v) list \<Rightarrow> ('k \<times> 'v) list" where
  "erase_key k m = filter (\<lambda>(k', _). k' \<noteq> k) m"

definition keys :: "('k \<times> 'v) list \<Rightarrow> 'k list" where
  "keys m = map fst m"

lemma map_of_put_key [simp]: "map_of (put_key k v m) = (map_of m)(k \<mapsto> v)"
  by (induction k v m rule: put_key.induct) (auto simp: fun_eq_iff)

lemma map_of_erase_key [simp]: "map_of (erase_key k m) = (map_of m)(k := None)"
  by (induction m) (auto simp: erase_key_def fun_eq_iff)

lemma set_keys_put_key [simp]: "set (keys (put_key k v m)) = insert k (set (keys m))"
  by (induction k v m rule: put_key.induct) (auto simp: keys_def)

lemma distinct_keys_put_key [simp]: "distinct (keys m) \<Longrightarrow> distinct (keys (put_key k v m))"
  by (induction k v m rule: put_key.induct)
    (auto simp: keys_def simp flip: set_map dest: set_keys_put_key [unfolded keys_def, THEN equalityD1, THEN subsetD])

lemma set_keys_erase_key [simp]: "set (keys (erase_key k m)) = set (keys m) - {k}"
  by (auto simp: keys_def erase_key_def)

lemma distinct_keys_erase_key [simp]: "distinct (keys m) \<Longrightarrow> distinct (keys (erase_key k m))"
  by (induction m) (auto simp: keys_def erase_key_def)

lemma map_of_keys_None: "map_of m k = None \<longleftrightarrow> k \<notin> set (keys m)"
  by (simp add: keys_def map_of_eq_None_iff)

lemma keys_of_Some: "map_of m k = Some v \<Longrightarrow> k \<in> set (keys m)"
  by (metis map_of_keys_None option.distinct(1))

lemma put_key_new: "k \<notin> set (keys m) \<Longrightarrow> put_key k v m = m @ [(k, v)]"
  by (induction k v m rule: put_key.induct) (auto simp: keys_def)

lemma length_put_key:
  "length (put_key k v m) = (if k \<in> set (keys m) then length m else Suc (length m))"
  by (induction k v m rule: put_key.induct) (auto simp: keys_def)

lemma erase_key_absent [simp]: "k \<notin> set (keys m) \<Longrightarrow> erase_key k m = m"
  by (induction m) (auto simp: keys_def erase_key_def)

lemma length_erase_key:
  "distinct (keys m) \<Longrightarrow> length (erase_key k m) = (if k \<in> set (keys m) then length m - 1 else length m)"
proof (induction m)
  case Nil
  then show ?case by (simp add: erase_key_def keys_def)
next
  case (Cons p m)
  then have d: "distinct (keys m)" and p: "fst p \<notin> set (keys m)" by (auto simp: keys_def)
  show ?case
  proof (cases "fst p = k")
    case True
    with p have "erase_key k (p # m) = m"
      using erase_key_absent [of k m] by (auto simp: erase_key_def)
    with True show ?thesis by (simp add: keys_def)
  next
    case False
    then have "erase_key k (p # m) = p # erase_key k m" by (auto simp: erase_key_def)
    with False Cons.IH [OF d] show ?thesis
      by (cases m) (auto simp: keys_def)
  qed
qed

end
