(* ===== verification/Posix_Model.thy ===== *)
theory Posix_Model
  imports Rpc_Prelude
begin

text \<open>
  The operating-system side of a TCP socket, as the sources use it. The kernel is a script that the
  environment chooses: the receive side is the list of things that will arrive (bytes, end of
  stream, failures of \<open>recv\<close>), the send side is the list of outcomes of \<open>send\<close>. Every theorem about
  code that reads or writes a socket is quantified over these scripts, so it holds for every way in
  which TCP may cut the stream into pieces and for every pattern of interruptions.

  \<open>recv\<close> and \<open>send\<close> are the calls on a blocking socket: where the script is used up the call never
  returns, which is the value \<^const>\<open>None\<close>. \<open>recv_nb\<close> and \<open>send_nb\<close> are the calls on a non-blocking
  socket, which report \<open>EAGAIN\<close> there.
\<close>

datatype errno = EINTR | EAGAIN | EWOULDBLOCK | ECONNRESET | EPIPE | ETIMEDOUT | EBADF | Errno nat

text \<open>\<open>strerror\<close>, for the messages that the sources build from it.\<close>

fun strerror :: "errno \<Rightarrow> string" where
  "strerror EINTR = ''Interrupted system call''"
| "strerror EAGAIN = ''Resource temporarily unavailable''"
| "strerror EWOULDBLOCK = ''Resource temporarily unavailable''"
| "strerror ECONNRESET = ''Connection reset by peer''"
| "strerror EPIPE = ''Broken pipe''"
| "strerror ETIMEDOUT = ''Connection timed out''"
| "strerror EBADF = ''Bad file descriptor''"
| "strerror (Errno n) = ''Unknown error '' @ to_string n"

section \<open>Receiving\<close>

datatype recv_event = Arrive string | PeerClose | RecvError errno

type_synonym rx_script = "recv_event list"

datatype recv_ret = Got string | Eof | RecvFail errno

fun recv :: "nat \<Rightarrow> rx_script \<Rightarrow> recv_ret option \<times> rx_script" where
  "recv n [] = (None, [])"
| "recv n (Arrive bs # es) =
     (if bs = [] then recv n es
      else if length bs \<le> n then (Some (Got bs), es)
      else (Some (Got (take n bs)), Arrive (drop n bs) # es))"
| "recv n (PeerClose # es) = (Some Eof, PeerClose # es)"
| "recv n (RecvError e # es) = (Some (RecvFail e), es)"

definition recv_nb :: "nat \<Rightarrow> rx_script \<Rightarrow> recv_ret \<times> rx_script" where
  "recv_nb n es = (case recv n es of (None, es') \<Rightarrow> (RecvFail EAGAIN, es') | (Some r, es') \<Rightarrow> (r, es'))"

text \<open>What is left to read shrinks with every call that asks for at least one byte, except at the end of the stream.\<close>

fun rx_size :: "rx_script \<Rightarrow> nat" where
  "rx_size [] = 0"
| "rx_size (Arrive bs # es) = Suc (length bs + rx_size es)"
| "rx_size (e # es) = Suc (rx_size es)"

lemma recv_Got_size:
  "recv n es = (Some (Got bs), es') \<Longrightarrow> 0 < n \<Longrightarrow> rx_size es' < rx_size es"
  by (induction n es rule: recv.induct) (auto split: if_splits)

lemma recv_Fail_size: "recv n es = (Some (RecvFail e), es') \<Longrightarrow> rx_size es' < rx_size es"
  by (induction n es rule: recv.induct) (auto split: if_splits)

lemma recv_Got_length: "recv n es = (Some (Got bs), es') \<Longrightarrow> 0 < n \<Longrightarrow> bs \<noteq> [] \<and> length bs \<le> n"
  by (induction n es rule: recv.induct) (auto split: if_splits)

lemmas recv_size = recv_Got_size recv_Fail_size

text \<open>
  The bytes that a reader which retries on \<open>EINTR\<close> gets before the stream ends or fails.
\<close>

fun rx_stream :: "rx_script \<Rightarrow> string" where
  "rx_stream [] = []"
| "rx_stream (Arrive bs # es) = bs @ rx_stream es"
| "rx_stream (PeerClose # es) = []"
| "rx_stream (RecvError e # es) = (if e = EINTR then rx_stream es else [])"

lemma rx_stream_recv_Got:
  "recv n es = (Some (Got bs), es') \<Longrightarrow> rx_stream es = bs @ rx_stream es'"
  by (induction n es rule: recv.induct) (auto split: if_splits)

lemma rx_stream_recv_EINTR:
  "recv n es = (Some (RecvFail EINTR), es') \<Longrightarrow> rx_stream es = rx_stream es'"
  by (induction n es rule: recv.induct) (auto split: if_splits)

lemma rx_stream_recv_stop:
  "recv n es = (r, es') \<Longrightarrow> r = None \<or> r = Some Eof \<or> (\<exists>e. r = Some (RecvFail e) \<and> e \<noteq> EINTR)
   \<Longrightarrow> rx_stream es = []"
  by (induction n es rule: recv.induct) (auto split: if_splits)

text \<open>Why such a reader stops, on a non-blocking socket, and what it leaves for later.\<close>

fun rx_verdict :: "rx_script \<Rightarrow> recv_ret" where
  "rx_verdict [] = RecvFail EAGAIN"
| "rx_verdict (Arrive bs # es) = rx_verdict es"
| "rx_verdict (PeerClose # es) = Eof"
| "rx_verdict (RecvError e # es) = (if e = EINTR then rx_verdict es else RecvFail e)"

fun rx_after :: "rx_script \<Rightarrow> rx_script" where
  "rx_after [] = []"
| "rx_after (Arrive bs # es) = rx_after es"
| "rx_after (PeerClose # es) = PeerClose # es"
| "rx_after (RecvError e # es) = (if e = EINTR then rx_after es else es)"

lemma rx_drain_recv:
  "recv n es = (Some (Got bs), es') \<Longrightarrow> rx_verdict es = rx_verdict es' \<and> rx_after es = rx_after es'"
  "recv n es = (Some (RecvFail EINTR), es') \<Longrightarrow> rx_verdict es = rx_verdict es' \<and> rx_after es = rx_after es'"
  by (induction n es rule: recv.induct) (auto split: if_splits)

lemma rx_drain_stop:
  "recv n es = (None, es') \<Longrightarrow> rx_verdict es = RecvFail EAGAIN \<and> rx_after es = es'"
  "recv n es = (Some Eof, es') \<Longrightarrow> rx_verdict es = Eof \<and> rx_after es = es'"
  "recv n es = (Some (RecvFail e), es') \<Longrightarrow> e \<noteq> EINTR \<Longrightarrow> rx_verdict es = RecvFail e \<and> rx_after es = es'"
  by (induction n es rule: recv.induct) (auto split: if_splits)

text \<open>The possible answers to a call.\<close>

lemma recv_cases:
  obtains (got) bs es' where "recv n es = (Some (Got bs), es')"
  | (intr) es' where "recv n es = (Some (RecvFail EINTR), es')"
  | (eof) es' where "recv n es = (Some Eof, es')"
  | (blocked) es' where "recv n es = (None, es')"
  | (error) e es' where "recv n es = (Some (RecvFail e), es')" "e \<noteq> EINTR"
  by (metis option.exhaust recv_ret.exhaust surj_pair)

lemma recv_nb_cases:
  obtains (got) bs es' where "recv_nb n es = (Got bs, es')" "recv n es = (Some (Got bs), es')"
  | (intr) es' where "recv_nb n es = (RecvFail EINTR, es')" "recv n es = (Some (RecvFail EINTR), es')"
  | (eof) es' where "recv_nb n es = (Eof, es')" "recv n es = (Some Eof, es')"
  | (again) e es' where "recv_nb n es = (RecvFail e, es')" "e = EAGAIN \<or> e = EWOULDBLOCK" "rx_stream es = []"
      "rx_verdict es = RecvFail e" "rx_after es = es'"
  | (error) e es' where "recv_nb n es = (RecvFail e, es')" "recv n es = (Some (RecvFail e), es')"
      "e \<noteq> EINTR" "e \<noteq> EAGAIN" "e \<noteq> EWOULDBLOCK"
proof (cases rule: recv_cases [of n es])
  case (error e es')
  then have "rx_stream es = []" using rx_stream_recv_stop by blast
  with error that(4,5) rx_drain_stop(3) [OF error] show thesis by (cases "e = EAGAIN \<or> e = EWOULDBLOCK") (auto simp: recv_nb_def)
next
  case (blocked es')
  then have "rx_stream es = []" using rx_stream_recv_stop by blast
  with blocked that(4) rx_drain_stop(1) [OF blocked] show thesis by (simp add: recv_nb_def)
qed (use that in \<open>auto simp: recv_nb_def\<close>)

section \<open>Sending\<close>

datatype send_event = Accept nat | SendError errno

type_synonym tx_script = "send_event list"

datatype send_ret = Sent nat | SendFail errno

text \<open>The kernel takes at most as many bytes as it is offered.\<close>

fun send :: "nat \<Rightarrow> tx_script \<Rightarrow> send_ret option \<times> tx_script" where
  "send n [] = (None, [])"
| "send n (Accept k # ss) = (Some (Sent (min k n)), ss)"
| "send n (SendError e # ss) = (Some (SendFail e), ss)"

definition send_nb :: "nat \<Rightarrow> tx_script \<Rightarrow> send_ret \<times> tx_script" where
  "send_nb n ss = (case send n ss of (None, ss') \<Rightarrow> (SendFail EAGAIN, ss') | (Some r, ss') \<Rightarrow> (r, ss'))"

lemma send_length: "send n ss = (Some r, ss') \<Longrightarrow> length ss' < length ss"
  by (cases "(n, ss)" rule: send.cases) auto

lemma send_Sent_le: "send n ss = (Some (Sent k), ss') \<Longrightarrow> k \<le> n"
  by (cases "(n, ss)" rule: send.cases) auto

end
