(* ===== verification/Codec.thy ===== *)
theory Codec
  imports Posix_Model
begin

text \<open>
  \<open>src/protocol/codec.cpp\<close>: blocking, length-prefixed transport of protobuf messages. A frame is four
  bytes with the length of the body, most significant byte first, then the body. The message
  classes are generated by protobuf from \<open>proto/*.proto\<close>: what the codec calls on them is the record
  \<open>message_ops\<close>, a parameter of the model.
\<close>

section \<open>Byte order\<close>

text \<open>
  \<open>htonl\<close> followed by copying the four bytes of the variable (\<open>std::as_bytes\<close>, \<open>memcpy\<close>) puts the most
  significant byte first; copying four bytes into a variable followed by \<open>ntohl\<close> reads them so.
\<close>

definition htonl_bytes :: "u32 \<Rightarrow> string" where
  "htonl_bytes w =
     [char_of (unat w div 2 ^ 24), char_of (unat w div 2 ^ 16),
      char_of (unat w div 2 ^ 8), char_of (unat w)]"

definition ntohl_bytes :: "string \<Rightarrow> u32" where
  "ntohl_bytes bs = word_of_nat (foldl (\<lambda>n c. n * 256 + of_char c) 0 bs)"

definition kMaxFrameSize :: nat where
  "kMaxFrameSize = 4 * 1024 * 1024"

definition kFrameHeaderBytes :: nat where
  "kFrameHeaderBytes = 4"

section \<open>Generated message classes\<close>

record 'm message_ops =
  ByteSizeLong :: "'m \<Rightarrow> nat"
  SerializeToArray :: "'m \<Rightarrow> string option"
  ParseFromArray :: "string \<Rightarrow> 'm option"

text \<open>
  The documented behaviour of the generated code that the transport relies on: serialising a message
  succeeds and writes exactly \<open>ByteSizeLong\<close> bytes, and parsing those bytes gives the message back.
\<close>

definition pb_lawful :: "'m message_ops \<Rightarrow> bool" where
  "pb_lawful pb \<longleftrightarrow>
     (\<forall>m. \<exists>b. SerializeToArray pb m = Some b \<and> length b = ByteSizeLong pb m
            \<and> ParseFromArray pb b = Some m)"

section \<open>Exact reads and writes\<close>

text \<open>
  \<open>Codec::ReadN\<close>: \<open>left\<close> bytes are missing, \<open>acc\<close> is what the buffer holds so far. The result is
  \<^const>\<open>None\<close> if a \<open>recv\<close> never returns, \<open>Inl\<close> the error text, or \<open>Inr\<close> the filled buffer.
\<close>

function ReadN :: "nat \<Rightarrow> string \<Rightarrow> rx_script \<Rightarrow> (string + string) option \<times> rx_script" where
  "ReadN left acc es =
     (if left = 0 then (Some (Inr acc), es)
      else case recv left es of
             (None, es') \<Rightarrow> (None, es')
           | (Some Eof, es') \<Rightarrow> (Some (Inl ''peer closed connection''), es')
           | (Some (RecvFail e), es') \<Rightarrow>
               (if e = EINTR then ReadN left acc es'
                else (Some (Inl (''recv failed: '' @ strerror e)), es'))
           | (Some (Got bs), es') \<Rightarrow> ReadN (left - length bs) (acc @ bs) es')"
  by pat_completeness auto
termination
  by (relation "measure (\<lambda>(left, acc, es). rx_size es)") (auto intro: recv_size [OF sym])

declare ReadN.simps [simp del]

text \<open>
  \<open>Codec::WriteN\<close>: the result and the bytes that went into the stream. A call of \<open>send\<close> that takes
  no byte is repeated, as the source does.
\<close>

function WriteN :: "string \<Rightarrow> tx_script \<Rightarrow> (string + unit) option \<times> string \<times> tx_script" where
  "WriteN data ss =
     (if data = [] then (Some (Inr ()), [], ss)
      else case send (length data) ss of
             (None, ss') \<Rightarrow> (None, [], ss')
           | (Some (SendFail e), ss') \<Rightarrow>
               (if e = EINTR then WriteN data ss'
                else (Some (Inl (''send failed: '' @ strerror e)), [], ss'))
           | (Some (Sent k), ss') \<Rightarrow>
               (case WriteN (drop k data) ss' of (r, out, ss'') \<Rightarrow> (r, take k data @ out, ss'')))"
  by pat_completeness auto
termination
  by (relation "measure (\<lambda>(data, ss). length ss)") (auto intro: send_length [OF sym])

declare WriteN.simps [simp del]

section \<open>Messages\<close>

text \<open>
  \<open>Codec::ReadMessage\<close>. The first argument says whether the message pointer is there: \<^const>\<open>None\<close> is
  a null pointer.
\<close>

definition ReadMessage :: "'m message_ops option \<Rightarrow> rx_script \<Rightarrow> (string + 'm) option \<times> rx_script" where
  "ReadMessage message es =
     (case message of
        None \<Rightarrow> (Some (Inl ''message is null''), es)
      | Some pb \<Rightarrow>
          (case ReadN kFrameHeaderBytes [] es of
             (None, es1) \<Rightarrow> (None, es1)
           | (Some (Inl err), es1) \<Rightarrow> (Some (Inl err), es1)
           | (Some (Inr length_bytes), es1) \<Rightarrow>
               (let body_length = ntohl_bytes length_bytes in
                if body_length = 0 \<or> unat body_length > kMaxFrameSize
                then (Some (Inl (''invalid frame length: '' @ to_string (unat body_length))), es1)
                else case ReadN (unat body_length) [] es1 of
                       (None, es2) \<Rightarrow> (None, es2)
                     | (Some (Inl err), es2) \<Rightarrow> (Some (Inl err), es2)
                     | (Some (Inr buffer), es2) \<Rightarrow>
                         (case ParseFromArray pb buffer of
                            None \<Rightarrow> (Some (Inl ''failed to parse protobuf body''), es2)
                          | Some m \<Rightarrow> (Some (Inr m), es2)))))"

definition WriteMessage ::
    "'m message_ops \<Rightarrow> 'm \<Rightarrow> tx_script \<Rightarrow> (string + unit) option \<times> string \<times> tx_script" where
  "WriteMessage pb message ss =
     (let body_length = ByteSizeLong pb message in
      if body_length = 0 \<or> body_length > kMaxFrameSize
      then (Some (Inl (''invalid serialized size: '' @ to_string body_length)), [], ss)
      else case SerializeToArray pb message of
             None \<Rightarrow> (Some (Inl ''failed to serialize protobuf message''), [], ss)
           | Some body \<Rightarrow>
               (case WriteN (htonl_bytes (word_of_nat body_length)) ss of
                  (Some (Inr _), out1, ss1) \<Rightarrow>
                    (case WriteN body ss1 of (r, out2, ss2) \<Rightarrow> (r, out1 @ out2, ss2))
                | other \<Rightarrow> other))"

section \<open>Facts\<close>

lemma length_htonl_bytes [simp]: "length (htonl_bytes w) = 4"
  by (simp add: htonl_bytes_def)

lemma be_digits:
  fixes n :: nat
  assumes "n < 2 ^ 32"
  shows "(((n div 2 ^ 24 mod 256) * 256 + n div 2 ^ 16 mod 256) * 256 + n div 2 ^ 8 mod 256) * 256
           + n mod 256 = n"
proof -
  have d: "n div 16777216 = n div 256 div 256 div 256" "n div 65536 = n div 256 div 256"
    by (simp_all flip: div_mult2_eq)
  have "n div 256 div 256 div 256 < 256" using assms by simp
  then show ?thesis
    using div_mult_mod_eq [of n 256] div_mult_mod_eq [of "n div 256" 256]
      div_mult_mod_eq [of "n div 256 div 256" 256]
    by (simp add: d) 
qed

lemma ntohl_htonl [simp]: "ntohl_bytes (htonl_bytes w) = w"
proof -
  have "unat w < 2 ^ 32" using unsigned_less [of w, where ?'a = nat] by simp
  from be_digits [OF this]
  have "foldl (\<lambda>n c. n * 256 + of_char c) 0 (htonl_bytes w) = unat w"
    by (simp only: htonl_bytes_def foldl.simps of_char_of mult_zero_left add_0)
  then show ?thesis by (simp add: ntohl_bytes_def)
qed

lemma htonl_inject [simp]: "htonl_bytes v = htonl_bytes w \<longleftrightarrow> v = w"
  by (metis ntohl_htonl)

lemma kMaxFrameSize_less [simp]: "n \<le> kMaxFrameSize \<Longrightarrow> unat (word_of_nat n :: u32) = n"
  by (simp add: kMaxFrameSize_def unat_of_nat)

lemma ReadN_0 [simp]: "ReadN 0 acc es = (Some (Inr acc), es)"
  by (simp add: ReadN.simps)

lemma ReadN_step:
  "0 < left \<Longrightarrow> recv left es = (Some (Got bs), es') \<Longrightarrow>
     ReadN left acc es = ReadN (left - length bs) (acc @ bs) es'"
  "0 < left \<Longrightarrow> recv left es = (Some (RecvFail EINTR), es') \<Longrightarrow> ReadN left acc es = ReadN left acc es'"
  "0 < left \<Longrightarrow> recv left es = (Some Eof, es') \<Longrightarrow>
     ReadN left acc es = (Some (Inl ''peer closed connection''), es')"
  "0 < left \<Longrightarrow> recv left es = (None, es') \<Longrightarrow> ReadN left acc es = (None, es')"
  "0 < left \<Longrightarrow> recv left es = (Some (RecvFail e), es') \<Longrightarrow> e \<noteq> EINTR \<Longrightarrow>
     ReadN left acc es = (Some (Inl (''recv failed: '' @ strerror e)), es')"
  by (simp_all add: ReadN.simps [of left acc es])

lemma ReadN_enough:
  "left \<le> length (rx_stream es) \<Longrightarrow>
   \<exists>es'. ReadN left acc es = (Some (Inr (acc @ take left (rx_stream es))), es')
       \<and> rx_stream es' = drop left (rx_stream es)"
proof (induction es arbitrary: left acc rule: measure_induct_rule [of rx_size])
  case (less es)
  show ?case
  proof (cases "left = 0")
    case False
    then have pos: "0 < left" by simp
    with less.prems have ne: "rx_stream es \<noteq> []" by auto
    show ?thesis
    proof (cases rule: recv_cases [of left es])
      case (got bs es')
      have "length bs \<le> left" "rx_stream es = bs @ rx_stream es'"
        using got pos recv_Got_length rx_stream_recv_Got by blast+
      with less.IH [OF recv_Got_size [OF got pos], of "left - length bs" "acc @ bs"] less.prems
      show ?thesis by (auto simp: ReadN_step(1) [OF pos got])
    next
      case (intr es')
      with less.IH [OF recv_Fail_size [OF intr], of left acc] less.prems show ?thesis
        by (simp add: ReadN_step(2) [OF pos intr] rx_stream_recv_EINTR)
    qed (use ne rx_stream_recv_stop in blast)+
  qed simp
qed

lemma ReadN_short:
  "length (rx_stream es) < left \<Longrightarrow> \<exists>r es'. ReadN left acc es = (r, es') \<and> (\<forall>b. r \<noteq> Some (Inr b))"
proof (induction es arbitrary: left acc rule: measure_induct_rule [of rx_size])
  case (less es)
  then have pos: "0 < left" by simp
  show ?case
  proof (cases rule: recv_cases [of left es])
    case (got bs es')
    have "length bs \<le> left" "rx_stream es = bs @ rx_stream es'"
      using got pos recv_Got_length rx_stream_recv_Got by blast+
    with less.IH [OF recv_Got_size [OF got pos], of "left - length bs" "acc @ bs"] less.prems
    show ?thesis by (auto simp: ReadN_step(1) [OF pos got])
  next
    case (intr es')
    with less.IH [OF recv_Fail_size [OF intr], of left acc] less.prems show ?thesis
      by (simp add: ReadN_step(2) [OF pos intr] rx_stream_recv_EINTR)
  qed (auto simp: ReadN_step [OF pos])
qed

lemma WriteN_Nil [simp]: "WriteN [] ss = (Some (Inr ()), [], ss)"
  by (simp add: WriteN.simps)

lemma WriteN_prefix:
  "WriteN data ss = (r, out, ss') \<Longrightarrow> prefix out data \<and> (r = Some (Inr ()) \<longrightarrow> out = data)"
proof (induction ss arbitrary: data out rule: measure_induct_rule [of length])
  case (less ss)
  show ?case
  proof (cases "data = []")
    case ne: False
    obtain q ss1 where s: "send (length data) ss = (q, ss1)" by (cases "send (length data) ss")
    note eq = WriteN.simps [of data ss]
    show ?thesis
    proof (cases q)
      case None
      with less.prems ne s show ?thesis by (simp add: eq)
    next
      case (Some sr)
      then have dec: "length ss1 < length ss" using s send_length by blast
      show ?thesis
      proof (cases sr)
        case (Sent k)
        obtain r2 out2 ss2 where w: "WriteN (drop k data) ss1 = (r2, out2, ss2)"
          by (metis prod_cases3)
        with less.prems ne s Some Sent have out: "out = take k data @ out2" "r = r2" "ss' = ss2"
          by (simp_all add: eq)
        from less.IH [OF dec, of "drop k data" out2] w out
        have IH: "prefix out2 (drop k data)" "r = Some (Inr ()) \<longrightarrow> out2 = drop k data" by auto
        from IH(1) obtain z where "drop k data = out2 @ z" by (auto simp: prefix_def)
        then have "data = out @ z" using out by (metis append_assoc append_take_drop_id)
        then have "prefix out data" by (rule prefixI)
        moreover have "r = Some (Inr ()) \<longrightarrow> out = data"
          using IH(2) out(1) by (metis append_take_drop_id)
        ultimately show ?thesis ..
      next
        case (SendFail e)
        show ?thesis
        proof (cases "e = EINTR")
          case True
          with less.prems ne s Some SendFail have "WriteN data ss1 = (r, out, ss')" by (simp add: eq)
          then show ?thesis by (rule less.IH [OF dec])
        next
          case False
          with less.prems ne s Some SendFail have "out = []" "\<exists>m. r = Some (Inl m)"
            by (auto simp: eq)
          then show ?thesis by auto
        qed
      qed
    qed
  qed (use less.prems in simp)
qed

lemma WriteMessage_success:
  assumes "WriteMessage pb m ss = (Some (Inr ()), out, ss')"
  obtains body where "SerializeToArray pb m = Some body"
    and "0 < ByteSizeLong pb m" and "ByteSizeLong pb m \<le> kMaxFrameSize"
    and "out = htonl_bytes (word_of_nat (ByteSizeLong pb m)) @ body"
proof -
  from assms have sz: "0 < ByteSizeLong pb m" "ByteSizeLong pb m \<le> kMaxFrameSize"
    by (auto simp: WriteMessage_def Let_def split: if_splits)
  then obtain body where body: "SerializeToArray pb m = Some body"
    using assms by (cases "SerializeToArray pb m") (auto simp: WriteMessage_def)
  obtain r1 out1 ss1 where w1: "WriteN (htonl_bytes (word_of_nat (ByteSizeLong pb m))) ss = (r1, out1, ss1)"
    by (metis prod_cases3)
  obtain r2 out2 ss2 where w2: "WriteN body ss1 = (r2, out2, ss2)" by (metis prod_cases3)
  from assms sz body w1 have "r1 = Some (Inr ())"
    by (auto simp: WriteMessage_def Let_def split: option.splits sum.splits)
  with assms sz body w1 w2 have "out = out1 @ out2" "r2 = Some (Inr ())"
    by (simp_all add: WriteMessage_def Let_def)
  with WriteN_prefix [OF w1] WriteN_prefix [OF w2] \<open>r1 = Some (Inr ())\<close> sz body that
  show thesis by simp
qed

text \<open>
  \<open>ReadN\<close> delivers exactly the next \<open>n\<close> bytes of the stream, however TCP cuts it into pieces and
  however often \<open>recv\<close> is interrupted, and leaves the rest of the stream for the next read; if the
  stream ends or fails before \<open>n\<close> bytes have arrived, it does not succeed.
\<close>

lemma ReadN_exact:
  "(n \<le> length (rx_stream es) \<longrightarrow>
      (\<exists>es'. ReadN n [] es = (Some (Inr (take n (rx_stream es))), es')
           \<and> rx_stream es' = drop n (rx_stream es)))
   \<and> (length (rx_stream es) < n \<longrightarrow> (\<forall>b es'. ReadN n [] es \<noteq> (Some (Inr b), es')))"
  using ReadN_enough [of n es "[]"] ReadN_short [of es n "[]"] by fastforce

text \<open>
  C11: transport round trip. If \<open>WriteMessage\<close> reports success, and the bytes it put into the stream
  arrive at the other side in any pieces, followed by anything, then \<open>ReadMessage\<close> returns exactly
  that message and leaves exactly what follows it.
\<close>

theorem codec_message_roundtrip:
  assumes "pb_lawful pb"
    and "WriteMessage pb m ss = (Some (Inr ()), out, ss')"
    and "rx_stream es = out @ rest"
  shows "\<exists>es'. ReadMessage (Some pb) es = (Some (Inr m), es') \<and> rx_stream es' = rest"
proof -
  obtain body where body: "SerializeToArray pb m = Some body"
    and sz: "0 < ByteSizeLong pb m" "ByteSizeLong pb m \<le> kMaxFrameSize"
    and out: "out = htonl_bytes (word_of_nat (ByteSizeLong pb m)) @ body"
    using assms(2) by (rule WriteMessage_success)
  from assms(1) body have len: "length body = ByteSizeLong pb m" and
    parse: "ParseFromArray pb body = Some m" unfolding pb_lawful_def by (metis option.inject)+
  let ?w = "word_of_nat (ByteSizeLong pb m) :: u32"
  have w: "unat ?w = ByteSizeLong pb m" using sz by simp
  then have w0: "?w \<noteq> 0" using sz by (metis less_irrefl unat_0)
  obtain es1 where r1: "ReadN kFrameHeaderBytes [] es = (Some (Inr (htonl_bytes ?w)), es1)"
    and s1: "rx_stream es1 = body @ rest"
    using ReadN_enough [of kFrameHeaderBytes es "[]"] assms(3) out by (auto simp: kFrameHeaderBytes_def)
  obtain es2 where r2: "ReadN (ByteSizeLong pb m) [] es1 = (Some (Inr body), es2)"
    and s2: "rx_stream es2 = rest"
    using ReadN_enough [of "ByteSizeLong pb m" es1 "[]"] s1 len by auto
  show ?thesis
    using r1 r2 s2 w w0 sz parse by (simp add: ReadMessage_def Let_def)
qed

definition string_ops :: "string message_ops" where
  "string_ops = \<lparr>ByteSizeLong = length, SerializeToArray = Some, ParseFromArray = Some\<rparr>"

theorem codec_message_roundtrip_witness:
  "\<exists>es'. ReadMessage (Some string_ops)
           [Arrive [char_of (0::nat), char_of (0::nat)], RecvError EINTR, Arrive ([char_of (0::nat), char_of (2::nat)] @ ''h''),
            Arrive ''i!'']
         = (Some (Inr ''hi''), es') \<and> rx_stream es' = ''!''"
proof (rule codec_message_roundtrip)
  show "pb_lawful string_ops" by (simp add: pb_lawful_def string_ops_def)
  show "WriteMessage string_ops ''hi'' [Accept 3, SendError EINTR, Accept 9, Accept 2]
        = (Some (Inr ()), [char_of (0::nat), char_of (0::nat), char_of (0::nat), char_of (2::nat)] @ ''hi'', [])"
    by (simp add: WriteMessage_def string_ops_def kMaxFrameSize_def htonl_bytes_def WriteN.simps)
qed simp

text \<open>
  \<open>WriteMessage\<close> never reports success for a message that the reader would refuse, and it puts
  nothing into the stream when it refuses the size: success means one whole frame whose body length
  is between one byte and four megabytes, and a refused size leaves the stream untouched.
\<close>

lemma WriteMessage_frame_bounds:
  "(WriteMessage pb m ss = (Some (Inr ()), out, ss') \<longrightarrow>
      (\<exists>body. SerializeToArray pb m = Some body
            \<and> 1 \<le> ByteSizeLong pb m \<and> ByteSizeLong pb m \<le> 4194304
            \<and> out = htonl_bytes (word_of_nat (ByteSizeLong pb m)) @ body))
   \<and> (ByteSizeLong pb m = 0 \<or> ByteSizeLong pb m > 4194304 \<longrightarrow>
      WriteMessage pb m ss
        = (Some (Inl (''invalid serialized size: '' @ to_string (ByteSizeLong pb m))), [], ss))"
proof (intro conjI impI)
  assume "WriteMessage pb m ss = (Some (Inr ()), out, ss')"
  then obtain body where "SerializeToArray pb m = Some body"
    and "0 < ByteSizeLong pb m" and "ByteSizeLong pb m \<le> kMaxFrameSize"
    and "out = htonl_bytes (word_of_nat (ByteSizeLong pb m)) @ body"
    by (rule WriteMessage_success)
  then show "\<exists>body. SerializeToArray pb m = Some body
            \<and> 1 \<le> ByteSizeLong pb m \<and> ByteSizeLong pb m \<le> 4194304
            \<and> out = htonl_bytes (word_of_nat (ByteSizeLong pb m)) @ body"
    by (auto simp: kMaxFrameSize_def)
qed (auto simp: WriteMessage_def kMaxFrameSize_def)

end
