(* ===== verification/Byte_Buffer.thy ===== *)
theory Byte_Buffer
  imports Codec
begin

text \<open>
  \<open>Connection::Buffer\<close> (\<open>src/server/connection.h\<close>, \<open>src/server/connection.cpp\<close>): the read buffer of a
  server connection, a vector with a read and a write cursor. Consuming bytes moves the read cursor;
  only when the tail is too small are the unread bytes moved to the front or the vector enlarged.
  The client's read buffer is a plain \<open>std::string\<close>. Both are byte queues, and the framing loops of
  both sides use them through that contract.
\<close>

section \<open>The vector with two cursors\<close>

record Buffer =
  buffer_data :: string
  read_index :: nat
  write_index :: nat

definition Buffer_make :: "nat \<Rightarrow> Buffer" where
  "Buffer_make initial_capacity =
     \<lparr>buffer_data = replicate initial_capacity (char_of (0::nat)), read_index = 0, write_index = 0\<rparr>"

definition readable_bytes :: "Buffer \<Rightarrow> nat" where
  "readable_bytes b = write_index b - read_index b"

definition writable_bytes :: "Buffer \<Rightarrow> nat" where
  "writable_bytes b = length (buffer_data b) - write_index b"

definition prependable_bytes :: "Buffer \<Rightarrow> nat" where
  "prependable_bytes b = read_index b"

text \<open>The memory from \<open>peek()\<close> on; \<open>peek_string_view\<close> cuts it at the write cursor.\<close>

definition peek :: "Buffer \<Rightarrow> string" where
  "peek b = drop (read_index b) (buffer_data b)"

definition peek_string_view :: "Buffer \<Rightarrow> string" where
  "peek_string_view b = take (readable_bytes b) (peek b)"

definition retrieve :: "nat \<Rightarrow> Buffer \<Rightarrow> Buffer" where
  "retrieve n b =
     (let b' = b\<lparr>read_index := read_index b + n\<rparr> in
      if read_index b' = write_index b' then b'\<lparr>read_index := 0, write_index := 0\<rparr> else b')"

definition retrieve_all :: "Buffer \<Rightarrow> Buffer" where
  "retrieve_all b = retrieve (readable_bytes b) b"

definition has_written :: "nat \<Rightarrow> Buffer \<Rightarrow> Buffer" where
  "has_written n b = b\<lparr>write_index := write_index b + n\<rparr>"

text \<open>\<open>memmove\<close> of the readable bytes to the front.\<close>

definition compact :: "Buffer \<Rightarrow> Buffer" where
  "compact b =
     (if read_index b = 0 then b
      else let readable = write_index b - read_index b;
               moved = (if readable > 0
                        then take readable (drop (read_index b) (buffer_data b)) @ drop readable (buffer_data b)
                        else buffer_data b)
           in b\<lparr>buffer_data := moved, write_index := readable, read_index := 0\<rparr>)"

text \<open>\<open>std::vector::resize\<close>.\<close>

definition vec_resize :: "nat \<Rightarrow> string \<Rightarrow> string" where
  "vec_resize n v = (if n \<le> length v then take n v else v @ replicate (n - length v) (char_of (0::nat)))"

definition ensure_writable :: "nat \<Rightarrow> Buffer \<Rightarrow> Buffer" where
  "ensure_writable len b =
     (if writable_bytes b \<ge> len then b
      else let b' = compact b in
           if writable_bytes b' < len
           then b'\<lparr>buffer_data := vec_resize (write_index b' + len) (buffer_data b')\<rparr>
           else b')"

text \<open>\<open>append\<close>: \<open>memcpy\<close> at the write cursor.\<close>

definition append_data :: "string \<Rightarrow> Buffer \<Rightarrow> Buffer" where
  "append_data data b =
     (let b' = ensure_writable (length data) b in
      b'\<lparr>buffer_data := take (write_index b') (buffer_data b') @ data
                         @ drop (write_index b' + length data) (buffer_data b'),
         write_index := write_index b' + length data\<rparr>)"

text \<open>The cursors are in order and inside the vector.\<close>

definition buffer_ok :: "Buffer \<Rightarrow> bool" where
  "buffer_ok b \<longleftrightarrow> read_index b \<le> write_index b \<and> write_index b \<le> length (buffer_data b)"

section \<open>The contract of a byte queue\<close>

locale byte_queue =
  fixes empty :: "'q"
    and append :: "string \<Rightarrow> 'q \<Rightarrow> 'q"
    and consume :: "nat \<Rightarrow> 'q \<Rightarrow> 'q"
    and contents :: "'q \<Rightarrow> string"
    and invar :: "'q \<Rightarrow> bool"
  assumes invar_empty: "invar empty"
    and invar_append: "invar q \<Longrightarrow> invar (append bs q)"
    and invar_consume: "invar q \<Longrightarrow> n \<le> length (contents q) \<Longrightarrow> invar (consume n q)"
    and contents_empty: "contents empty = []"
    and contents_append: "invar q \<Longrightarrow> contents (append bs q) = contents q @ bs"
    and contents_consume: "invar q \<Longrightarrow> n \<le> length (contents q) \<Longrightarrow> contents (consume n q) = drop n (contents q)"
begin

text \<open>Bytes that arrive in pieces are the bytes that arrive at once.\<close>

lemma append_pieces: "invar q \<Longrightarrow> invar (fold append pieces q) \<and> contents (fold append pieces q) = contents q @ concat pieces"
  by (induction pieces arbitrary: q) (auto simp: invar_append contents_append)

text \<open>Consuming in two steps is consuming at once.\<close>

lemma consume_twice:
  assumes "invar q" and "m + n \<le> length (contents q)"
  shows "contents (consume n (consume m q)) = contents (consume (m + n) q)"
proof -
  have "invar (consume m q)" using assms by (auto intro: invar_consume)
  then show ?thesis using assms by (simp add: contents_consume add.commute)
qed

text \<open>A prefix that has arrived can be taken out without disturbing what arrives later.\<close>

lemma consume_then_append:
  assumes "invar q" and "n \<le> length (contents q)"
  shows "contents (append bs (consume n q)) = contents (consume n (append bs q))"
  using assms by (simp add: contents_append contents_consume invar_append invar_consume)

end

section \<open>The vector is a byte queue\<close>

lemma length_peek_string_view [simp]: "buffer_ok b \<Longrightarrow> length (peek_string_view b) = readable_bytes b"
  by (auto simp: peek_string_view_def peek_def readable_bytes_def buffer_ok_def)

lemma buffer_ok_make [simp]: "buffer_ok (Buffer_make n)"
  by (simp add: buffer_ok_def Buffer_make_def)

lemma compact_ok:
  "buffer_ok b \<Longrightarrow> buffer_ok (compact b) \<and> peek_string_view (compact b) = peek_string_view b
     \<and> length (buffer_data (compact b)) = length (buffer_data b)"
  by (auto simp: compact_def buffer_ok_def peek_string_view_def peek_def readable_bytes_def Let_def)

lemma ensure_writable_ok:
  assumes "buffer_ok b"
  shows "buffer_ok (ensure_writable n b) \<and> peek_string_view (ensure_writable n b) = peek_string_view b
     \<and> write_index (ensure_writable n b) + n \<le> length (buffer_data (ensure_writable n b))"
proof (cases "writable_bytes b \<ge> n")
  case True
  with assms show ?thesis by (auto simp: ensure_writable_def writable_bytes_def buffer_ok_def)
next
  case False
  let ?c = "compact b"
  from compact_ok [OF assms] have c: "buffer_ok ?c" "peek_string_view ?c = peek_string_view b" by auto
  show ?thesis
  proof (cases "writable_bytes ?c < n")
    case True
    with c have "length (buffer_data ?c) < write_index ?c + n"
      by (auto simp: writable_bytes_def buffer_ok_def)
    with False True c show ?thesis
      by (auto simp: ensure_writable_def Let_def buffer_ok_def vec_resize_def peek_string_view_def
          peek_def readable_bytes_def)
  next
    case ge: False
    with False c show ?thesis by (auto simp: ensure_writable_def Let_def writable_bytes_def buffer_ok_def)
  qed
qed

lemma overwrite_view:
  assumes "r \<le> w" and "w + length d \<le> length xs"
  shows "take (w + length d - r) (drop r (take w xs @ d @ drop (w + length d) xs))
         = take (w - r) (drop r xs) @ d"
proof -
  from assms(2) obtain p q where xs: "xs = p @ q" and p: "length p = w"
    using split_at [of w xs] by auto
  then show ?thesis using assms(1) by simp
qed

lemma append_data_ok:
  assumes "buffer_ok b"
  shows "buffer_ok (append_data data b) \<and> peek_string_view (append_data data b) = peek_string_view b @ data"
proof -
  let ?e = "ensure_writable (length data) b"
  from ensure_writable_ok [OF assms, of "length data"]
  have e: "buffer_ok ?e" "peek_string_view ?e = peek_string_view b"
    "write_index ?e + length data \<le> length (buffer_data ?e)" by auto
  then have "read_index ?e \<le> write_index ?e" by (simp add: buffer_ok_def)
  then have "peek_string_view (append_data data b) = peek_string_view ?e @ data"
    using overwrite_view [of "read_index ?e" "write_index ?e" data "buffer_data ?e"] e(3)
    by (simp add: append_data_def peek_string_view_def peek_def readable_bytes_def Let_def)
  with e show ?thesis by (auto simp: append_data_def buffer_ok_def Let_def)
qed

lemma retrieve_ok:
  assumes "buffer_ok b" and "n \<le> readable_bytes b"
  shows "buffer_ok (retrieve n b) \<and> peek_string_view (retrieve n b) = drop n (peek_string_view b)"
proof -
  have "read_index b + n \<le> write_index b" using assms by (auto simp: buffer_ok_def readable_bytes_def)
  then show ?thesis using assms(1)
    by (auto simp: retrieve_def Let_def buffer_ok_def peek_string_view_def peek_def readable_bytes_def
        drop_take add.commute)
qed

lemma readable_retrieve: "0 < n \<Longrightarrow> n \<le> readable_bytes b \<Longrightarrow> readable_bytes (retrieve n b) < readable_bytes b"
  by (auto simp: retrieve_def readable_bytes_def Let_def)

interpretation server_buffer: byte_queue "Buffer_make 8192" append_data retrieve peek_string_view buffer_ok
proof
  show "peek_string_view (Buffer_make 8192) = []"
    by (simp add: peek_string_view_def readable_bytes_def Buffer_make_def)
qed (use append_data_ok retrieve_ok in \<open>auto\<close>)

text \<open>The client's \<open>std::string read_buffer\<close>: \<open>append\<close> and \<open>erase(0, n)\<close>.\<close>

definition erase_front :: "nat \<Rightarrow> string \<Rightarrow> string" where
  "erase_front n s = drop n s"

interpretation client_buffer: byte_queue "[]" "\<lambda>bs s. s @ bs" erase_front "\<lambda>s. s" "\<lambda>_. True"
  by unfold_locales (auto simp: erase_front_def)

section \<open>Runs of the buffer\<close>

text \<open>
  A run of buffer operations as the connection issues them, and the same run on a plain byte
  string. Consuming more than is readable is a misuse that neither run survives.
\<close>

datatype buffer_op = Append string | Retrieve nat | RetrieveAll

fun run_buffer :: "buffer_op list \<Rightarrow> Buffer \<Rightarrow> Buffer option" where
  "run_buffer [] b = Some b"
| "run_buffer (Append bs # ops) b = run_buffer ops (append_data bs b)"
| "run_buffer (Retrieve n # ops) b = (if n \<le> readable_bytes b then run_buffer ops (retrieve n b) else None)"
| "run_buffer (RetrieveAll # ops) b = run_buffer ops (retrieve_all b)"

fun run_stream :: "buffer_op list \<Rightarrow> string \<Rightarrow> string option" where
  "run_stream [] s = Some s"
| "run_stream (Append bs # ops) s = run_stream ops (s @ bs)"
| "run_stream (Retrieve n # ops) s = (if n \<le> length s then run_stream ops (drop n s) else None)"
| "run_stream (RetrieveAll # ops) s = run_stream ops []"

lemma retrieve_all_ok: "buffer_ok b \<Longrightarrow> buffer_ok (retrieve_all b) \<and> peek_string_view (retrieve_all b) = []"
  using retrieve_ok [of b "readable_bytes b"] by (simp add: retrieve_all_def)

lemma run_buffer_refines:
  "buffer_ok b \<Longrightarrow> map_option peek_string_view (run_buffer ops b) = run_stream ops (peek_string_view b)
     \<and> (\<forall>b'. run_buffer ops b = Some b' \<longrightarrow> buffer_ok b')"
proof (induction ops b rule: run_buffer.induct)
  case (2 bs ops b)
  then show ?case using append_data_ok [of b bs] by simp
next
  case (3 n ops b)
  then show ?case using retrieve_ok [of b n] by simp
next
  case (4 ops b)
  then show ?case using retrieve_all_ok [of b] by simp
qed simp

text \<open>
  C10: the two-cursor buffer behaves like the byte stream it holds. For every capacity and every
  sequence of appends and retrieves, compaction and growth included, the readable bytes are exactly
  the bytes appended and not yet retrieved, in order; the cursors stay in order and inside the
  vector; and \<open>append\<close> never copies past the end of the vector.
\<close>

theorem buffer_refines_stream:
  "map_option peek_string_view (run_buffer ops (Buffer_make cap)) = run_stream ops []
   \<and> (\<forall>b. run_buffer ops (Buffer_make cap) = Some b \<longrightarrow>
        read_index b \<le> write_index b \<and> write_index b \<le> length (buffer_data b)
        \<and> write_index (ensure_writable n b) + n \<le> length (buffer_data (ensure_writable n b)))"
proof -
  have "peek_string_view (Buffer_make cap) = []"
    by (simp add: peek_string_view_def readable_bytes_def Buffer_make_def)
  with run_buffer_refines [of "Buffer_make cap" ops]
  have "map_option peek_string_view (run_buffer ops (Buffer_make cap)) = run_stream ops []"
    "\<forall>b. run_buffer ops (Buffer_make cap) = Some b \<longrightarrow> buffer_ok b" by simp_all
  with ensure_writable_ok show ?thesis unfolding buffer_ok_def by blast
qed

theorem buffer_refines_stream_witness:
  "\<exists>b. run_buffer [Append ''abcd'', Retrieve 3, Append ''efg''] (Buffer_make 4) = Some b
     \<and> peek_string_view b = ''defg'' \<and> write_index b \<le> length (buffer_data b)"
proof -
  let ?ops = "[Append ''abcd'', Retrieve 3, Append ''efg'']"
  have run: "run_stream ?ops [] = Some ''defg''" by simp
  note inst = buffer_refines_stream [of ?ops 4 0, unfolded run map_option_eq_Some]
  then obtain b where "run_buffer ?ops (Buffer_make 4) = Some b" "peek_string_view b = ''defg''"
    by blast
  with inst show ?thesis by blast
qed

end
