(* ===== verification/Rpc_Error.thy ===== *)
theory Rpc_Error
  imports Rpc_Prelude
begin

text \<open>
  \<open>src/common/rpc_error.h\<close>, \<open>src/common/rpc_error.cpp\<close> and \<open>src/client/rpc_types.h\<close>: the error codes
  of the framework, their translation to and from the numbers of \<open>proto/rpc.proto\<close>, the status
  object, the exception a handler may throw, and the result of a call.
\<close>

section \<open>Codes and categories\<close>

datatype ErrorCode = kOk | kMethodNotFound | kParseError | kInternalError

text \<open>The underlying value of the enumerator, and the enumerator (if any) of a value.\<close>

fun code_value :: "ErrorCode \<Rightarrow> int" where
  "code_value kOk = 0"
| "code_value kMethodNotFound = 1"
| "code_value kParseError = 2"
| "code_value kInternalError = 3"

definition code_of_value :: "int \<Rightarrow> ErrorCode option" where
  "code_of_value v =
     (if v = 0 then Some kOk else if v = 1 then Some kMethodNotFound
      else if v = 2 then Some kParseError else if v = 3 then Some kInternalError else None)"

text \<open>
  \<open>std::error_code\<close> is a value with a category. Categories are compared by identity; besides the
  category of this framework there are those of the standard library, told apart by name.
\<close>

datatype error_category = RpcErrorCategory | OtherCategory string

record error_code =
  ec_value :: int
  ec_category :: error_category

text \<open>\<open>RpcErrorCategory::name\<close> and \<open>RpcErrorCategory::message\<close>.\<close>

definition category_name :: "error_category \<Rightarrow> string" where
  "category_name c = (case c of RpcErrorCategory \<Rightarrow> ''rpc'' | OtherCategory n \<Rightarrow> n)"

definition category_message :: "int \<Rightarrow> string" where
  "category_message ev =
     (case code_of_value ev of
        Some kOk \<Rightarrow> ''ok''
      | Some kMethodNotFound \<Rightarrow> ''method not found''
      | Some kParseError \<Rightarrow> ''parse error''
      | Some kInternalError \<Rightarrow> ''internal error''
      | None \<Rightarrow> ''unknown rpc error'')"

definition make_error_code :: "ErrorCode \<Rightarrow> error_code" where
  "make_error_code c = \<lparr>ec_value = code_value c, ec_category = RpcErrorCategory\<rparr>"

text \<open>\<open>explicit operator bool\<close> of \<open>std::error_code\<close>: there is an error.\<close>

definition is_error :: "error_code \<Rightarrow> bool" where
  "is_error c \<longleftrightarrow> ec_value c \<noteq> 0"

text \<open>\<open>ToString(ErrorCode)\<close>.\<close>

fun ToString :: "ErrorCode \<Rightarrow> string" where
  "ToString kOk = ''OK''"
| "ToString kMethodNotFound = ''METHOD_NOT_FOUND''"
| "ToString kParseError = ''PARSE_ERROR''"
| "ToString kInternalError = ''INTERNAL_ERROR''"

section \<open>Translation to the wire\<close>

text \<open>The numbers of \<open>enum ErrorCode\<close> in \<open>proto/rpc.proto\<close>.\<close>

definition proto_OK :: int where "proto_OK = 0"
definition proto_METHOD_NOT_FOUND :: int where "proto_METHOD_NOT_FOUND = 1"
definition proto_PARSE_ERROR :: int where "proto_PARSE_ERROR = 2"
definition proto_INTERNAL_ERROR :: int where "proto_INTERNAL_ERROR = 3"

lemmas proto_defs = proto_OK_def proto_METHOD_NOT_FOUND_def proto_PARSE_ERROR_def proto_INTERNAL_ERROR_def

definition ToProtoErrorCode :: "error_code \<Rightarrow> int" where
  "ToProtoErrorCode code =
     (if \<not> is_error code then proto_OK
      else if ec_category code \<noteq> RpcErrorCategory then proto_INTERNAL_ERROR
      else case code_of_value (ec_value code) of
             Some kOk \<Rightarrow> proto_OK
           | Some kMethodNotFound \<Rightarrow> proto_METHOD_NOT_FOUND
           | Some kParseError \<Rightarrow> proto_PARSE_ERROR
           | Some kInternalError \<Rightarrow> proto_INTERNAL_ERROR
           | None \<Rightarrow> proto_INTERNAL_ERROR)"

definition FromProtoErrorCode :: "int \<Rightarrow> error_code" where
  "FromProtoErrorCode code =
     (if code = proto_OK then make_error_code kOk
      else if code = proto_METHOD_NOT_FOUND then make_error_code kMethodNotFound
      else if code = proto_PARSE_ERROR then make_error_code kParseError
      else if code = proto_INTERNAL_ERROR then make_error_code kInternalError
      else make_error_code kInternalError)"

section \<open>Status, exception, call result\<close>

record Status =
  st_code :: error_code
  st_message :: string

definition status_ok :: "Status \<Rightarrow> bool" where
  "status_ok s \<longleftrightarrow> \<not> is_error (st_code s)"

definition Status_Ok :: Status where
  "Status_Ok = \<lparr>st_code = make_error_code kOk, st_message = []\<rparr>"

text \<open>
  \<open>RpcException\<close>: the text of \<open>what()\<close> is the message, or the text of the code if there is none
  (a code of a foreign category asks that category, which is the second argument).
\<close>

record RpcException =
  ex_code :: error_code
  ex_what :: string

definition RpcException_make :: "(string \<Rightarrow> int \<Rightarrow> string) \<Rightarrow> error_code \<Rightarrow> string \<Rightarrow> RpcException" where
  "RpcException_make foreign_message code message =
     \<lparr>ex_code = code,
      ex_what = (if message = [] then
                   (case ec_category code of
                      RpcErrorCategory \<Rightarrow> category_message (ec_value code)
                    | OtherCategory n \<Rightarrow> foreign_message n (ec_value code))
                 else message)\<rparr>"

record RpcCallResult =
  status :: Status
  response_payload :: string

text \<open>The default member initialisers of \<open>RpcCallResult\<close>, and the shape of every local failure.\<close>

definition uninitialized_result :: RpcCallResult where
  "uninitialized_result =
     \<lparr>status = \<lparr>st_code = make_error_code kInternalError, st_message = ''uninitialized''\<rparr>,
      response_payload = []\<rparr>"

definition failure :: "ErrorCode \<Rightarrow> string \<Rightarrow> RpcCallResult" where
  "failure c msg = \<lparr>status = \<lparr>st_code = make_error_code c, st_message = msg\<rparr>, response_payload = []\<rparr>"

definition result_ok :: "RpcCallResult \<Rightarrow> bool" where
  "result_ok r \<longleftrightarrow> status_ok (status r)"

section \<open>Facts\<close>

lemma code_of_code_value [simp]: "code_of_value (code_value c) = Some c"
  by (cases c) (simp_all add: code_of_value_def)

lemma code_of_value_Some: "code_of_value v = Some c \<longleftrightarrow> v = code_value c"
  by (cases c) (auto simp: code_of_value_def)

lemma code_value_0 [simp]: "code_value c = 0 \<longleftrightarrow> c = kOk"
  by (cases c) simp_all

lemma is_error_make [simp]: "is_error (make_error_code c) \<longleftrightarrow> c \<noteq> kOk"
  by (simp add: is_error_def make_error_code_def)

lemma result_ok_failure [simp]: "result_ok (failure c msg) \<longleftrightarrow> c = kOk"
  by (simp add: result_ok_def status_ok_def failure_def)

lemma failure_fields [simp]:
  "st_message (status (failure c msg)) = msg"
  "st_code (status (failure c msg)) = make_error_code c"
  "response_payload (failure c msg) = []"
  by (simp_all add: failure_def)

text \<open>
  The client reads back exactly the framework code that the server put on the wire. Every
  framework code survives the translation to the protobuf number and back, every number of the
  protocol survives the translation to a framework code and back, and a foreign or unnamed error is
  reported as an internal error.
\<close>

lemma error_code_wire_roundtrip:
  "FromProtoErrorCode (ToProtoErrorCode (make_error_code c)) = make_error_code c
   \<and> (n \<in> {proto_OK, proto_METHOD_NOT_FOUND, proto_PARSE_ERROR, proto_INTERNAL_ERROR}
        \<longrightarrow> ToProtoErrorCode (FromProtoErrorCode n) = n)
   \<and> (is_error e \<and> (ec_category e \<noteq> RpcErrorCategory \<or> code_of_value (ec_value e) = None)
        \<longrightarrow> FromProtoErrorCode (ToProtoErrorCode e) = make_error_code kInternalError)"
proof (intro conjI impI)
  show "FromProtoErrorCode (ToProtoErrorCode (make_error_code c)) = make_error_code c"
    by (cases c)
      (simp_all add: ToProtoErrorCode_def FromProtoErrorCode_def make_error_code_def is_error_def
        code_of_value_def proto_defs)
next
  assume "n \<in> {proto_OK, proto_METHOD_NOT_FOUND, proto_PARSE_ERROR, proto_INTERNAL_ERROR}"
  then show "ToProtoErrorCode (FromProtoErrorCode n) = n"
    by (auto simp: ToProtoErrorCode_def FromProtoErrorCode_def make_error_code_def is_error_def
        code_of_value_def proto_defs)
next
  assume "is_error e \<and> (ec_category e \<noteq> RpcErrorCategory \<or> code_of_value (ec_value e) = None)"
  then show "FromProtoErrorCode (ToProtoErrorCode e) = make_error_code kInternalError"
    by (auto simp: ToProtoErrorCode_def FromProtoErrorCode_def proto_defs)
qed

text \<open>
  No error becomes a success on its way over the wire, whatever its category or value, and
  no success becomes an error.
\<close>

lemma ToProto_OK_iff: "ToProtoErrorCode e = proto_OK \<longleftrightarrow> \<not> is_error e"
  by (auto simp: ToProtoErrorCode_def proto_defs is_error_def code_of_value_def)

lemma FromProto_ok_iff: "is_error (FromProtoErrorCode n) \<longleftrightarrow> n \<noteq> proto_OK"
  by (simp add: FromProtoErrorCode_def proto_defs)

end
