(* ===== verification/Service_Registry.thy ===== *)
theory Service_Registry
  imports Rpc_Error
begin

text \<open>
  \<open>src/server/service_registry.h\<close> and \<open>src/server/service_registry.cpp\<close>: the table of RPC methods. A
  handler is user code; a call of it either returns the response payload or throws, and the three
  kinds of exception that the server tells apart are the three other outcomes.
\<close>

section \<open>Handlers and the table\<close>

datatype handler_outcome =
    Returns string
  | ThrowsRpcError RpcException
  | ThrowsStdException string
  | ThrowsUnknown

type_synonym Handler = "string \<Rightarrow> handler_outcome"

record ServiceRegistry =
  handlers :: "string \<rightharpoonup> Handler"

definition ServiceRegistry_init :: ServiceRegistry where
  "ServiceRegistry_init = \<lparr>handlers = Map.empty\<rparr>"

definition BuildKey :: "string \<Rightarrow> string \<Rightarrow> string" where
  "BuildKey service_name method_name = (service_name @ ''.'') @ method_name"

text \<open>\<open>Register\<close>: an empty \<open>std::function\<close> is \<^const>\<open>None\<close>. The result is the return value and the new table.\<close>

definition Register :: "string \<Rightarrow> string \<Rightarrow> Handler option \<Rightarrow> ServiceRegistry \<Rightarrow> bool \<times> ServiceRegistry" where
  "Register service_name method_name handler r =
     (if service_name = [] \<or> method_name = [] then (False, r)
      else case handler of
             None \<Rightarrow> (False, r)
           | Some h \<Rightarrow>
               (let key = BuildKey service_name method_name in
                if key \<in> dom (handlers r) then (False, r)
                else (True, r\<lparr>handlers := (handlers r)(key \<mapsto> h)\<rparr>)))"

definition Find :: "string \<Rightarrow> string \<Rightarrow> ServiceRegistry \<Rightarrow> Handler option" where
  "Find service_name method_name r = handlers r (BuildKey service_name method_name)"

section \<open>The contract of a method table\<close>

text \<open>
  What the connection and the worker loop rely on: a table that starts empty, in which a successful
  registration makes the method available under its name and changes nothing else that could be
  found before, and in which a refused registration changes nothing.
\<close>

locale method_table =
  fixes empty :: "'r"
    and register :: "string \<Rightarrow> string \<Rightarrow> 'h option \<Rightarrow> 'r \<Rightarrow> bool \<times> 'r"
    and find :: "string \<Rightarrow> string \<Rightarrow> 'r \<Rightarrow> 'h option"
  assumes find_empty: "find s m empty = None"
    and register_finds: "register s m h r = (True, r') \<Longrightarrow> find s m r' = h \<and> h \<noteq> None"
    and register_keeps: "register s m h r = (b, r') \<Longrightarrow> find s' m' r = Some g \<Longrightarrow> find s' m' r' = Some g"
    and register_refused: "register s m h r = (False, r') \<Longrightarrow> r' = r"
begin

primrec register_all :: "(string \<times> string \<times> 'h option) list \<Rightarrow> 'r \<Rightarrow> 'r" where
  "register_all [] r = r"
| "register_all (x # xs) r = register_all xs (snd (register (fst x) (fst (snd x)) (snd (snd x)) r))"

lemma register_all_keeps: "find s m r = Some g \<Longrightarrow> find s m (register_all xs r) = Some g"
proof (induction xs arbitrary: r)
  case (Cons x xs)
  obtain b r' where "register (fst x) (fst (snd x)) (snd (snd x)) r = (b, r')" by fastforce
  with Cons register_keeps show ?case by fastforce
qed simp

lemma registered_is_stable:
  assumes "register s m h r = (True, r')"
  shows "find s m (register_all xs r') = h"
  using register_finds [OF assms] register_all_keeps by auto

end

lemma ServiceRegistry_method_table: "method_table ServiceRegistry_init Register Find"
proof
  fix s m show "Find s m ServiceRegistry_init = None"
    by (simp add: Find_def ServiceRegistry_init_def)
next
  fix s m h r r' assume "Register s m h r = (True, r')"
  then show "Find s m r' = h \<and> h \<noteq> None"
    by (auto simp: Register_def Find_def Let_def split: if_splits option.splits)
next
  fix s m h r b r' s' m' g assume "Register s m h r = (b, r')" "Find s' m' r = Some g"
  then show "Find s' m' r' = Some g"
    by (auto simp: Register_def Find_def Let_def split: if_splits option.splits)
next
  fix s m h r r' assume "Register s m h r = (False, r')"
  then show "r' = r" by (auto simp: Register_def Let_def split: if_splits option.splits)
qed

interpretation registry: method_table ServiceRegistry_init Register Find
  by (rule ServiceRegistry_method_table)

lemma fst_Register_iff:
  "fst (Register s m h r) \<longleftrightarrow> s \<noteq> [] \<and> m \<noteq> [] \<and> h \<noteq> None \<and> Find s m r = None"
  by (auto simp: Register_def Find_def Let_def split: option.splits)

lemma BuildKey_inject:
  assumes "CHR ''.'' \<notin> set s" and "CHR ''.'' \<notin> set s'" and "BuildKey s m = BuildKey s' m'"
  shows "s = s' \<and> m = m'"
proof -
  from assms(3) have eq: "s @ CHR ''.'' # m = s' @ CHR ''.'' # m'" by (simp add: BuildKey_def)
  have "takeWhile (\<lambda>c. c \<noteq> CHR ''.'') (s @ CHR ''.'' # m) = s"
    "takeWhile (\<lambda>c. c \<noteq> CHR ''.'') (s' @ CHR ''.'' # m') = s'"
    using assms(1,2) by (subst takeWhile_append2; auto)+
  with eq have "s = s'" by simp
  with eq show ?thesis by simp
qed

section \<open>Properties\<close>

text \<open>
  A method stays what it was registered as. \<open>Register\<close> succeeds exactly for non-empty names, a
  non-empty handler and a method that is not there yet; afterwards \<open>Find\<close> returns that handler, and
  no later sequence of registrations, successful or refused, replaces or removes it.
\<close>

lemma registered_method_stays:
  "(fst (Register s m h r) \<longleftrightarrow> s \<noteq> [] \<and> m \<noteq> [] \<and> h \<noteq> None \<and> Find s m r = None)
   \<and> (fst (Register s m h r) \<longrightarrow>
        Find s m (fold (\<lambda>(s', m', h') t. snd (Register s' m' h' t)) xs (snd (Register s m h r))) = h)"
proof (intro conjI impI)
  show "fst (Register s m h r) \<longleftrightarrow> (s \<noteq> [] \<and> m \<noteq> [] \<and> h \<noteq> None \<and> Find s m r = None)"
    by (rule fst_Register_iff)
next
  assume "fst (Register s m h r)"
  then have reg: "Register s m h r = (True, snd (Register s m h r))" by (metis prod.collapse)
  have fold: "fold (\<lambda>(s', m', h') t. snd (Register s' m' h' t)) xs t = registry.register_all xs t" for t
    by (induction xs arbitrary: t) auto
  show "Find s m (fold (\<lambda>(s', m', h') t. snd (Register s' m' h' t)) xs (snd (Register s m h r))) = h"
    unfolding fold by (rule registry.registered_is_stable [OF reg])
qed

text \<open>
  Methods of different services are kept apart as long as service names contain no dot: a
  registration changes what \<open>Find\<close> returns for no other pair of names. Without that restriction the
  key \<open>service.method\<close> is ambiguous, and a method is found under a pair of names under which nobody
  registered it.
\<close>

lemma registration_is_separate:
  assumes "CHR ''.'' \<notin> set s" and "CHR ''.'' \<notin> set s'" and "(s, m) \<noteq> (s', m')"
  shows "Find s' m' (snd (Register s m h r)) = Find s' m' r"
proof -
  have "BuildKey s' m' \<noteq> BuildKey s m" using BuildKey_inject assms by blast
  then show ?thesis by (auto simp: Register_def Find_def Let_def split: option.splits)
qed

end
