(* ===== verification/Connection.thy ===== *)
theory Connection
  imports Rpc_Frames Service_Registry
begin

text \<open>
  \<open>src/server/connection.h\<close> and \<open>src/server/connection.cpp\<close>: one client connection of the server.
  The record holds the members of the class (the socket as its two scripts and the bytes the kernel
  has taken), the string that the caller's \<open>error_msg\<close> points to, and the state \<open>world\<close> of the code
  behind \<open>request_dispatcher_\<close>. Operations map the record to a return value and a new record.

  Resuming a suspended coroutine runs code of the worker loop, so the operations that wake a waiter
  take the function \<open>resume\<close> that runs it. Time is read once per operation: \<open>now\<close> in the environment.
\<close>

section \<open>State\<close>

datatype State = kOpen | kReading | kWriting | kClosing | kClosed | kError

datatype ReadResult = kWouldBlock | kData | kPeerClosed | kReadError

record Options =
  read_timeout :: duration
  write_timeout :: duration
  max_write_buffer_bytes :: nat

definition Options_default :: Options where
  "Options_default = \<lparr>read_timeout = ms 5000, write_timeout = ms 5000, max_write_buffer_bytes = 8 * 1024 * 1024\<rparr>"

record PendingChunk =
  chunk_data :: string
  chunk_offset :: nat

record DispatchRequest =
  dr_sequence :: u64
  dr_request_id :: string
  dr_service_name :: string
  dr_method_name :: string
  dr_payload :: string

text \<open>
  A dispatcher gets the request and the contents of \<open>error_msg\<close> (if the pointer is there), and
  returns success, the new contents of \<open>error_msg\<close> and its new state.
\<close>

type_synonym 'w RequestDispatchFn = "DispatchRequest \<Rightarrow> string option \<Rightarrow> 'w \<Rightarrow> bool \<times> string option \<times> 'w"

text \<open>
  The places where a coroutine of a connection can be suspended: in \<open>ReadRequestCo\<close> on
  \<open>WaitReadableCo\<close> and in \<open>WriteResponseCo\<close> on \<open>WaitWritableCo\<close>.
\<close>

datatype co_handle = AtReadable | AtWritable

record 'w connection =
  rx_sock :: rx_script
  tx_sock :: tx_script
  sent :: string
  registry :: ServiceRegistry
  options :: Options
  read_buffer :: Buffer
  write_buffer :: "PendingChunk list"
  pending_write_bytes :: nat
  last_error :: string
  conn_state :: State
  should_close :: bool
  read_ready :: bool
  write_ready :: bool
  read_deadline :: "time_point option"
  write_deadline :: "time_point option"
  read_waiter :: "co_handle option"
  write_waiter :: "co_handle option"
  request_dispatcher :: "'w RequestDispatchFn option"
  next_request_sequence :: u64
  owner_worker_id :: "nat option"
  owner_thread_id :: "nat option"
  error_msg :: "string option"
  world :: 'w

text \<open>
  What the operations take from outside: the generated message classes, the clock, and the value
  that \<open>errno\<close> happens to hold (read only when \<open>send\<close> returns zero).
\<close>

record conn_env =
  req_pb :: "RpcRequest message_ops"
  rsp_pb :: "RpcResponse message_ops"
  now :: time_point
  stale_errno :: errno

definition Connection_make ::
    "ServiceRegistry \<Rightarrow> Options \<Rightarrow> rx_script \<Rightarrow> tx_script \<Rightarrow> 'w \<Rightarrow> 'w connection" where
  "Connection_make reg opts rx tx w =
     \<lparr>rx_sock = rx, tx_sock = tx, sent = [], registry = reg, options = opts,
      read_buffer = Buffer_make 8192, write_buffer = [], pending_write_bytes = 0, last_error = [],
      conn_state = kOpen, should_close = False, read_ready = False, write_ready = False,
      read_deadline = None, write_deadline = None, read_waiter = None, write_waiter = None,
      request_dispatcher = None, next_request_sequence = 0, owner_worker_id = None,
      owner_thread_id = None, error_msg = Some [], world = w\<rparr>"

section \<open>Queries and small updates\<close>

definition HasPendingWrite :: "('w, 'z) connection_scheme \<Rightarrow> bool" where
  "HasPendingWrite s \<longleftrightarrow> write_buffer s \<noteq> []"

fun StateName :: "State \<Rightarrow> string" where
  "StateName kOpen = ''open''"
| "StateName kReading = ''reading''"
| "StateName kWriting = ''writing''"
| "StateName kClosing = ''closing''"
| "StateName kClosed = ''closed''"
| "StateName kError = ''error''"

definition HasRequestDispatcher :: "('w, 'z) connection_scheme \<Rightarrow> bool" where
  "HasRequestDispatcher s \<longleftrightarrow> request_dispatcher s \<noteq> None"

definition BindToWorkerLoop :: "nat \<Rightarrow> nat \<Rightarrow> ('w, 'z) connection_scheme \<Rightarrow> ('w, 'z) connection_scheme" where
  "BindToWorkerLoop this_thread worker_id s =
     s\<lparr>owner_worker_id := Some worker_id, owner_thread_id := Some this_thread\<rparr>"

definition IsOnOwnerThread :: "nat \<Rightarrow> ('w, 'z) connection_scheme \<Rightarrow> bool" where
  "IsOnOwnerThread this_thread s \<longleftrightarrow> (case owner_thread_id s of None \<Rightarrow> True | Some t \<Rightarrow> t = this_thread)"

definition SetRequestDispatcher :: "'w RequestDispatchFn \<Rightarrow> ('w, 'z) connection_scheme \<Rightarrow> ('w, 'z) connection_scheme" where
  "SetRequestDispatcher d s = s\<lparr>request_dispatcher := Some d\<rparr>"

definition ArmReadDeadline :: "conn_env \<Rightarrow> ('w, 'z) connection_scheme \<Rightarrow> ('w, 'z) connection_scheme" where
  "ArmReadDeadline E s = s\<lparr>read_deadline := Some (now E + read_timeout (options s))\<rparr>"

definition ArmWriteDeadline :: "conn_env \<Rightarrow> ('w, 'z) connection_scheme \<Rightarrow> ('w, 'z) connection_scheme" where
  "ArmWriteDeadline E s = s\<lparr>write_deadline := Some (now E + write_timeout (options s))\<rparr>"

definition ClearReadDeadline :: "('w, 'z) connection_scheme \<Rightarrow> ('w, 'z) connection_scheme" where
  "ClearReadDeadline s = s\<lparr>read_deadline := None\<rparr>"

definition ClearWriteDeadline :: "('w, 'z) connection_scheme \<Rightarrow> ('w, 'z) connection_scheme" where
  "ClearWriteDeadline s = s\<lparr>write_deadline := None\<rparr>"

text \<open>\<open>if (error_msg != nullptr) *error_msg = m\<close>.\<close>

definition set_error :: "string \<Rightarrow> ('w, 'z) connection_scheme \<Rightarrow> ('w, 'z) connection_scheme" where
  "set_error m s = s\<lparr>error_msg := map_option (\<lambda>_. m) (error_msg s)\<rparr>"

text \<open>\<open>error_msg == nullptr ? m : *error_msg\<close>.\<close>

definition error_or :: "string \<Rightarrow> ('w, 'z) connection_scheme \<Rightarrow> string" where
  "error_or m s = (case error_msg s of None \<Rightarrow> m | Some e \<Rightarrow> e)"

section \<open>Waking waiters\<close>

type_synonym ('w, 'z) resume_fn = "co_handle \<Rightarrow> ('w, 'z) connection_scheme \<Rightarrow> ('w, 'z) connection_scheme"

text \<open>\<open>ResumeWaiter\<close> on \<open>read_waiter_\<close> and on \<open>write_waiter_\<close>: the handle is cleared first.\<close>

definition ResumeReadWaiter :: "('w, 'z) resume_fn \<Rightarrow> ('w, 'z) connection_scheme \<Rightarrow> ('w, 'z) connection_scheme" where
  "ResumeReadWaiter resume s =
     (case read_waiter s of None \<Rightarrow> s | Some h \<Rightarrow> resume h (s\<lparr>read_waiter := None\<rparr>))"

definition ResumeWriteWaiter :: "('w, 'z) resume_fn \<Rightarrow> ('w, 'z) connection_scheme \<Rightarrow> ('w, 'z) connection_scheme" where
  "ResumeWriteWaiter resume s =
     (case write_waiter s of None \<Rightarrow> s | Some h \<Rightarrow> resume h (s\<lparr>write_waiter := None\<rparr>))"

definition EnterError :: "('w, 'z) resume_fn \<Rightarrow> string \<Rightarrow> ('w, 'z) connection_scheme \<Rightarrow> ('w, 'z) connection_scheme" where
  "EnterError resume message s =
     (let s1 = (if message \<noteq> [] then s\<lparr>last_error := message\<rparr> else s);
          s2 = s1\<lparr>should_close := True, conn_state := kError\<rparr>;
          s3 = ClearWriteDeadline (ClearReadDeadline s2)
      in ResumeWriteWaiter resume (ResumeReadWaiter resume s3))"

definition MarkClosing :: "('w, 'z) resume_fn \<Rightarrow> ('w, 'z) connection_scheme \<Rightarrow> ('w, 'z) connection_scheme" where
  "MarkClosing resume s =
     (let s1 = (if conn_state s \<noteq> kClosed \<and> conn_state s \<noteq> kError then s\<lparr>conn_state := kClosing\<rparr> else s);
          s2 = ClearWriteDeadline (ClearReadDeadline (s1\<lparr>should_close := True\<rparr>))
      in ResumeWriteWaiter resume (ResumeReadWaiter resume s2))"

definition MarkClosed :: "('w, 'z) connection_scheme \<Rightarrow> ('w, 'z) connection_scheme" where
  "MarkClosed s =
     (ClearWriteDeadline (ClearReadDeadline
       (s\<lparr>should_close := True, conn_state := kClosed, read_ready := False, write_ready := False\<rparr>)))
       \<lparr>read_waiter := None, write_waiter := None\<rparr>"

definition Tick :: "('w, 'z) resume_fn \<Rightarrow> time_point \<Rightarrow> ('w, 'z) connection_scheme \<Rightarrow> ('w, 'z) connection_scheme" where
  "Tick resume t s =
     (if conn_state s = kClosed \<or> conn_state s = kError \<or> should_close s then s
      else if (case read_deadline s of Some d \<Rightarrow> t \<ge> d | None \<Rightarrow> False)
      then EnterError resume ''read timeout'' s
      else if (case write_deadline s of Some d \<Rightarrow> t \<ge> d | None \<Rightarrow> False)
      then EnterError resume ''write timeout'' s
      else s)"

definition NotifyReadable :: "('w, 'z) resume_fn \<Rightarrow> ('w, 'z) connection_scheme \<Rightarrow> ('w, 'z) connection_scheme" where
  "NotifyReadable resume s = ResumeReadWaiter resume (s\<lparr>read_ready := True, conn_state := kReading\<rparr>)"

definition NotifyWritable :: "('w, 'z) resume_fn \<Rightarrow> ('w, 'z) connection_scheme \<Rightarrow> ('w, 'z) connection_scheme" where
  "NotifyWritable resume s = ResumeWriteWaiter resume (s\<lparr>write_ready := True, conn_state := kWriting\<rparr>)"

section \<open>Reading from the socket\<close>

function ReadFromSocket :: "('w, 'z) connection_scheme \<Rightarrow> ReadResult \<times> ('w, 'z) connection_scheme" where
  "ReadFromSocket s =
     (case recv_nb 4096 (rx_sock s) of
        (Got bs, es) \<Rightarrow>
          ReadFromSocket (s\<lparr>rx_sock := es, read_buffer := append_data bs (read_buffer s)\<rparr>)
      | (Eof, es) \<Rightarrow> (kPeerClosed, set_error ''peer closed connection'' (s\<lparr>rx_sock := es\<rparr>))
      | (RecvFail e, es) \<Rightarrow>
          (if e = EINTR then ReadFromSocket (s\<lparr>rx_sock := es\<rparr>)
           else if e = EAGAIN \<or> e = EWOULDBLOCK then
             (if readable_bytes (read_buffer s) = 0 then kWouldBlock else kData, s\<lparr>rx_sock := es\<rparr>)
           else (kReadError, set_error (''recv failed: '' @ strerror e) (s\<lparr>rx_sock := es\<rparr>))))"
  by pat_completeness auto
termination
  by (relation "measure (\<lambda>s. rx_size (rx_sock s))")
    (auto simp: recv_nb_def split: prod.splits option.splits dest: recv_Got_size recv_Fail_size)

declare ReadFromSocket.simps [simp del]

section \<open>Handling one request\<close>

definition kHeartbeatServiceName :: string where
  "kHeartbeatServiceName = ''__Heartbeat__''"

text \<open>\<^const>\<open>None\<close> as the response is a null pointer, \<^const>\<open>None\<close> as the result is \<open>false\<close>.\<close>

definition HandleOneRequest :: "ServiceRegistry \<Rightarrow> RpcRequest \<Rightarrow> RpcResponse option \<Rightarrow> RpcResponse option" where
  "HandleOneRequest reg request response =
     (case response of
        None \<Rightarrow> None
      | Some r \<Rightarrow>
          (let r1 = r\<lparr>rsp_request_id := request_id request, rsp_error_code := proto_OK,
                      rsp_error_msg := [], rsp_payload := []\<rparr> in
           case Find (service_name request) (method_name request) reg of
             None \<Rightarrow>
               Some (r1\<lparr>rsp_error_code := proto_METHOD_NOT_FOUND,
                        rsp_error_msg := ''method not found: '' @ service_name request @ ''.''
                                          @ method_name request\<rparr>)
           | Some handler \<Rightarrow>
               (case handler (payload request) of
                  Returns p \<Rightarrow> Some (r1\<lparr>rsp_payload := p\<rparr>)
                | ThrowsRpcError ex \<Rightarrow>
                    Some (r1\<lparr>rsp_error_code := ToProtoErrorCode (ex_code ex), rsp_error_msg := ex_what ex\<rparr>)
                | ThrowsStdException what \<Rightarrow>
                    Some (r1\<lparr>rsp_error_code := ToProtoErrorCode (make_error_code kInternalError),
                             rsp_error_msg := ''handler exception: '' @ what\<rparr>)
                | ThrowsUnknown \<Rightarrow>
                    Some (r1\<lparr>rsp_error_code := ToProtoErrorCode (make_error_code kInternalError),
                             rsp_error_msg := ''handler threw unknown exception''\<rparr>))))"

section \<open>Queueing a response\<close>

definition QueueResponse ::
    "conn_env \<Rightarrow> RpcResponse \<Rightarrow> ('w, 'z) connection_scheme \<Rightarrow> bool \<times> ('w, 'z) connection_scheme" where
  "QueueResponse E response s =
     (let body_length = ByteSizeLong (rsp_pb E) response in
      if body_length = 0 \<or> body_length > kMaxFrameSize
      then (False, set_error ''invalid response frame size'' s)
      else case SerializeToArray (rsp_pb E) response of
             None \<Rightarrow> (False, set_error ''failed to serialize RpcResponse'' s)
           | Some body \<Rightarrow>
               (case EncodeFrame True body of
                  Inl m \<Rightarrow> (False, set_error m s)
                | Inr frame \<Rightarrow>
                    (let next_size = pending_write_bytes s + length frame in
                     if next_size > max_write_buffer_bytes (options s)
                     then (False, set_error ''write buffer backpressure limit exceeded'' s)
                     else (True, s\<lparr>pending_write_bytes := next_size,
                                   write_buffer := write_buffer s @ [\<lparr>chunk_data = frame, chunk_offset = 0\<rparr>]\<rparr>))))"

definition EnqueueResponse ::
    "conn_env \<Rightarrow> RpcResponse \<Rightarrow> ('w, 'z) connection_scheme \<Rightarrow> bool \<times> ('w, 'z) connection_scheme" where
  "EnqueueResponse E response s =
     (case QueueResponse E response s of
        (queued, s') \<Rightarrow> (queued, if queued then ArmWriteDeadline E s' else s'))"

section \<open>Parsing and handling the buffered requests\<close>

text \<open>Handing a request to the dispatcher.\<close>

definition dispatch_request ::
    "'w RequestDispatchFn \<Rightarrow> RpcRequest \<Rightarrow> ('w, 'z) connection_scheme \<Rightarrow> bool \<times> ('w, 'z) connection_scheme" where
  "dispatch_request d request s =
     (let seq = next_request_sequence s + 1;
          dispatch = \<lparr>dr_sequence = seq, dr_request_id = request_id request,
                      dr_service_name = service_name request, dr_method_name = method_name request,
                      dr_payload = payload request\<rparr>
      in case d dispatch (error_msg s) (world s) of
           (ok, err, w) \<Rightarrow>
             (ok, s\<lparr>next_request_sequence := seq, world := w,
                    error_msg := (if \<not> ok \<and> err = Some [] then Some ''failed to dispatch request'' else err)\<rparr>))"

text \<open>
  The body of the loop of \<open>TryParseRequests\<close> for one complete frame, without the \<open>retrieve\<close> that
  every successful branch ends with.
\<close>

definition handle_frame ::
    "conn_env \<Rightarrow> string \<Rightarrow> ('w, 'z) connection_scheme \<Rightarrow> bool \<times> ('w, 'z) connection_scheme" where
  "handle_frame E body s =
     (case ParseFromArray (req_pb E) body of
        None \<Rightarrow>
          EnqueueResponse E
            (RpcResponse_init\<lparr>rsp_request_id := [], rsp_error_code := proto_PARSE_ERROR,
                              rsp_error_msg := ''failed to parse RpcRequest''\<rparr>) s
      | Some request \<Rightarrow>
          (if service_name request = kHeartbeatServiceName then
             EnqueueResponse E
               (RpcResponse_init\<lparr>rsp_request_id := request_id request, rsp_error_code := proto_OK\<rparr>) s
           else case request_dispatcher s of
                  Some d \<Rightarrow> dispatch_request d request s
                | None \<Rightarrow>
                    (case HandleOneRequest (registry s) request (Some RpcResponse_init) of
                       None \<Rightarrow> (False, set_error ''failed to handle request'' s)
                     | Some response \<Rightarrow> EnqueueResponse E response s)))"

text \<open>
  None of this touches the socket, the read buffer, the waiters or the life-cycle flags: the two
  states agree on everything but the write queue, the write deadline, the sequence number, the error
  text and the state behind the dispatcher.
\<close>

definition write_side_only :: "('w, 'z) connection_scheme \<Rightarrow> ('w, 'z) connection_scheme \<Rightarrow> bool" where
  "write_side_only s s' \<longleftrightarrow>
     s' = s\<lparr>write_buffer := write_buffer s', pending_write_bytes := pending_write_bytes s',
            write_deadline := write_deadline s', next_request_sequence := next_request_sequence s',
            error_msg := error_msg s', world := world s'\<rparr>"

lemma write_side_onlyD:
  assumes "write_side_only s s'"
  shows "read_buffer s' = read_buffer s" "rx_sock s' = rx_sock s" "tx_sock s' = tx_sock s"
    "sent s' = sent s" "registry s' = registry s" "options s' = options s"
    "request_dispatcher s' = request_dispatcher s" "should_close s' = should_close s"
    "conn_state s' = conn_state s" "read_ready s' = read_ready s" "write_ready s' = write_ready s"
    "read_waiter s' = read_waiter s" "write_waiter s' = write_waiter s"
    "read_deadline s' = read_deadline s" "last_error s' = last_error s"
    "owner_worker_id s' = owner_worker_id s" "owner_thread_id s' = owner_thread_id s"
    "connection.more s' = connection.more s"
  by (subst assms [unfolded write_side_only_def], simp)+

lemma EnqueueResponse_write_side: "EnqueueResponse E r s = (ok, s') \<Longrightarrow> write_side_only s s'"
  by (auto simp: write_side_only_def EnqueueResponse_def QueueResponse_def Let_def set_error_def
      ArmWriteDeadline_def split: if_splits option.splits sum.splits prod.splits)

lemma dispatch_request_write_side: "dispatch_request d r s = (ok, s') \<Longrightarrow> write_side_only s s'"
  by (auto simp: write_side_only_def dispatch_request_def Let_def split: prod.splits)

lemma set_error_write_side: "write_side_only s (set_error m s)"
  by (simp add: write_side_only_def set_error_def)

lemma handle_frame_write_side: "handle_frame E b s = (ok, s') \<Longrightarrow> write_side_only s s'"
  unfolding handle_frame_def
  by (auto simp only: split: if_splits option.splits
      intro: EnqueueResponse_write_side dispatch_request_write_side set_error_write_side)

function TryParseRequests ::
    "conn_env \<Rightarrow> ('w, 'z) connection_scheme \<Rightarrow> bool \<times> ('w, 'z) connection_scheme" where
  "TryParseRequests E s =
     (if readable_bytes (read_buffer s) \<ge> kFrameHeaderBytes then
        (case DecodeFrameHeader True (peek (read_buffer s)) of
           Inl m \<Rightarrow> (False, set_error m s)
         | Inr body_length \<Rightarrow>
             (if readable_bytes (read_buffer s) < kFrameHeaderBytes + body_length then (True, s)
              else case handle_frame E (take body_length (drop kFrameHeaderBytes (peek (read_buffer s)))) s of
                     (False, s') \<Rightarrow> (False, s')
                   | (True, s') \<Rightarrow>
                       TryParseRequests E
                         (s'\<lparr>read_buffer := retrieve (kFrameHeaderBytes + body_length) (read_buffer s')\<rparr>)))
      else (True, s))"
  by pat_completeness auto
termination
proof (relation "measure (\<lambda>(E, s). readable_bytes (read_buffer s))", goal_cases)
  case (2 E s n p s')
  then have "read_buffer s' = read_buffer s"
    using handle_frame_write_side write_side_onlyD(1) by metis
  with 2 show ?case by (auto intro!: readable_retrieve simp: kFrameHeaderBytes_def)
qed simp

declare TryParseRequests.simps [simp del]

section \<open>Sending\<close>

text \<open>One \<open>send\<close> of the front chunk: \<open>k\<close> bytes have gone out.\<close>

definition advance_front :: "nat \<Rightarrow> ('w, 'z) connection_scheme \<Rightarrow> ('w, 'z) connection_scheme" where
  "advance_front k s =
     (case write_buffer s of
        [] \<Rightarrow> s
      | c # cs \<Rightarrow>
          (let c' = c\<lparr>chunk_offset := chunk_offset c + k\<rparr> in
           s\<lparr>sent := sent s @ take k (drop (chunk_offset c) (chunk_data c)),
             pending_write_bytes := pending_write_bytes s - k,
             write_buffer := (if chunk_offset c' = length (chunk_data c') then cs else c' # cs)\<rparr>))"

function FlushWrites ::
    "conn_env \<Rightarrow> ('w, 'z) connection_scheme \<Rightarrow> bool \<times> ('w, 'z) connection_scheme" where
  "FlushWrites E s =
     (case write_buffer s of
        [] \<Rightarrow> (True, s)
      | chunk # _ \<Rightarrow>
          (case send_nb (length (chunk_data chunk) - chunk_offset chunk) (tx_sock s) of
             (Sent k, ss) \<Rightarrow>
               (if k > 0 then FlushWrites E (advance_front k (s\<lparr>tx_sock := ss\<rparr>))
                else (False, set_error (''send failed: '' @ strerror (stale_errno E)) (s\<lparr>tx_sock := ss\<rparr>)))
           | (SendFail e, ss) \<Rightarrow>
               (if e = EINTR then FlushWrites E (s\<lparr>tx_sock := ss\<rparr>)
                else if e = EAGAIN \<or> e = EWOULDBLOCK then (True, s\<lparr>tx_sock := ss\<rparr>)
                else (False, set_error (''send failed: '' @ strerror e) (s\<lparr>tx_sock := ss\<rparr>)))))"
  by pat_completeness auto

lemma send_nb_length:
  "send_nb n ss = (Sent k, ss') \<Longrightarrow> length ss' < length ss"
  "send_nb n ss = (SendFail EINTR, ss') \<Longrightarrow> length ss' < length ss"
  by (auto simp: send_nb_def split: prod.splits option.splits dest: send_length)

lemma tx_sock_advance_front [simp]: "tx_sock (advance_front k s) = tx_sock s"
  by (simp add: advance_front_def Let_def split: list.split)

termination FlushWrites
  by (relation "measure (\<lambda>(E, s). length (tx_sock s))") (auto dest: send_nb_length [OF sym])

declare FlushWrites.simps [simp del]

section \<open>Events\<close>

definition OnReadable ::
    "('w, 'z) resume_fn \<Rightarrow> conn_env \<Rightarrow> ('w, 'z) connection_scheme \<Rightarrow> bool \<times> ('w, 'z) connection_scheme" where
  "OnReadable resume E s =
     (case ReadFromSocket s of
        (kPeerClosed, s1) \<Rightarrow> (True, s1\<lparr>conn_state := kClosing, should_close := True\<rparr>)
      | (kReadError, s1) \<Rightarrow> (False, EnterError resume (error_or ''read error'' s1) s1)
      | (kWouldBlock, s1) \<Rightarrow> (True, s1)
      | (kData, s1) \<Rightarrow>
          (case TryParseRequests E s1 of
             (False, s2) \<Rightarrow> (False, EnterError resume (error_or ''parse/process error'' s2) s2)
           | (True, s2) \<Rightarrow> (True, s2\<lparr>conn_state := kOpen\<rparr>)))"

definition OnWritable ::
    "('w, 'z) resume_fn \<Rightarrow> conn_env \<Rightarrow> ('w, 'z) connection_scheme \<Rightarrow> bool \<times> ('w, 'z) connection_scheme" where
  "OnWritable resume E s =
     (case FlushWrites E s of
        (False, s1) \<Rightarrow> (False, EnterError resume (error_or ''write error'' s1) s1)
      | (True, s1) \<Rightarrow>
          (True, if \<not> HasPendingWrite s1 then (ClearWriteDeadline s1)\<lparr>conn_state := kOpen\<rparr>
                 else ArmWriteDeadline E s1))"

end
