(* ===== verification/Connection_Requests.thy ===== *)
theory Connection_Requests
  imports Connection
begin

text \<open>
  What the read side of a connection does with the bytes a client sends. The loop of
  \<open>TryParseRequests\<close> is proved to follow the reference \<open>frames\<close> of the frame layer, so the requests it
  handles depend only on the byte stream, and every complete request is answered or handed to the
  dispatcher exactly once and in order.
\<close>

section \<open>Reading\<close>

lemma ReadFromSocket_step:
  "recv_nb 4096 (rx_sock s) = (Got bs, es) \<Longrightarrow>
     ReadFromSocket s = ReadFromSocket (s\<lparr>rx_sock := es, read_buffer := append_data bs (read_buffer s)\<rparr>)"
  "recv_nb 4096 (rx_sock s) = (RecvFail EINTR, es) \<Longrightarrow> ReadFromSocket s = ReadFromSocket (s\<lparr>rx_sock := es\<rparr>)"
  "recv_nb 4096 (rx_sock s) = (Eof, es) \<Longrightarrow>
     ReadFromSocket s = (kPeerClosed, set_error ''peer closed connection'' (s\<lparr>rx_sock := es\<rparr>))"
  "recv_nb 4096 (rx_sock s) = (RecvFail e, es) \<Longrightarrow> e = EAGAIN \<or> e = EWOULDBLOCK \<Longrightarrow>
     ReadFromSocket s = (if readable_bytes (read_buffer s) = 0 then kWouldBlock else kData, s\<lparr>rx_sock := es\<rparr>)"
  "recv_nb 4096 (rx_sock s) = (RecvFail e, es) \<Longrightarrow> e \<noteq> EINTR \<Longrightarrow> e \<noteq> EAGAIN \<Longrightarrow> e \<noteq> EWOULDBLOCK \<Longrightarrow>
     ReadFromSocket s = (kReadError, set_error (''recv failed: '' @ strerror e) (s\<lparr>rx_sock := es\<rparr>))"
  by (subst ReadFromSocket.simps, auto)+

lemma set_error_rx [simp]: "rx_sock (set_error m s) = rx_sock s" "read_buffer (set_error m s) = read_buffer s"
  by (simp_all add: set_error_def)

text \<open>
  Reading takes everything up to the point where the socket has nothing more, ends or fails, and
  changes only the socket, the read buffer and (at the end of the stream or on failure) the error text.
\<close>

definition read_side_only :: "('w, 'z) connection_scheme \<Rightarrow> ('w, 'z) connection_scheme \<Rightarrow> bool" where
  "read_side_only s s' \<longleftrightarrow>
     s' = s\<lparr>rx_sock := rx_sock s', read_buffer := read_buffer s', error_msg := error_msg s'\<rparr>"

lemma read_side_only_refl [simp]: "read_side_only s s"
  by (simp add: read_side_only_def)

lemma read_side_only_trans: "read_side_only s t \<Longrightarrow> read_side_only t u \<Longrightarrow> read_side_only s u"
  by (cases s; cases t; cases u) (simp add: read_side_only_def)

lemma read_side_only_intros [simp]:
  "read_side_only s (s\<lparr>rx_sock := es\<rparr>)"
  "read_side_only s (s\<lparr>rx_sock := es, read_buffer := b\<rparr>)"
  "read_side_only s (set_error m (s\<lparr>rx_sock := es\<rparr>))"
  by (simp_all add: read_side_only_def set_error_def)

lemma read_side_onlyD:
  assumes "read_side_only s s'"
  shows "tx_sock s' = tx_sock s"
    "sent s' = sent s" "registry s' = registry s" "options s' = options s"
    "request_dispatcher s' = request_dispatcher s" "should_close s' = should_close s"
    "conn_state s' = conn_state s" "read_ready s' = read_ready s" "write_ready s' = write_ready s"
    "read_waiter s' = read_waiter s" "write_waiter s' = write_waiter s"
    "read_deadline s' = read_deadline s" "last_error s' = last_error s"
    "owner_worker_id s' = owner_worker_id s" "owner_thread_id s' = owner_thread_id s"
    "write_buffer s' = write_buffer s" "pending_write_bytes s' = pending_write_bytes s"
    "write_deadline s' = write_deadline s" "next_request_sequence s' = next_request_sequence s"
    "world s' = world s" "connection.more s' = connection.more s"
  by (subst assms [unfolded read_side_only_def], simp)+

lemma ReadFromSocket_drains:
  assumes "buffer_ok (read_buffer s)" and "ReadFromSocket s = (r, s')"
  shows "buffer_ok (read_buffer s')
    \<and> peek_string_view (read_buffer s') = peek_string_view (read_buffer s) @ rx_stream (rx_sock s)
    \<and> read_side_only s s'
    \<and> rx_sock s' = rx_after (rx_sock s)
    \<and> (r = kPeerClosed \<longleftrightarrow> rx_verdict (rx_sock s) = Eof)
    \<and> (r = kWouldBlock \<or> r = kData \<longleftrightarrow> rx_verdict (rx_sock s) \<in> {RecvFail EAGAIN, RecvFail EWOULDBLOCK})
    \<and> (r = kWouldBlock \<longrightarrow> peek_string_view (read_buffer s') = [])
    \<and> (r = kWouldBlock \<or> r = kData \<longrightarrow> error_msg s' = error_msg s)"
  using assms
proof (induction "rx_sock s" arbitrary: s rule: measure_induct_rule [of rx_size])
  case less
  let ?es = "rx_sock s"
  show ?case
  proof (cases rule: recv_nb_cases [of 4096 ?es])
    case (got bs es')
    let ?t = "s\<lparr>rx_sock := es', read_buffer := append_data bs (read_buffer s)\<rparr>"
    have dec: "rx_size (rx_sock ?t) < rx_size ?es" using recv_Got_size [OF got(2)] by simp
    from append_data_ok [OF less.prems(1), of bs] have ok: "buffer_ok (read_buffer ?t)" by simp
    have run: "ReadFromSocket ?t = (r, s')" using less.prems(2) ReadFromSocket_step(1) [OF got(1)] by simp
    have eq: "rx_stream ?es = bs @ rx_stream es'" "rx_verdict ?es = rx_verdict es'" "rx_after ?es = rx_after es'"
        "peek_string_view (append_data bs (read_buffer s)) = peek_string_view (read_buffer s) @ bs"
      using rx_stream_recv_Got [OF got(2)] rx_drain_recv(1) [OF got(2)] append_data_ok [OF less.prems(1), of bs] by auto
    have "read_side_only ?t s' \<Longrightarrow> read_side_only s s'" by (rule read_side_only_trans [OF read_side_only_intros(2)])
    with less.hyps [OF dec ok run] show ?thesis by (auto simp: eq)
  next
    case (intr es')
    let ?t = "s\<lparr>rx_sock := es'\<rparr>"
    have dec: "rx_size (rx_sock ?t) < rx_size ?es" using recv_Fail_size [OF intr(2)] by simp
    have run: "ReadFromSocket ?t = (r, s')" using less.prems(2) ReadFromSocket_step(2) [OF intr(1)] by simp
    have eq: "rx_stream ?es = rx_stream es'" "rx_verdict ?es = rx_verdict es'" "rx_after ?es = rx_after es'"
      using rx_stream_recv_EINTR [OF intr(2)] rx_drain_recv(2) [OF intr(2)] by auto
    have "read_side_only ?t s' \<Longrightarrow> read_side_only s s'" by (rule read_side_only_trans [OF read_side_only_intros(1)])
    with less.hyps [OF dec _ run] less.prems(1) show ?thesis by (auto simp: eq)
  next
    case (eof es')
    then have "rx_stream ?es = []" using rx_stream_recv_stop by blast
    with less.prems ReadFromSocket_step(3) [OF eof(1)] rx_drain_stop(2) [OF eof(2)] show ?thesis by auto
  next
    case (again e es')
    with less.prems ReadFromSocket_step(4) [OF again(1,2)] show ?thesis
      by (auto simp: peek_string_view_def split: if_splits)
  next
    case (error e es')
    then have "rx_stream ?es = []" using rx_stream_recv_stop by blast
    with less.prems ReadFromSocket_step(5) [OF error(1,3,4,5)] rx_drain_stop(3) [OF error(2,3)] error(4,5) show ?thesis by auto
  qed
qed

section \<open>Parsing follows the frames of the stream\<close>

text \<open>Handling a list of frame bodies in order, stopping at the first failure.\<close>

fun handle_all ::
    "conn_env \<Rightarrow> string list \<Rightarrow> ('w, 'z) connection_scheme \<Rightarrow> bool \<times> ('w, 'z) connection_scheme" where
  "handle_all E [] s = (True, s)"
| "handle_all E (b # bs) s =
     (case handle_frame E b s of (False, s') \<Rightarrow> (False, s') | (True, s') \<Rightarrow> handle_all E bs s')"

lemma handle_all_append:
  "handle_all E (bs @ cs) s =
     (case handle_all E bs s of (False, s') \<Rightarrow> (False, s') | (True, s') \<Rightarrow> handle_all E cs s')"
  by (induction E bs s rule: handle_all.induct) (auto split: prod.splits bool.splits)

text \<open>How a frame is handled does not depend on the read buffer.\<close>

lemma EnqueueResponse_read_buffer:
  "EnqueueResponse E r (s\<lparr>read_buffer := rb\<rparr>) = apsnd (\<lambda>s. s\<lparr>read_buffer := rb\<rparr>) (EnqueueResponse E r s)"
  by (auto simp: EnqueueResponse_def QueueResponse_def Let_def set_error_def ArmWriteDeadline_def
      split: option.splits sum.splits)

lemma handle_frame_read_buffer:
  "handle_frame E b (s\<lparr>read_buffer := rb\<rparr>) = apsnd (\<lambda>s. s\<lparr>read_buffer := rb\<rparr>) (handle_frame E b s)"
  by (simp add: handle_frame_def EnqueueResponse_read_buffer dispatch_request_def Let_def set_error_def
      split: option.split prod.split)

lemma handle_all_read_buffer:
  "handle_all E bs (s\<lparr>read_buffer := rb\<rparr>) = apsnd (\<lambda>s. s\<lparr>read_buffer := rb\<rparr>) (handle_all E bs s)"
  by (induction E bs s rule: handle_all.induct)
    (auto simp: handle_frame_read_buffer split: prod.splits bool.splits)

lemma take_peek: "buffer_ok b \<Longrightarrow> n \<le> readable_bytes b \<Longrightarrow> take n (peek b) = take n (peek_string_view b)"
  by (simp add: peek_string_view_def min_absorb1)

lemma next_frame_buffer:
  assumes "buffer_ok b"
  shows "next_frame (peek_string_view b) =
     (if readable_bytes b < kFrameHeaderBytes then NeedMore
      else case DecodeFrameHeader True (peek b) of
             Inl _ \<Rightarrow> BadFrame
           | Inr n \<Rightarrow>
               (if readable_bytes b < kFrameHeaderBytes + n then NeedMore
                else Frame (take n (drop kFrameHeaderBytes (peek b)))
                           (peek_string_view (retrieve (kFrameHeaderBytes + n) b))))"
proof -
  have "kFrameHeaderBytes \<le> readable_bytes b \<Longrightarrow>
      DecodeFrameHeader True (peek_string_view b) = DecodeFrameHeader True (peek b)"
    using assms take_peek by (simp add: DecodeFrameHeader_def)
  moreover have "kFrameHeaderBytes + n \<le> readable_bytes b \<Longrightarrow>
      take n (drop kFrameHeaderBytes (peek_string_view b)) = take n (drop kFrameHeaderBytes (peek b))" for n
    by (simp add: peek_string_view_def drop_take min_absorb1)
  ultimately show ?thesis
    using assms retrieve_ok by (auto simp: next_frame_def split: sum.split)
qed

lemma TryParseRequests_step:
  assumes "buffer_ok (read_buffer s)"
  shows "next_frame (peek_string_view (read_buffer s)) = NeedMore \<Longrightarrow> TryParseRequests E s = (True, s)"
    and "next_frame (peek_string_view (read_buffer s)) = BadFrame \<Longrightarrow>
      TryParseRequests E s = (False, set_error ''invalid request frame length'' s)"
    and "next_frame (peek_string_view (read_buffer s)) = Frame b r \<Longrightarrow>
      \<exists>n. buffer_ok (retrieve n (read_buffer s)) \<and> peek_string_view (retrieve n (read_buffer s)) = r
        \<and> TryParseRequests E s =
          (case handle_frame E b s of
             (False, s') \<Rightarrow> (False, s')
           | (True, s') \<Rightarrow> TryParseRequests E (s'\<lparr>read_buffer := retrieve n (read_buffer s)\<rparr>))"
proof -
  have "DecodeFrameHeader True d = Inl m \<Longrightarrow> m = ''invalid request frame length''" for d m
    by (auto simp: DecodeFrameHeader_def Let_def split: if_splits)
  note inv = this
  show "next_frame (peek_string_view (read_buffer s)) = NeedMore \<Longrightarrow> TryParseRequests E s = (True, s)"
    unfolding next_frame_buffer [OF assms] by (subst TryParseRequests.simps) (auto split: if_splits sum.splits)
  show "TryParseRequests E s = (False, set_error ''invalid request frame length'' s)"
    if bad: "next_frame (peek_string_view (read_buffer s)) = BadFrame"
  proof -
    from bad obtain m where m: "DecodeFrameHeader True (peek (read_buffer s)) = Inl m"
        "kFrameHeaderBytes \<le> readable_bytes (read_buffer s)"
      unfolding next_frame_buffer [OF assms] by (fastforce split: if_splits sum.splits)
    then have "TryParseRequests E s = (False, set_error m s)" by (subst TryParseRequests.simps) simp
    with inv [OF m(1)] show ?thesis by (simp only:)
  qed
  assume "next_frame (peek_string_view (read_buffer s)) = Frame b r"
  then obtain n where n: "DecodeFrameHeader True (peek (read_buffer s)) = Inr n"
      "kFrameHeaderBytes + n \<le> readable_bytes (read_buffer s)"
      "b = take n (drop kFrameHeaderBytes (peek (read_buffer s)))"
      "r = peek_string_view (retrieve (kFrameHeaderBytes + n) (read_buffer s))"
    unfolding next_frame_buffer [OF assms] by (auto split: if_splits sum.splits)
  obtain fok s' where hf: "handle_frame E b s = (fok, s')" by fastforce
  have rb: "read_buffer s' = read_buffer s" using handle_frame_write_side [OF hf] by (rule write_side_onlyD)
  have hdr: "kFrameHeaderBytes \<le> readable_bytes (read_buffer s)" using n(2) by simp
  have "TryParseRequests E s =
          (case handle_frame E b s of
             (False, s') \<Rightarrow> (False, s')
           | (True, s') \<Rightarrow> TryParseRequests E (s'\<lparr>read_buffer := retrieve (kFrameHeaderBytes + n) (read_buffer s)\<rparr>))"
    using n(2) by (subst TryParseRequests.simps) (simp add: n(1) hdr not_less hf rb flip: n(3) split: bool.split)
  with n(4) retrieve_ok [OF assms n(2)]
  show "\<exists>n. buffer_ok (retrieve n (read_buffer s)) \<and> peek_string_view (retrieve n (read_buffer s)) = r
        \<and> TryParseRequests E s =
          (case handle_frame E b s of
             (False, s') \<Rightarrow> (False, s')
           | (True, s') \<Rightarrow> TryParseRequests E (s'\<lparr>read_buffer := retrieve n (read_buffer s)\<rparr>))"
    by blast
qed

text \<open>
  The loop as a whole: the complete frames of the buffered bytes are handled in order; the
  unfinished rest stays in the buffer; a malformed header is an error after the frames before it.
\<close>

lemma TryParseRequests_frames:
  assumes "buffer_ok (read_buffer s)"
    and "frames (peek_string_view (read_buffer s)) = (bodies, rest, ok)"
    and "handle_all E bodies s = (hok, h)"
  shows "\<exists>rb. buffer_ok rb \<and> (hok \<longrightarrow> peek_string_view rb = rest)
    \<and> TryParseRequests E s =
        (hok \<and> ok, (if hok \<and> \<not> ok then set_error ''invalid request frame length'' else id) (h\<lparr>read_buffer := rb\<rparr>))"
  using assms
proof (induction "readable_bytes (read_buffer s)" arbitrary: s bodies rest ok hok h rule: less_induct)
  case less
  let ?v = "peek_string_view (read_buffer s)"
  show ?case
  proof (cases "next_frame ?v")
    case NeedMore
    with less.prems have "bodies = []" "rest = ?v" "ok" "h = s" "hok" by (auto simp: frames_cases)
    with TryParseRequests_step(1) [OF less.prems(1) NeedMore] less.prems(1) show ?thesis
      by (intro exI [of _ "read_buffer s"]) simp
  next
    case BadFrame
    with less.prems have "bodies = []" "rest = ?v" "\<not> ok" "h = s" "hok" by (auto simp: frames_cases)
    with TryParseRequests_step(2) [OF less.prems(1) BadFrame] less.prems(1) show ?thesis
      by (intro exI [of _ "read_buffer s"]) simp
  next
    case (Frame b r)
    then obtain n where n: "buffer_ok (retrieve n (read_buffer s))" "peek_string_view (retrieve n (read_buffer s)) = r"
      and run: "TryParseRequests E s =
          (case handle_frame E b s of
             (False, s') \<Rightarrow> (False, s')
           | (True, s') \<Rightarrow> TryParseRequests E (s'\<lparr>read_buffer := retrieve n (read_buffer s)\<rparr>))"
      using TryParseRequests_step(3) [OF less.prems(1) Frame] by blast
    obtain bs where fr: "frames r = (bs, rest, ok)" and bodies: "bodies = b # bs"
      using less.prems(2) frames_cases(3) [OF Frame] by (cases "frames r") auto
    obtain fok s' where hf: "handle_frame E b s = (fok, s')" by fastforce
    show ?thesis
    proof (cases fok)
      case False
      with hf less.prems(3) bodies have "h = s'" "\<not> hok" by auto
      moreover have "read_buffer s' = read_buffer s"
        using handle_frame_write_side [OF hf] by (rule write_side_onlyD)
      ultimately show ?thesis using run hf False less.prems(1)
        by (intro exI [of _ "read_buffer s"]) simp
    next
      case True
      let ?t = "s'\<lparr>read_buffer := retrieve n (read_buffer s)\<rparr>"
      have "length r < length ?v" using next_frame_smaller [OF Frame] .
      then have dec: "readable_bytes (read_buffer ?t) < readable_bytes (read_buffer s)"
        using n less.prems(1) by (simp flip: length_peek_string_view)
      have "handle_all E bs ?t = (hok, h\<lparr>read_buffer := retrieve n (read_buffer s)\<rparr>)"
        using less.prems(3) bodies hf True by (simp add: handle_all_read_buffer)
      from less.hyps [OF dec _ _ this, of rest ok] n fr run hf True show ?thesis by simp
    qed
  qed
qed

section \<open>Readable events\<close>

text \<open>
  The part of a connection that the requests act on: everything but the socket, the read buffer,
  the write deadline and the state name.
\<close>

definition service_part :: "('w, 'z) connection_scheme \<Rightarrow> ('w, 'z) connection_scheme" where
  "service_part s =
     s\<lparr>rx_sock := [], read_buffer := Buffer_make 8192, write_deadline := None, conn_state := kOpen\<rparr>"

lemma service_part_idem [simp]: "service_part (service_part s) = service_part s"
  by (simp add: service_part_def)

lemma service_part_updates [simp]:
  "service_part (s\<lparr>read_buffer := rb\<rparr>) = service_part s"
  "service_part (s\<lparr>rx_sock := es\<rparr>) = service_part s"
  "service_part (s\<lparr>conn_state := c\<rparr>) = service_part s"
  by (simp_all add: service_part_def)

lemma read_side_only_service_part:
  "read_side_only s s' \<Longrightarrow> error_msg s' = error_msg s \<Longrightarrow> service_part s' = service_part s"
  by (cases s; cases s') (simp add: read_side_only_def service_part_def)

lemma EnqueueResponse_service_part:
  "apsnd service_part (EnqueueResponse (E\<lparr>now := t\<rparr>) r s)
   = apsnd service_part (EnqueueResponse E r (service_part s))"
  by (auto simp: EnqueueResponse_def QueueResponse_def Let_def set_error_def ArmWriteDeadline_def
      service_part_def split: option.splits sum.splits)

lemma handle_frame_service_part:
  "apsnd service_part (handle_frame (E\<lparr>now := t\<rparr>) b s)
   = apsnd service_part (handle_frame E b (service_part s))"
proof -
  have d: "apsnd service_part (dispatch_request d r s)
      = apsnd service_part (dispatch_request d r (service_part s))" for d r
    by (simp add: dispatch_request_def Let_def service_part_def split: prod.split)
  have "service_part (set_error m s) = service_part (set_error m (service_part s))" for m
    by (simp add: set_error_def service_part_def)
  moreover have "request_dispatcher (service_part s) = request_dispatcher s"
      "registry (service_part s) = registry s"
    by (simp_all add: service_part_def)
  ultimately show ?thesis
    by (simp add: handle_frame_def EnqueueResponse_service_part d split: option.split)
qed

lemma handle_all_service_part:
  "apsnd service_part (handle_all (E\<lparr>now := t\<rparr>) bs s)
   = apsnd service_part (handle_all E bs (service_part s))"
proof (induction bs arbitrary: s t)
  case (Cons b bs)
  obtain ok s1 where 1: "handle_frame (E\<lparr>now := t\<rparr>) b s = (ok, s1)" by fastforce
  obtain ok' s2 where 2: "handle_frame E b (service_part s) = (ok', s2)" by fastforce
  from handle_frame_service_part [where E = E and t = t and b = b and s = s] 1 2 have eq: "ok' = ok" "service_part s1 = service_part s2"
    by auto
  have "apsnd service_part (handle_all E bs (service_part s2))
      = apsnd service_part (handle_all E bs s2)"
    using Cons [where s = s2 and t = "now E"] by simp
  with eq Cons [where s = s1 and t = t] 1 2 show ?case by (cases ok) simp_all
qed (simp)

lemma handle_all_cong:
  assumes "service_part s = service_part s'"
  shows "apsnd service_part (handle_all (E\<lparr>now := t\<rparr>) bs s)
       = apsnd service_part (handle_all (E\<lparr>now := t'\<rparr>) bs s')"
  using assms handle_all_service_part [where E = E and t = t and s = s]
    handle_all_service_part [where E = E and t = t' and s = s'] by simp

text \<open>
  A readable event whose frames can all be handled: they are handled in order, and the event
  succeeds.
\<close>

lemma OnReadable_frames:
  assumes "buffer_ok (read_buffer s)" and "rx_verdict (rx_sock s) \<in> {RecvFail EAGAIN, RecvFail EWOULDBLOCK}"
    and "frames (peek_string_view (read_buffer s) @ rx_stream (rx_sock s)) = (bodies, rest, True)"
    and "handle_all (E\<lparr>now := t'\<rparr>) bodies s' = (True, h)" and "service_part s' = service_part s"
  shows "\<exists>u. OnReadable resume (E\<lparr>now := t\<rparr>) s = (True, u) \<and> service_part u = service_part h
    \<and> buffer_ok (read_buffer u) \<and> peek_string_view (read_buffer u) = rest \<and> rx_sock u = rx_after (rx_sock s)"
proof -
  obtain r s1 where rd: "ReadFromSocket s = (r, s1)" by fastforce
  note d = ReadFromSocket_drains [OF assms(1) rd]
  then have ro: "r = kWouldBlock \<or> r = kData" and e: "error_msg s1 = error_msg s" using assms(2) by blast+
  have sp: "service_part s1 = service_part s"
    using d e read_side_only_service_part by blast
  show ?thesis
  proof (cases "r = kWouldBlock")
    case True
    with d have v: "peek_string_view (read_buffer s1) = []"
        "peek_string_view (read_buffer s) @ rx_stream (rx_sock s) = []" by auto
    then have "bodies = []" "rest = []"
      using assms(3) frames_cases(1) [of "[]"] by (auto simp: next_frame_def kFrameHeaderBytes_def)
    then show ?thesis using assms(4,5) d rd True v sp by (simp add: OnReadable_def)
  next
    case False
    obtain hok h1 where h1: "handle_all (E\<lparr>now := t\<rparr>) bodies s1 = (hok, h1)" by fastforce
    from handle_all_cong [where s = s1 and s' = s' and E = E and t = t and t' = t' and bs = bodies] h1 assms(4,5) sp
    have "hok" "service_part h1 = service_part h" by auto
    moreover have "frames (peek_string_view (read_buffer s1)) = (bodies, rest, True)" using d assms(3) by simp
    moreover have "buffer_ok (read_buffer s1)" using d by blast
    ultimately obtain rb where "buffer_ok rb" "hok" "service_part h1 = service_part h"
        "hok \<longrightarrow> peek_string_view rb = rest" "TryParseRequests (E\<lparr>now := t\<rparr>) s1 = (hok, h1\<lparr>read_buffer := rb\<rparr>)"
      using TryParseRequests_frames [OF _ _ h1, of rest True] by auto
    moreover have "rx_sock h1 = rx_sock s1" using h1
    proof (induction bodies arbitrary: s1)
      case (Cons b bs)
      obtain k s2 where "handle_frame (E\<lparr>now := t\<rparr>) b s1 = (k, s2)" by fastforce
      with Cons write_side_onlyD(2) [OF handle_frame_write_side] show ?case by (cases k) auto
    qed simp
    ultimately show ?thesis using ro False rd d by (simp add: OnReadable_def)
  qed
qed

end
