(* ===== verification/Connection_Answers.thy ===== *)
theory Connection_Answers
  imports Connection_Requests
begin

text \<open>
  The contract of the request side of a connection: which response every request gets, that each
  complete request is answered or dispatched exactly once and in order, and that none of this
  depends on how the network cuts the byte stream.
\<close>

section \<open>The response that a request gets\<close>

definition answer :: "conn_env \<Rightarrow> ServiceRegistry \<Rightarrow> string \<Rightarrow> RpcResponse" where
  "answer E reg body =
     (case ParseFromArray (req_pb E) body of
        None \<Rightarrow> \<lparr>rsp_request_id = [], rsp_error_code = proto_PARSE_ERROR,
                 rsp_error_msg = ''failed to parse RpcRequest'', rsp_payload = []\<rparr>
      | Some q \<Rightarrow>
          (if service_name q = kHeartbeatServiceName
           then \<lparr>rsp_request_id = request_id q, rsp_error_code = proto_OK, rsp_error_msg = [], rsp_payload = []\<rparr>
           else case Find (service_name q) (method_name q) reg of
                  None \<Rightarrow> \<lparr>rsp_request_id = request_id q, rsp_error_code = proto_METHOD_NOT_FOUND,
                           rsp_error_msg = ''method not found: '' @ service_name q @ ''.'' @ method_name q,
                           rsp_payload = []\<rparr>
                | Some f \<Rightarrow>
                    (case f (payload q) of
                       Returns p \<Rightarrow> \<lparr>rsp_request_id = request_id q, rsp_error_code = proto_OK,
                                      rsp_error_msg = [], rsp_payload = p\<rparr>
                     | ThrowsRpcError ex \<Rightarrow> \<lparr>rsp_request_id = request_id q, rsp_error_code = ToProtoErrorCode (ex_code ex),
                                              rsp_error_msg = ex_what ex, rsp_payload = []\<rparr>
                     | ThrowsStdException w \<Rightarrow> \<lparr>rsp_request_id = request_id q, rsp_error_code = proto_INTERNAL_ERROR,
                                                 rsp_error_msg = ''handler exception: '' @ w, rsp_payload = []\<rparr>
                     | ThrowsUnknown \<Rightarrow> \<lparr>rsp_request_id = request_id q, rsp_error_code = proto_INTERNAL_ERROR,
                                          rsp_error_msg = ''handler threw unknown exception'', rsp_payload = []\<rparr>)))"

text \<open>The chunk that carries a response, and the requests that go to the dispatcher.\<close>

definition reply_chunk :: "conn_env \<Rightarrow> RpcResponse \<Rightarrow> PendingChunk" where
  "reply_chunk E r = \<lparr>chunk_data = encode (the (SerializeToArray (rsp_pb E) r)), chunk_offset = 0\<rparr>"

definition goes_to_dispatcher :: "conn_env \<Rightarrow> string \<Rightarrow> bool" where
  "goes_to_dispatcher E body \<longleftrightarrow>
     (case ParseFromArray (req_pb E) body of None \<Rightarrow> False | Some q \<Rightarrow> service_name q \<noteq> kHeartbeatServiceName)"

fun dispatched :: "conn_env \<Rightarrow> u64 \<Rightarrow> string list \<Rightarrow> DispatchRequest list" where
  "dispatched E n [] = []"
| "dispatched E n (b # bs) =
     (if goes_to_dispatcher E b then
        (let q = the (ParseFromArray (req_pb E) b) in
         \<lparr>dr_sequence = n + 1, dr_request_id = request_id q, dr_service_name = service_name q,
          dr_method_name = method_name q, dr_payload = payload q\<rparr> # dispatched E (n + 1) bs)
      else dispatched E n bs)"

definition run_dispatcher ::
    "'w RequestDispatchFn \<Rightarrow> DispatchRequest list \<Rightarrow> string option \<times> 'w \<Rightarrow> string option \<times> 'w" where
  "run_dispatcher d qs st = fold (\<lambda>q (e, w). snd (d q e w)) qs st"

section \<open>Facts\<close>

lemma ToProto_kInternalError [simp]: "ToProtoErrorCode (make_error_code kInternalError) = proto_INTERNAL_ERROR"
  by (simp add: ToProtoErrorCode_def make_error_code_def is_error_def code_of_value_def)

lemma EnqueueResponse_True:
  assumes "EnqueueResponse E r s = (True, s')"
  shows "write_buffer s' = write_buffer s @ [reply_chunk E r]
    \<and> pending_write_bytes s' = pending_write_bytes s + length (chunk_data (reply_chunk E r))
    \<and> pending_write_bytes s' \<le> max_write_buffer_bytes (options s)
    \<and> next_request_sequence s' = next_request_sequence s \<and> error_msg s' = error_msg s \<and> world s' = world s"
proof -
  obtain body f where "SerializeToArray (rsp_pb E) r = Some body" "EncodeFrame True body = Inr f"
      "pending_write_bytes s + length f \<le> max_write_buffer_bytes (options s)"
      "s' = ArmWriteDeadline E (s\<lparr>pending_write_bytes := pending_write_bytes s + length f,
                write_buffer := write_buffer s @ [\<lparr>chunk_data = f, chunk_offset = 0\<rparr>]\<rparr>)"
    using assms by (auto simp: EnqueueResponse_def QueueResponse_def Let_def split: if_splits option.splits sum.splits prod.splits)
  then show ?thesis using EncodeFrame_Inr by (fastforce simp: reply_chunk_def ArmWriteDeadline_def)
qed

lemma handle_frame_reply:
  assumes "request_dispatcher s = None \<or> \<not> goes_to_dispatcher E b"
  shows "handle_frame E b s = EnqueueResponse E (answer E (registry s) b) s"
  using assms
  by (auto simp: handle_frame_def answer_def goes_to_dispatcher_def HandleOneRequest_def RpcResponse_init_def
      Let_def split: option.splits handler_outcome.splits)

lemma handle_frame_dispatch:
  assumes "request_dispatcher s = Some d" and "goes_to_dispatcher E b"
  shows "handle_frame E b s = dispatch_request d (the (ParseFromArray (req_pb E) b)) s"
  using assms by (auto simp: handle_frame_def goes_to_dispatcher_def split: option.splits)

lemma handle_all_answers:
  assumes "request_dispatcher s = None" and "handle_all E bs s = (True, h)"
  shows "write_buffer h = write_buffer s @ map (reply_chunk E \<circ> answer E (registry s)) bs"
  using assms
proof (induction bs arbitrary: s)
  case (Cons b bs)
  obtain s1 where 1: "handle_frame E b s = (True, s1)" "handle_all E bs s1 = (True, h)"
    using Cons.prems(2) by (auto split: prod.splits bool.splits)
  note eq = write_side_onlyD [OF handle_frame_write_side [OF 1(1)]]
  have "write_buffer s1 = write_buffer s @ [reply_chunk E (answer E (registry s) b)]"
    using EnqueueResponse_True 1(1) handle_frame_reply Cons.prems(1) by metis
  with Cons.IH [OF _ 1(2)] Cons.prems(1) eq show ?case by simp
qed simp

lemma handle_all_dispatches:
  assumes "request_dispatcher s = Some d" and "handle_all E bs s = (True, h)"
  shows "write_buffer h = write_buffer s @ map (reply_chunk E \<circ> answer E (registry s)) (filter (Not \<circ> goes_to_dispatcher E) bs)
    \<and> next_request_sequence h = next_request_sequence s + word_of_nat (length (filter (goes_to_dispatcher E) bs))
    \<and> (error_msg h, world h) = run_dispatcher d (dispatched E (next_request_sequence s) bs) (error_msg s, world s)"
  using assms
proof (induction bs arbitrary: s)
  case (Cons b bs)
  obtain s1 where 1: "handle_frame E b s = (True, s1)" "handle_all E bs s1 = (True, h)"
    using Cons.prems(2) by (auto split: prod.splits bool.splits)
  note eq = write_side_onlyD [OF handle_frame_write_side [OF 1(1)]]
  note IH = Cons.IH [OF _ 1(2)]
  show ?case
  proof (cases "goes_to_dispatcher E b")
    case True
    with 1(1) Cons.prems(1) have "dispatch_request d (the (ParseFromArray (req_pb E) b)) s = (True, s1)"
      by (simp add: handle_frame_dispatch)
    then have "write_buffer s1 = write_buffer s \<and> next_request_sequence s1 = next_request_sequence s + 1
        \<and> (error_msg s1, world s1) = run_dispatcher d (dispatched E (next_request_sequence s) [b]) (error_msg s, world s)"
      using True by (auto simp: dispatch_request_def run_dispatcher_def Let_def split: prod.splits)
    with IH Cons.prems(1) eq True show ?thesis by (simp add: run_dispatcher_def Let_def add.assoc)
  next
    case False
    with 1(1) have "EnqueueResponse E (answer E (registry s) b) s = (True, s1)" by (simp add: handle_frame_reply)
    from EnqueueResponse_True [OF this] IH Cons.prems(1) eq False show ?thesis by simp
  qed
qed (simp add: run_dispatcher_def)

text \<open>When handling stops, the frames before the failing one have been handled.\<close>

lemma handle_all_stops:
  assumes "handle_all E bs s = (False, h)"
  shows "\<exists>k h0. k < length bs \<and> handle_all E (take k bs) s = (True, h0) \<and> handle_frame E (bs ! k) h0 = (False, h)"
  using assms
proof (induction bs arbitrary: s)
  case (Cons b bs)
  obtain ok s1 where 1: "handle_frame E b s = (ok, s1)" by fastforce
  show ?case
  proof (cases ok)
    case True
    with Cons 1 obtain k h0 where "k < length bs" "handle_all E (take k bs) s1 = (True, h0)"
        "handle_frame E (bs ! k) h0 = (False, h)" by fastforce
    with 1 True show ?thesis by (intro exI [of _ "Suc k"] exI [of _ h0]) simp
  next
    case False
    with Cons.prems 1 show ?thesis by (intro exI [of _ 0] exI [of _ s]) simp
  qed
qed simp

lemma EnqueueResponse_False: "EnqueueResponse E r s = (False, s') \<Longrightarrow> write_buffer s' = write_buffer s"
  by (auto simp: EnqueueResponse_def QueueResponse_def Let_def set_error_def
      split: if_splits option.splits sum.splits prod.splits)

lemma handle_all_write_side: "handle_all E bs s = (ok, h) \<Longrightarrow> request_dispatcher h = request_dispatcher s \<and> registry h = registry s
    \<and> read_waiter h = read_waiter s \<and> write_waiter h = write_waiter s"
proof (induction bs arbitrary: s)
  case (Cons b bs)
  obtain k s1 where "handle_frame E b s = (k, s1)" by fastforce
  with Cons write_side_onlyD [OF handle_frame_write_side] show ?case by (cases k) auto
qed simp

lemma handle_all_prefix_answers:
  assumes "request_dispatcher s = None" and "handle_all E bs s = (ok, h)"
  shows "\<exists>k \<le> length bs. write_buffer h = write_buffer s @ map (reply_chunk E \<circ> answer E (registry s)) (take k bs)
    \<and> (ok \<longleftrightarrow> k = length bs)"
proof (cases ok)
  case True
  with assms handle_all_answers show ?thesis by (intro exI [of _ "length bs"]) auto
next
  case False
  with assms(2) have "handle_all E bs s = (False, h)" by simp
  with handle_all_stops obtain k h0 where k: "k < length bs" "handle_all E (take k bs) s = (True, h0)"
      "handle_frame E (bs ! k) h0 = (False, h)" by blast
  have "request_dispatcher h0 = None" using handle_all_write_side [OF k(2)] assms(1) by simp
  with k(3) have "write_buffer h = write_buffer h0" using EnqueueResponse_False handle_frame_reply by metis
  with handle_all_answers [OF assms(1) k(2)] k(1) False show ?thesis by (intro exI [of _ k]) auto
qed

text \<open>A readable event in full, for a connection whose coroutine is not suspended.\<close>

lemma EnterError_running:
  "read_waiter s = None \<Longrightarrow> write_waiter s = None \<Longrightarrow>
   EnterError resume m s =
     s\<lparr>last_error := (if m \<noteq> [] then m else last_error s), should_close := True, conn_state := kError,
       read_deadline := None, write_deadline := None\<rparr>"
  by (simp add: EnterError_def Let_def ClearWriteDeadline_def ClearReadDeadline_def ResumeReadWaiter_def
      ResumeWriteWaiter_def)

lemma OnReadable_outcome:
  assumes "buffer_ok (read_buffer s)" and "rx_verdict (rx_sock s) \<in> {RecvFail EAGAIN, RecvFail EWOULDBLOCK}"
    and "read_waiter s = None" and "write_waiter s = None"
    and "frames (peek_string_view (read_buffer s) @ rx_stream (rx_sock s)) = (bodies, rest, fok)"
    and "OnReadable resume E s = (ok, u)"
  shows "\<exists>hok h. handle_all E bodies s = (hok, h) \<and> (ok \<longleftrightarrow> hok \<and> fok)
    \<and> write_buffer u = write_buffer h \<and> next_request_sequence u = next_request_sequence h \<and> world u = world h
    \<and> (ok \<longrightarrow> peek_string_view (read_buffer u) = rest \<and> error_msg u = error_msg h)
    \<and> (\<not> ok \<longrightarrow> should_close u \<and> conn_state u = kError)"
proof -
  obtain r s1 where rd: "ReadFromSocket s = (r, s1)" by fastforce
  note d = ReadFromSocket_drains [OF assms(1) rd]
  then have ro: "r = kWouldBlock \<or> r = kData" and e: "error_msg s1 = error_msg s" using assms(2) by blast+
  have sp: "service_part s1 = service_part s" using d e read_side_only_service_part by blast
  have w: "read_waiter s1 = None" "write_waiter s1 = None"
    using d assms(3,4) read_side_onlyD(10,11) [of s s1] by simp_all
  obtain hok h where h: "handle_all E bodies s = (hok, h)" by fastforce
  obtain hok1 h1 where h1: "handle_all E bodies s1 = (hok1, h1)" by fastforce
  from handle_all_cong [OF sp, where E = E and t = "now E" and t' = "now E" and bs = bodies] h h1
  have hh: "hok1 = hok" "service_part h1 = service_part h" by auto
  from arg_cong [OF hh(2), of write_buffer] arg_cong [OF hh(2), of next_request_sequence]
    arg_cong [OF hh(2), of world] arg_cong [OF hh(2), of error_msg]
  have hf: "write_buffer h1 = write_buffer h" "next_request_sequence h1 = next_request_sequence h"
      "world h1 = world h" "error_msg h1 = error_msg h"
    by (simp_all add: service_part_def)
  show ?thesis
  proof (cases "r = kWouldBlock")
    case True
    with d have v: "peek_string_view (read_buffer s1) = []"
        "peek_string_view (read_buffer s) @ rx_stream (rx_sock s) = []" by auto
    then have b: "bodies = []" "rest = []" "fok"
      using assms(5) frames_cases(1) [of "[]"] by (auto simp: next_frame_def kFrameHeaderBytes_def)
    with h1 have "h1 = s1" "hok1" by auto
    with True rd assms(6) b v h hf hh show ?thesis by (auto simp: OnReadable_def)
  next
    case False
    have fr: "frames (peek_string_view (read_buffer s1)) = (bodies, rest, fok)" using d assms(5) by simp
    from d have bok: "buffer_ok (read_buffer s1)" by blast
    obtain rb where rb: "hok1 \<longrightarrow> peek_string_view rb = rest"
      "TryParseRequests E s1 = (hok1 \<and> fok,
          (if hok1 \<and> \<not> fok then set_error ''invalid request frame length'' else id) (h1\<lparr>read_buffer := rb\<rparr>))"
      using TryParseRequests_frames [OF bok fr h1] by blast
    define v where "v = (if hok1 \<and> \<not> fok then set_error ''invalid request frame length'' else id) (h1\<lparr>read_buffer := rb\<rparr>)"
    have wt: "read_waiter v = None" "write_waiter v = None"
      using handle_all_write_side [OF h1] w by (simp_all add: v_def set_error_def)
    show ?thesis
    proof (cases "hok1 \<and> fok")
      case True
      with False ro rd rb(2) assms(6) have "ok" "u = h1\<lparr>read_buffer := rb, conn_state := kOpen\<rparr>"
        by (auto simp: OnReadable_def)
      with True rb(1) h hf hh show ?thesis by auto
    next
      case nok: False
      with False ro rd rb assms(6)
      have u: "\<not> ok" "u = EnterError resume (error_or ''parse/process error'' v) v"
        by (auto simp: OnReadable_def v_def)
      have "write_buffer v = write_buffer h" "next_request_sequence v = next_request_sequence h" "world v = world h"
        using hf by (simp_all add: set_error_def v_def)
      with u nok h hh show ?thesis by (simp add: EnterError_running [OF wt])
    qed
  qed
qed

section \<open>A small concrete server\<close>

text \<open>
  Concrete message classes and a registry with one method, at which the properties are evaluated: a
  request body is a service letter, an id letter and a payload, and a body that starts with \<open>?\<close> is
  malformed.
\<close>

definition sample_req :: "RpcRequest message_ops" where
  "sample_req =
     \<lparr>ByteSizeLong = (\<lambda>q. length (service_name q @ request_id q @ payload q)),
      SerializeToArray = (\<lambda>q. Some (service_name q @ request_id q @ payload q)),
      ParseFromArray = (\<lambda>b. case b of
         s # i # p \<Rightarrow> if s = CHR ''?'' then None
                     else Some \<lparr>request_id = [i],
                                service_name = (if s = CHR ''H'' then ''__Heartbeat__'' else [s]),
                                method_name = ''M'', payload = p\<rparr>
       | _ \<Rightarrow> None)\<rparr>"

definition sample_rsp :: "RpcResponse message_ops" where
  "sample_rsp =
     \<lparr>ByteSizeLong = (\<lambda>r. Suc (length (rsp_request_id r @ rsp_error_msg r @ rsp_payload r))),
      SerializeToArray = (\<lambda>r. Some (CHR ''#'' # rsp_request_id r @ rsp_error_msg r @ rsp_payload r)),
      ParseFromArray = (\<lambda>b. None)\<rparr>"

definition sample_env :: conn_env where
  "sample_env = \<lparr>req_pb = sample_req, rsp_pb = sample_rsp, now = 0, stale_errno = EINTR\<rparr>"

definition sample_registry :: ServiceRegistry where
  "sample_registry = snd (Register ''E'' ''M'' (Some Returns) ServiceRegistry_init)"

definition sample_connection :: "'w RequestDispatchFn option \<Rightarrow> 'w \<Rightarrow> rx_script \<Rightarrow> 'w connection" where
  "sample_connection d w rx = (Connection_make sample_registry Options_default rx [] w)\<lparr>request_dispatcher := d\<rparr>"

lemmas sample_defs = sample_connection_def Connection_make_def sample_env_def sample_req_def sample_rsp_def
  sample_registry_def Register_def Find_def BuildKey_def ServiceRegistry_init_def Options_default_def

lemma sample_fresh [simp]:
  "request_dispatcher (sample_connection d w rx) = d" "read_waiter (sample_connection d w rx) = None"
  "write_waiter (sample_connection d w rx) = None" "rx_sock (sample_connection d w rx) = rx"
  "write_buffer (sample_connection d w rx) = []" "read_buffer (sample_connection d w rx) = Buffer_make 8192"
  "registry (sample_connection d w rx) = sample_registry" "world (sample_connection d w rx) = w"
  "error_msg (sample_connection d w rx) = Some []" "next_request_sequence (sample_connection d w rx) = 0"
  by (simp_all add: sample_connection_def Connection_make_def)

lemma peek_fresh [simp]: "peek_string_view (Buffer_make 8192) = []"
  by (rule server_buffer.contents_empty)

text \<open>The bytes of some frames, then one more byte of an unfinished frame, then nothing for now.\<close>

definition sample_rx :: "string list \<Rightarrow> rx_script" where
  "sample_rx bodies = [Arrive (concat (map encode bodies)), Arrive [char_of (0::nat)], RecvError EAGAIN]"

lemma sample_frames:
  assumes "\<forall>b \<in> set bodies. frame_body_ok b"
  shows "frames (peek_string_view (read_buffer (sample_connection d w (sample_rx bodies)))
      @ rx_stream (rx_sock (sample_connection d w (sample_rx bodies)))) = (bodies, [char_of (0::nat)], True)"
  using frames_encode_all [OF assms, of "[char_of (0::nat)]"] frames_cases(1) [of "[char_of (0::nat)]"]
  by (simp add: sample_rx_def next_frame_def kFrameHeaderBytes_def)

lemma sample_readable:
  assumes "\<forall>b \<in> set bodies. frame_body_ok b"
    and "handle_all sample_env bodies (sample_connection d w (sample_rx bodies)) = (True, h)"
  shows "\<exists>u. OnReadable resume sample_env (sample_connection d w (sample_rx bodies)) = (True, u)"
proof -
  have "sample_env\<lparr>now := now sample_env\<rparr> = sample_env" by simp
  with OnReadable_frames [OF _ _ sample_frames [OF assms(1)], where E = sample_env and t = "now sample_env"
      and t' = "now sample_env" and resume = resume, OF _ _ _ refl] assms(2)
  show ?thesis by (fastforce simp: sample_rx_def)
qed

lemmas sample_eval = handle_frame_def EnqueueResponse_def QueueResponse_def EncodeFrame_def kMaxFrameSize_def
  HandleOneRequest_def RpcResponse_init_def kHeartbeatServiceName_def ArmWriteDeadline_def Let_def sample_defs

lemma sample_handle:
  "\<exists>h. handle_all sample_env [''E1hi'', ''?x'', ''H2''] (sample_connection None () rx) = (True, h)"
  by (simp add: sample_eval)

definition record_dispatcher :: "DispatchRequest list RequestDispatchFn" where
  "record_dispatcher q e w = (True, e, w @ [q])"

lemma sample_dispatch:
  "\<exists>h. handle_all sample_env [''E1hi'', ''?x'', ''Q2''] (sample_connection (Some record_dispatcher) [] rx) = (True, h)"
  by (simp add: sample_eval dispatch_request_def record_dispatcher_def)

section \<open>Properties\<close>





text \<open>Successive readable events, at times \<open>ts\<close>, and the pieces in which the bytes arrive for them.\<close>

fun run_reads ::
    "('w, 'z) resume_fn \<Rightarrow> conn_env \<Rightarrow> time_point list \<Rightarrow> ('w, 'z) connection_scheme \<Rightarrow> bool \<times> ('w, 'z) connection_scheme" where
  "run_reads resume E [] s = (True, s)"
| "run_reads resume E (t # ts) s =
     (case OnReadable resume (E\<lparr>now := t\<rparr>) s of
        (False, s') \<Rightarrow> (False, s')
      | (True, s') \<Rightarrow> run_reads resume E ts s')"

definition arrivals :: "string list \<Rightarrow> rx_script" where
  "arrivals pieces = concat (map (\<lambda>p. [Arrive p, RecvError EAGAIN]) pieces)"

lemma frames_rest: "frames s = (bs, rest, True) \<Longrightarrow> next_frame rest = NeedMore"
proof (induction s arbitrary: bs rule: frames.induct)
  case (1 s)
  then show ?case by (cases "next_frame s"; cases "frames s") (auto simp: frames_cases prod_eq_iff)
qed

lemma run_reads_frames:
  assumes "buffer_ok (read_buffer s)" and "rx_sock s = arrivals pieces" and "length ts = length pieces"
    and "next_frame (peek_string_view (read_buffer s)) = NeedMore"
    and "frames (peek_string_view (read_buffer s) @ concat pieces) = (bodies, rest, True)"
    and "handle_all E bodies s0 = (True, h)" and "service_part s0 = service_part s"
  shows "\<exists>u. run_reads resume E ts s = (True, u) \<and> service_part u = service_part h \<and> peek_string_view (read_buffer u) = rest"
  using assms
proof (induction pieces arbitrary: s s0 ts bodies)
  case Nil
  then show ?case by (auto simp: frames_cases)
next
  case (Cons p pieces)
  let ?v = "peek_string_view (read_buffer s)"
  obtain t ts' where ts: "ts = t # ts'" "length ts' = length pieces" using Cons.prems(3) by (cases ts) auto
  have rx: "rx_sock s = Arrive p # RecvError EAGAIN # arrivals pieces" using Cons.prems(2) by (simp add: arrivals_def)
  obtain bs rest1 ok where f1: "frames (?v @ p) = (bs, rest1, ok)" by (metis prod_cases3)
  obtain cs rest2 ok2 where f2: "frames (rest1 @ concat pieces) = (cs, rest2, ok2)" by (metis prod_cases3)
  from frames_append [of "?v @ p" "concat pieces"] f1 f2 Cons.prems(5)
  have fr: "ok" "ok2" "rest2 = rest" "bodies = bs @ cs" by (auto split: bool.splits)
  obtain h1 where h1: "handle_all E bs s0 = (True, h1)" "handle_all E cs h1 = (True, h)"
    using Cons.prems(6) fr(4) by (auto simp: handle_all_append split: prod.splits bool.splits)
  have "E\<lparr>now := now E\<rparr> = E" by simp
  with OnReadable_frames [OF Cons.prems(1), where bodies = bs and rest = rest1 and E = E and t' = "now E" and s' = s0
      and h = h1 and resume = resume and t = t] f1 fr h1 Cons.prems(7)
  obtain u1 where u1: "OnReadable resume (E\<lparr>now := t\<rparr>) s = (True, u1)" "service_part u1 = service_part h1"
      "buffer_ok (read_buffer u1)" "peek_string_view (read_buffer u1) = rest1" "rx_sock u1 = arrivals pieces"
    by (auto simp: rx)
  moreover have "next_frame rest1 = NeedMore" using f1 fr frames_rest [of "?v @ p" bs rest1] by simp
  ultimately show ?case
    using Cons.IH [OF u1(3,5) ts(2), of cs h1] f2 fr h1 ts by simp
qed

text \<open>
  C4: what a connection does with the requests depends only on the bytes, not on the pieces in
  which they arrive nor on when. If handling the complete frames of the whole stream in one go
  succeeds, then receiving the stream in any pieces, with any readable events, handles the same
  requests with the same effect on the response queue, the sequence numbers and the dispatcher,
  and leaves the same unfinished rest.
\<close>

theorem requests_independent_of_chunking:
  assumes "buffer_ok (read_buffer s)" and "rx_sock s = arrivals pieces" and "length ts = length pieces"
    and "next_frame (peek_string_view (read_buffer s)) = NeedMore"
    and "frames (peek_string_view (read_buffer s) @ concat pieces) = (bodies, rest, True)"
    and "handle_all E bodies s = (True, h)"
  shows "\<exists>u. run_reads resume E ts s = (True, u) \<and> service_part u = service_part h
    \<and> peek_string_view (read_buffer u) = rest"
  by (rule run_reads_frames [OF assms refl])

theorem requests_independent_of_chunking_witness:
  "let pieces = [take 3 (encode ''E1hi''), drop 3 (encode ''E1hi'') @ take 5 (encode ''?x''), drop 5 (encode ''?x'') @ encode ''H2'']
   in \<exists>h u. handle_all sample_env [''E1hi'', ''?x'', ''H2''] (sample_connection None () (arrivals pieces)) = (True, h)
      \<and> run_reads (\<lambda>_ s. s) sample_env [0, 10, 25] (sample_connection None () (arrivals pieces)) = (True, u)
      \<and> service_part u = service_part h"
proof -
  define pieces where "pieces = [take 3 (encode ''E1hi''), drop 3 (encode ''E1hi'') @ take 5 (encode ''?x''),
      drop 5 (encode ''?x'') @ encode ''H2'']"
  let ?s = "sample_connection None () (arrivals pieces)"
  have ok: "\<forall>b \<in> set [''E1hi'', ''?x'', ''H2'']. frame_body_ok b"
    by (simp add: frame_body_ok_def kMaxFrameSize_def)
  have "concat pieces = concat (map encode [''E1hi'', ''?x'', ''H2''])"
    unfolding pieces_def by (simp add: take_drop_append)
  then have fr: "frames (peek_string_view (read_buffer ?s) @ concat pieces) = ([''E1hi'', ''?x'', ''H2''], [], True)"
    using frames_encode_all [OF ok, of "[]"] frames_cases(1) [of "[]"] by (simp add: next_frame_def kFrameHeaderBytes_def)
  obtain h where h: "handle_all sample_env [''E1hi'', ''?x'', ''H2''] ?s = (True, h)" using sample_handle by blast
  have "\<exists>u. run_reads (\<lambda>_ s. s) sample_env [0, 10, 25] ?s = (True, u) \<and> service_part u = service_part h
      \<and> peek_string_view (read_buffer u) = []"
    by (rule requests_independent_of_chunking [OF _ _ _ _ fr h])
      (simp_all add: pieces_def next_frame_def kFrameHeaderBytes_def)
  with h show ?thesis unfolding Let_def pieces_def by blast
qed

text \<open>
  Every call of a handler ends in a response, whatever the handler does. The response carries
  the id of its request and owes nothing to what the response object held before; its payload is
  what the handler returned, or empty; an unknown method is reported as such; and the response says
  OK exactly if the handler returned or threw an \<open>RpcError\<close> whose code is itself OK.
\<close>

lemma HandleOneRequest_reports:
  "\<exists>r'. HandleOneRequest reg q (Some r) = Some r' \<and> rsp_request_id r' = request_id q
    \<and> rsp_payload r' = (case Find (service_name q) (method_name q) reg of
                          None \<Rightarrow> []
                        | Some f \<Rightarrow> (case f (payload q) of Returns p \<Rightarrow> p | _ \<Rightarrow> []))
    \<and> (Find (service_name q) (method_name q) reg = None \<and> rsp_error_code r' = proto_METHOD_NOT_FOUND
       \<or> (\<exists>f. Find (service_name q) (method_name q) reg = Some f
            \<and> (rsp_error_code r' = proto_OK \<longleftrightarrow>
                 (\<exists>p. f (payload q) = Returns p)
               \<or> (\<exists>ex. f (payload q) = ThrowsRpcError ex \<and> \<not> is_error (ex_code ex)))))"
proof (cases "Find (service_name q) (method_name q) reg")
  case None
  then show ?thesis by (simp add: HandleOneRequest_def Let_def)
next
  case (Some f)
  have "proto_INTERNAL_ERROR \<noteq> proto_OK" by (simp add: proto_defs)
  with Some show ?thesis
    by (cases "f (payload q)") (simp_all add: HandleOneRequest_def Let_def ToProto_OK_iff)
qed

end
