(* ===== verification/Connection_Writes.thy ===== *)
theory Connection_Writes
  imports Connection_Answers
begin

text \<open>
  The write side of a connection: the queue of response frames, its byte count, the limit on it, and
  the loop that sends it. No byte of a response is lost, duplicated or reordered between
  \<open>EnqueueResponse\<close> and the socket, whatever the kernel accepts at a time.
\<close>

definition chunk_rest :: "PendingChunk \<Rightarrow> string" where
  "chunk_rest c = drop (chunk_offset c) (chunk_data c)"

definition pending_data :: "('w, 'z) connection_scheme \<Rightarrow> string" where
  "pending_data s = concat (map chunk_rest (write_buffer s))"

text \<open>
  The queue is consistent: every chunk has something left to send, the counter is the number of
  bytes left, and it respects the limit.
\<close>

definition write_ok :: "('w, 'z) connection_scheme \<Rightarrow> bool" where
  "write_ok s \<longleftrightarrow>
     (\<forall>c \<in> set (write_buffer s). chunk_offset c < length (chunk_data c))
   \<and> pending_write_bytes s = length (pending_data s)
   \<and> pending_write_bytes s \<le> max_write_buffer_bytes (options s)"

lemma write_ok_cong:
  "write_buffer s' = write_buffer s \<Longrightarrow> pending_write_bytes s' = pending_write_bytes s \<Longrightarrow> options s' = options s
   \<Longrightarrow> write_ok s' \<longleftrightarrow> write_ok s"
  by (simp add: write_ok_def pending_data_def)

lemma EnqueueResponse_write_ok:
  assumes "write_ok s" and "EnqueueResponse E r s = (ok, s')"
  shows "write_ok s'"
proof (cases ok)
  case True
  note w = write_side_onlyD [OF EnqueueResponse_write_side [OF assms(2)]]
  have "write_buffer s' = write_buffer s @ [reply_chunk E r]"
      "pending_write_bytes s' = pending_write_bytes s + length (chunk_data (reply_chunk E r))"
      "pending_write_bytes s' \<le> max_write_buffer_bytes (options s)"
    using EnqueueResponse_True [of E r s s'] assms(2) True by auto
  moreover have "0 < length (chunk_data (reply_chunk E r))"
    by (simp add: reply_chunk_def kFrameHeaderBytes_def)
  ultimately show ?thesis using assms(1) w by (auto simp: write_ok_def pending_data_def chunk_rest_def reply_chunk_def)
next
  case False
  have "write_buffer s' = write_buffer s \<and> pending_write_bytes s' = pending_write_bytes s \<and> options s' = options s"
    using False assms(2) by (auto simp: EnqueueResponse_def QueueResponse_def Let_def set_error_def
        split: if_splits option.splits sum.splits prod.splits)
  with assms(1) write_ok_cong show ?thesis by blast
qed

lemma dispatch_request_write_ok: "write_ok s \<Longrightarrow> dispatch_request d r s = (ok, s') \<Longrightarrow> write_ok s'"
  by (auto simp: dispatch_request_def Let_def write_ok_def pending_data_def split: prod.splits)

lemma set_error_write_ok [simp]: "write_ok (set_error m s) = write_ok s"
  by (rule write_ok_cong) (simp_all add: set_error_def)

lemma handle_frame_write_ok: "write_ok s \<Longrightarrow> handle_frame E b s = (ok, s') \<Longrightarrow> write_ok s'"
proof (cases "request_dispatcher s = None \<or> \<not> goes_to_dispatcher E b")
  case True
  then show "write_ok s \<Longrightarrow> handle_frame E b s = (ok, s') \<Longrightarrow> write_ok s'"
    using EnqueueResponse_write_ok by (metis handle_frame_reply)
next
  case False
  then show "write_ok s \<Longrightarrow> handle_frame E b s = (ok, s') \<Longrightarrow> write_ok s'"
    using dispatch_request_write_ok by (metis handle_frame_dispatch option.exhaust)
qed

lemma handle_all_write_ok: "write_ok s \<Longrightarrow> handle_all E bs s = (ok, s') \<Longrightarrow> write_ok s'"
  by (induction E bs s rule: handle_all.induct)
    (auto split: prod.splits bool.splits dest: handle_frame_write_ok)

section \<open>Sending\<close>

text \<open>Sending changes only the socket, the queue, its counter and the error text.\<close>

definition send_side_only :: "('w, 'z) connection_scheme \<Rightarrow> ('w, 'z) connection_scheme \<Rightarrow> bool" where
  "send_side_only s s' \<longleftrightarrow>
     s' = s\<lparr>tx_sock := tx_sock s', sent := sent s', write_buffer := write_buffer s',
            pending_write_bytes := pending_write_bytes s', error_msg := error_msg s'\<rparr>"

lemma send_side_only_trans: "send_side_only s t \<Longrightarrow> send_side_only t u \<Longrightarrow> send_side_only s u"
  by (cases s; cases t; cases u) (simp add: send_side_only_def)

lemma send_side_only_intros [simp]:
  "send_side_only s s" "send_side_only s (s\<lparr>tx_sock := ss\<rparr>)" "send_side_only s (set_error m (s\<lparr>tx_sock := ss\<rparr>))"
  "send_side_only s (advance_front k (s\<lparr>tx_sock := ss\<rparr>))"
  by (simp_all add: send_side_only_def set_error_def advance_front_def Let_def split: list.split)

lemma send_side_onlyD:
  assumes "send_side_only s s'"
  shows "read_buffer s' = read_buffer s" "rx_sock s' = rx_sock s" "registry s' = registry s"
    "options s' = options s" "request_dispatcher s' = request_dispatcher s" "should_close s' = should_close s"
    "conn_state s' = conn_state s" "read_ready s' = read_ready s" "write_ready s' = write_ready s"
    "read_waiter s' = read_waiter s" "write_waiter s' = write_waiter s" "read_deadline s' = read_deadline s"
    "write_deadline s' = write_deadline s" "last_error s' = last_error s" "world s' = world s"
    "next_request_sequence s' = next_request_sequence s" "connection.more s' = connection.more s"
  by (subst assms [unfolded send_side_only_def], simp)+

lemma advance_front_ok:
  assumes "write_ok s" and "write_buffer s = c # cs" and "0 < k" and "k \<le> length (chunk_data c) - chunk_offset c"
  shows "write_ok (advance_front k s)
    \<and> sent (advance_front k s) @ pending_data (advance_front k s) = sent s @ pending_data s
    \<and> length (pending_data (advance_front k s)) < length (pending_data s)"
proof -
  have "take k (chunk_rest c) @ drop (chunk_offset c + k) (chunk_data c) = chunk_rest c"
    by (metis append_take_drop_id chunk_rest_def drop_drop add.commute)
  then show ?thesis using assms
    by (auto simp: write_ok_def advance_front_def pending_data_def Let_def chunk_rest_def)
qed

lemma sent_advance_front: "prefix (sent s) (sent (advance_front k (s\<lparr>tx_sock := ss\<rparr>)))"
  by (simp add: advance_front_def Let_def split: list.split)

lemma send_nb_cases:
  obtains (sent) k ss' where "send_nb n ss = (Sent k, ss')" "k \<le> n" "0 < k"
  | (nothing) ss' where "send_nb n ss = (Sent 0, ss')"
  | (intr) ss' where "send_nb n ss = (SendFail EINTR, ss')"
  | (again) e ss' where "send_nb n ss = (SendFail e, ss')" "e = EAGAIN \<or> e = EWOULDBLOCK"
  | (error) e ss' where "send_nb n ss = (SendFail e, ss')" "e \<noteq> EINTR" "e \<noteq> EAGAIN" "e \<noteq> EWOULDBLOCK"
proof -
  obtain r ss' where r: "send_nb n ss = (r, ss')" by fastforce
  show thesis
  proof (cases r)
    case (Sent k)
    with r have "k \<le> n" by (auto simp: send_nb_def split: prod.splits option.splits dest: send_Sent_le)
    with r Sent that(1,2) show thesis by (cases "k = 0") auto
  next
    case (SendFail e)
    with r that(3,4,5) show thesis by (cases "e = EINTR"; cases "e = EAGAIN \<or> e = EWOULDBLOCK") auto
  qed
qed

lemma FlushWrites_step:
  "write_buffer s = [] \<Longrightarrow> FlushWrites E s = (True, s)"
  "write_buffer s = c # cs \<Longrightarrow> send_nb (length (chunk_data c) - chunk_offset c) (tx_sock s) = (Sent k, ss) \<Longrightarrow>
     0 < k \<Longrightarrow> FlushWrites E s = FlushWrites E (advance_front k (s\<lparr>tx_sock := ss\<rparr>))"
  "write_buffer s = c # cs \<Longrightarrow> send_nb (length (chunk_data c) - chunk_offset c) (tx_sock s) = (Sent 0, ss) \<Longrightarrow>
     FlushWrites E s = (False, set_error (''send failed: '' @ strerror (stale_errno E)) (s\<lparr>tx_sock := ss\<rparr>))"
  "write_buffer s = c # cs \<Longrightarrow> send_nb (length (chunk_data c) - chunk_offset c) (tx_sock s) = (SendFail EINTR, ss) \<Longrightarrow>
     FlushWrites E s = FlushWrites E (s\<lparr>tx_sock := ss\<rparr>)"
  "write_buffer s = c # cs \<Longrightarrow> send_nb (length (chunk_data c) - chunk_offset c) (tx_sock s) = (SendFail e, ss) \<Longrightarrow>
     e = EAGAIN \<or> e = EWOULDBLOCK \<Longrightarrow> FlushWrites E s = (True, s\<lparr>tx_sock := ss\<rparr>)"
  "write_buffer s = c # cs \<Longrightarrow> send_nb (length (chunk_data c) - chunk_offset c) (tx_sock s) = (SendFail e, ss) \<Longrightarrow>
     e \<noteq> EINTR \<Longrightarrow> e \<noteq> EAGAIN \<Longrightarrow> e \<noteq> EWOULDBLOCK \<Longrightarrow>
     FlushWrites E s = (False, set_error (''send failed: '' @ strerror e) (s\<lparr>tx_sock := ss\<rparr>))"
  by (subst FlushWrites.simps, auto)+

lemma pending_data_simps [simp]:
  "pending_data (s\<lparr>tx_sock := ss\<rparr>) = pending_data s" "pending_data (set_error m s) = pending_data s"
  "write_ok (s\<lparr>tx_sock := ss\<rparr>) = write_ok s" "sent (set_error m s) = sent s"
  by (simp_all add: pending_data_def write_ok_def set_error_def)

text \<open>Sending conserves the bytes: what was sent and what is left are the same string as before.\<close>

lemma FlushWrites_conserves:
  assumes "write_ok s" and "FlushWrites E s = (ok, s')"
  shows "write_ok s' \<and> sent s' @ pending_data s' = sent s @ pending_data s \<and> send_side_only s s'
    \<and> prefix (sent s) (sent s')"
  using assms
proof (induction "tx_sock s" arbitrary: s rule: measure_induct_rule [of length])
  case less
  show ?case
  proof (cases "write_buffer s")
    case Nil
    with less.prems show ?thesis by (simp add: FlushWrites_step(1))
  next
    case (Cons c cs)
    let ?n = "length (chunk_data c) - chunk_offset c"
    show ?thesis
    proof (cases rule: send_nb_cases [of ?n "tx_sock s"])
      case (sent k ss)
      let ?t = "advance_front k (s\<lparr>tx_sock := ss\<rparr>)"
      have run: "FlushWrites E ?t = (ok, s')" using less.prems(2) FlushWrites_step(2) [OF Cons sent(1,3)] by simp
      have dec: "length (tx_sock ?t) < length (tx_sock s)" using send_nb_length(1) [OF sent(1)] by simp
      note a = advance_front_ok [of "s\<lparr>tx_sock := ss\<rparr>" c cs k]
      from less.hyps [OF dec _ run] a less.prems(1) Cons sent show ?thesis
        using send_side_only_trans [OF send_side_only_intros(4)] prefix_order.trans [OF sent_advance_front] by auto
    next
      case (intr ss)
      let ?t = "s\<lparr>tx_sock := ss\<rparr>"
      have run: "FlushWrites E ?t = (ok, s')" using less.prems(2) FlushWrites_step(4) [OF Cons intr] by simp
      have dec: "length (tx_sock ?t) < length (tx_sock s)" using send_nb_length(2) [OF intr] by simp
      from less.hyps [OF dec _ run] less.prems(1) show ?thesis
        using send_side_only_trans [OF send_side_only_intros(2)] by auto
    next
      case (nothing ss)
      with less.prems FlushWrites_step(3) [OF Cons nothing] show ?thesis by auto
    next
      case (again e ss)
      with less.prems FlushWrites_step(5) [OF Cons again] show ?thesis by auto
    next
      case (error e ss)
      with less.prems FlushWrites_step(6) [OF Cons error] show ?thesis by auto
    qed
  qed
qed

text \<open>A socket that keeps accepting bytes, possibly interrupted.\<close>

definition accepts :: "nat \<Rightarrow> tx_script \<Rightarrow> bool" where
  "accepts n ss \<longleftrightarrow> (\<forall>e \<in> set ss. e = SendError EINTR \<or> (\<exists>k > 0. e = Accept k))
     \<and> n \<le> length (filter (\<lambda>e. e \<noteq> SendError EINTR) ss)"

lemma FlushWrites_completes:
  assumes "write_ok s" and "accepts (length (pending_data s)) (tx_sock s)"
  shows "\<exists>s'. FlushWrites E s = (True, s') \<and> write_buffer s' = [] \<and> pending_data s' = []"
  using assms
proof (induction "tx_sock s" arbitrary: s rule: measure_induct_rule [of length])
  case less
  show ?case
  proof (cases "write_buffer s")
    case Nil
    then show ?thesis by (simp add: FlushWrites_step(1) pending_data_def)
  next
    case (Cons c cs)
    let ?n = "length (chunk_data c) - chunk_offset c"
    have n: "0 < ?n" "?n \<le> length (pending_data s)"
      using less.prems(1) Cons by (auto simp: write_ok_def pending_data_def chunk_rest_def)
    then obtain ev ss where tx: "tx_sock s = ev # ss" using less.prems(2)
      by (cases "tx_sock s") (auto simp: accepts_def)
    show ?thesis
    proof (cases "ev = SendError EINTR")
      case True
      with tx have "send_nb ?n (tx_sock s) = (SendFail EINTR, ss)" by (simp add: send_nb_def)
      then have step: "FlushWrites E s = FlushWrites E (s\<lparr>tx_sock := ss\<rparr>)" by (rule FlushWrites_step(4) [OF Cons])
      have "accepts (length (pending_data s)) ss" using less.prems(2) tx True by (simp add: accepts_def)
      with less.hyps [of "s\<lparr>tx_sock := ss\<rparr>"] less.prems(1) tx step show ?thesis by simp
    next
      case False
      then obtain k where k: "ev = Accept k" "0 < k" using less.prems(2) tx by (auto simp: accepts_def)
      let ?k = "min k ?n" and ?s = "s\<lparr>tx_sock := ss\<rparr>"
      have "send_nb ?n (tx_sock s) = (Sent ?k, ss)" using tx k by (simp add: send_nb_def)
      then have step: "FlushWrites E s = FlushWrites E (advance_front ?k ?s)"
        using FlushWrites_step(2) [OF Cons] k n by simp
      have adv: "write_ok (advance_front ?k ?s)" "length (pending_data (advance_front ?k ?s)) < length (pending_data s)"
        using advance_front_ok [of ?s c cs ?k] less.prems(1) Cons k n by auto
      then have "accepts (length (pending_data (advance_front ?k ?s))) (tx_sock (advance_front ?k ?s))"
        using less.prems(2) tx k by (auto simp: accepts_def)
      with less.hyps [of "advance_front ?k ?s"] adv tx step show ?thesis by simp
    qed
  qed
qed

section \<open>Properties\<close>

text \<open>
  C7: no response byte is lost, duplicated or reordered on its way to the socket. Whatever the
  kernel accepts, and whether \<open>FlushWrites\<close> succeeds or fails, the bytes handed to the kernel so far
  followed by the bytes still queued are the same string as before; the byte counter stays exact and
  within the limit; and if the kernel keeps taking bytes, everything is sent.
\<close>

theorem response_bytes_conserved:
  assumes "write_ok s" and "FlushWrites E s = (ok, s')"
  shows "sent s' @ pending_data s' = sent s @ pending_data s \<and> prefix (sent s) (sent s') \<and> write_ok s'
    \<and> (accepts (length (pending_data s)) (tx_sock s) \<longrightarrow>
         ok \<and> \<not> HasPendingWrite s' \<and> sent s' = sent s @ pending_data s)"
proof -
  note c = FlushWrites_conserves [OF assms]
  have "ok \<and> write_buffer s' = [] \<and> pending_data s' = []" if "accepts (length (pending_data s)) (tx_sock s)"
    using FlushWrites_completes [OF assms(1) that, of E] assms(2) by simp
  with c show ?thesis by (auto simp: HasPendingWrite_def)
qed

theorem response_bytes_conserved_witness:
  "let s = (Connection_make ServiceRegistry_init Options_default [] [Accept 2, SendError EINTR, Accept 9, Accept 1, Accept 1, Accept 1] ())
             \<lparr>write_buffer := [\<lparr>chunk_data = ''abcd'', chunk_offset = 1\<rparr>, \<lparr>chunk_data = ''ef'', chunk_offset = 0\<rparr>],
              pending_write_bytes := 5\<rparr>
   in sent (snd (FlushWrites sample_env s)) = ''bcdef'' \<and> fst (FlushWrites sample_env s)"
proof -
  define s where "s = (Connection_make ServiceRegistry_init Options_default [] [Accept 2, SendError EINTR, Accept 9, Accept 1, Accept 1, Accept 1] ())
             \<lparr>write_buffer := [\<lparr>chunk_data = ''abcd'', chunk_offset = 1\<rparr>, \<lparr>chunk_data = ''ef'', chunk_offset = 0\<rparr>],
              pending_write_bytes := 5\<rparr>"
  have w: "write_ok s" "pending_data s = ''bcdef''" "sent s = []"
    by (simp_all add: s_def write_ok_def pending_data_def chunk_rest_def Connection_make_def Options_default_def)
  have a: "accepts (length (pending_data s)) (tx_sock s)"
    unfolding w(2) by (simp add: s_def accepts_def Connection_make_def)
  obtain ok s' where f: "FlushWrites sample_env s = (ok, s')" by fastforce
  from response_bytes_conserved [OF w(1) f] a w(2,3) have "ok" "sent s' = ''bcdef''" by simp_all
  with f show ?thesis unfolding Let_def s_def [symmetric] by simp
qed

end
