(* ===== verification/Connection_Co.thy ===== *)
theory Connection_Co
  imports Connection_Writes
begin

text \<open>
  The coroutine that drives a connection: the awaiters and the coroutines \<open>ReadRequestCo\<close> and
  \<open>WriteResponseCo\<close> of \<open>src/server/connection.cpp\<close>, and \<open>HandleConnectionCo\<close> of
  \<open>src/server/worker_loop.cpp\<close>, which awaits them in turn. A coroutine that suspends returns to the
  worker loop; resuming it runs it from its suspension point to the next one, or to its end. The
  tasks are started eagerly and resume their awaiter at the end (\<open>src/coroutine/task.h\<close>), so awaiting
  a task is running it in place.
\<close>

section \<open>State of a driven connection\<close>

text \<open>
  \<open>ConnectionState\<close> of the worker loop: the token, whether the task has completed, and
  \<open>coroutine_ok\<close>. The string \<open>coroutine_error\<close> is what \<open>error_msg\<close> points to. The ghost flag
  \<open>resumed_running\<close> records that a handle was resumed while the coroutine was running, which is
  undefined behaviour in C++; it is proved never to be set.
\<close>

record 'w conn_task = "'w connection" +
  connection_token :: u64
  task_done :: bool
  coroutine_ok :: bool
  resumed_running :: bool

text \<open>Waking a waiter from inside the running coroutine.\<close>

definition resume_self :: "co_handle \<Rightarrow> ('w, 'z) conn_task_scheme \<Rightarrow> ('w, 'z) conn_task_scheme" where
  "resume_self h s = s\<lparr>resumed_running := True\<rparr>"

section \<open>Awaiters\<close>

definition readable_await_ready :: "('w, 'z) connection_scheme \<Rightarrow> bool" where
  "readable_await_ready s \<longleftrightarrow> should_close s \<or> read_ready s"

definition readable_await_suspend ::
    "conn_env \<Rightarrow> co_handle \<Rightarrow> ('w, 'z) connection_scheme \<Rightarrow> bool \<times> ('w, 'z) connection_scheme" where
  "readable_await_suspend E handle s =
     (if should_close s \<or> read_ready s then (False, s)
      else (True, ArmReadDeadline E (s\<lparr>read_waiter := Some handle, conn_state := kReading\<rparr>)))"

definition readable_await_resume :: "('w, 'z) connection_scheme \<Rightarrow> ('w, 'z) connection_scheme" where
  "readable_await_resume s = s\<lparr>read_ready := False\<rparr>"

definition writable_await_ready :: "('w, 'z) connection_scheme \<Rightarrow> bool" where
  "writable_await_ready s \<longleftrightarrow> should_close s \<or> write_ready s"

definition writable_await_suspend ::
    "conn_env \<Rightarrow> co_handle \<Rightarrow> ('w, 'z) connection_scheme \<Rightarrow> bool \<times> ('w, 'z) connection_scheme" where
  "writable_await_suspend E handle s =
     (if should_close s \<or> write_ready s then (False, s)
      else (True, ArmWriteDeadline E (s\<lparr>write_waiter := Some handle, conn_state := kWriting\<rparr>)))"

definition writable_await_resume :: "('w, 'z) connection_scheme \<Rightarrow> ('w, 'z) connection_scheme" where
  "writable_await_resume s = s\<lparr>write_ready := False\<rparr>"

section \<open>The two coroutines of a connection\<close>

text \<open>A coroutine either suspends or returns a value.\<close>

datatype 's co_result = Suspended 's | Returned bool 's

text \<open>The code after the \<open>co_await\<close>, and the coroutine from its start.\<close>

definition ReadRequestCo_resumed :: "conn_env \<Rightarrow> ('w, 'z) conn_task_scheme \<Rightarrow> bool \<times> ('w, 'z) conn_task_scheme" where
  "ReadRequestCo_resumed E s =
     (let s1 = ClearReadDeadline (readable_await_resume s) in
      if should_close s1 then (True, s1) else OnReadable resume_self E s1)"

definition ReadRequestCo :: "conn_env \<Rightarrow> ('w, 'z) conn_task_scheme \<Rightarrow> ('w, 'z) conn_task_scheme co_result" where
  "ReadRequestCo E s =
     (if readable_await_ready s then case_prod Returned (ReadRequestCo_resumed E s)
      else case readable_await_suspend E AtReadable s of
             (True, s') \<Rightarrow> Suspended s'
           | (False, s') \<Rightarrow> case_prod Returned (ReadRequestCo_resumed E s'))"

definition WriteResponseCo_resumed :: "conn_env \<Rightarrow> ('w, 'z) conn_task_scheme \<Rightarrow> bool \<times> ('w, 'z) conn_task_scheme" where
  "WriteResponseCo_resumed E s =
     (let s1 = ClearWriteDeadline (writable_await_resume s) in
      if should_close s1 then (True, s1) else OnWritable resume_self E s1)"

definition WriteResponseCo :: "conn_env \<Rightarrow> ('w, 'z) conn_task_scheme \<Rightarrow> ('w, 'z) conn_task_scheme co_result" where
  "WriteResponseCo E s =
     (if \<not> HasPendingWrite s then Returned True (ClearWriteDeadline s)
      else if writable_await_ready s then case_prod Returned (WriteResponseCo_resumed E s)
      else case writable_await_suspend E AtWritable s of
             (True, s') \<Rightarrow> Suspended s'
           | (False, s') \<Rightarrow> case_prod Returned (WriteResponseCo_resumed E s'))"

section \<open>The main coroutine\<close>

text \<open>\<open>co_return\<close>, and \<open>co_return\<close> after a failure.\<close>

definition co_return :: "('w, 'z) conn_task_scheme \<Rightarrow> ('w, 'z) conn_task_scheme" where
  "co_return s = s\<lparr>task_done := True\<rparr>"

definition co_fail :: "('w, 'z) conn_task_scheme \<Rightarrow> ('w, 'z) conn_task_scheme" where
  "co_fail s =
     co_return (s\<lparr>coroutine_ok := False,
                  error_msg := (if error_msg s = Some [] then Some (last_error s) else error_msg s)\<rparr>)"

text \<open>
  The places in the loop of \<open>HandleConnectionCo\<close>: its head, after the read has returned, the head of
  the inner loop, and after the write has returned.
\<close>

datatype co_point = LoopHead | ReadDone bool | WriteLoop | WriteDone bool

text \<open>Facts for the termination of the loop: a pass through an awaiter uses up its readiness flag.\<close>

lemma resume_self_fields [simp]:
  "read_ready (resume_self h s) = read_ready s" "write_ready (resume_self h s) = write_ready s"
  "should_close (resume_self h s) = should_close s"
  by (simp_all add: resume_self_def)

lemma EnterError_fields [simp]:
  "read_ready (EnterError resume_self m s) = read_ready s"
  "write_ready (EnterError resume_self m s) = write_ready s"
  "should_close (EnterError resume_self m s)"
  by (simp_all add: EnterError_def Let_def ClearReadDeadline_def ClearWriteDeadline_def ResumeReadWaiter_def
      ResumeWriteWaiter_def split: option.split)

lemma ReadFromSocket_frame:
  "ReadFromSocket s = (r, s') \<Longrightarrow> read_side_only s s'"
proof (induction s arbitrary: r s' rule: ReadFromSocket.induct)
  case (1 s)
  show ?case
  proof (cases rule: recv_nb_cases [of 4096 "rx_sock s"])
    case (got bs es)
    with 1 ReadFromSocket_step(1) [OF got(1)] read_side_only_trans [OF read_side_only_intros(2)] show ?thesis
      by fastforce
  next
    case (intr es)
    with 1 ReadFromSocket_step(2) [OF intr(1)] read_side_only_trans [OF read_side_only_intros(1)] show ?thesis
      by fastforce
  next
    case (eof es)
    with 1(3) ReadFromSocket_step(3) [OF eof(1)] show ?thesis by auto
  next
    case (again e es)
    with 1(3) ReadFromSocket_step(4) [OF again(1,2)] show ?thesis by auto
  next
    case (error e es)
    with 1(3) ReadFromSocket_step(5) [OF error(1,3,4,5)] show ?thesis by auto
  qed
qed

text \<open>Parsing and handling requests leaves the life-cycle of the connection alone.\<close>

definition parse_side_only :: "('w, 'z) connection_scheme \<Rightarrow> ('w, 'z) connection_scheme \<Rightarrow> bool" where
  "parse_side_only s s' \<longleftrightarrow>
     s' = s\<lparr>read_buffer := read_buffer s', write_buffer := write_buffer s', pending_write_bytes := pending_write_bytes s',
            write_deadline := write_deadline s', next_request_sequence := next_request_sequence s',
            error_msg := error_msg s', world := world s'\<rparr>"

lemma parse_side_only_trans: "parse_side_only s t \<Longrightarrow> parse_side_only t u \<Longrightarrow> parse_side_only s u"
  by (cases s; cases t; cases u) (simp add: parse_side_only_def)

lemma parse_side_only_refl: "parse_side_only s s" "parse_side_only s (set_error m s)"
  by (simp_all add: parse_side_only_def set_error_def)

lemma write_side_parse_side: "write_side_only s s' \<Longrightarrow> parse_side_only s (s'\<lparr>read_buffer := rb\<rparr>)"
  by (cases s; cases s') (simp add: parse_side_only_def write_side_only_def)

lemma write_side_parse_side': "write_side_only s s' \<Longrightarrow> parse_side_only s s'"
  by (cases s; cases s') (simp add: parse_side_only_def write_side_only_def)

lemma parse_side_onlyD:
  assumes "parse_side_only s s'"
  shows "rx_sock s' = rx_sock s" "tx_sock s' = tx_sock s"
    "sent s' = sent s" "registry s' = registry s" "options s' = options s"
    "request_dispatcher s' = request_dispatcher s" "should_close s' = should_close s"
    "conn_state s' = conn_state s" "read_ready s' = read_ready s" "write_ready s' = write_ready s"
    "read_waiter s' = read_waiter s" "write_waiter s' = write_waiter s"
    "read_deadline s' = read_deadline s" "last_error s' = last_error s"
    "connection.more s' = connection.more s"
  by (subst assms [unfolded parse_side_only_def], simp)+

lemma TryParseRequests_frame: "TryParseRequests E s = (ok, s') \<Longrightarrow> parse_side_only s s'"
proof (induction E s arbitrary: ok s' rule: TryParseRequests.induct)
  case (1 E s)
  consider (stop) "TryParseRequests E s = (True, s)" | (bad) m where "TryParseRequests E s = (False, set_error m s)"
    | (frame) n b hok t where "DecodeFrameHeader True (peek (read_buffer s)) = Inr n"
        "kFrameHeaderBytes \<le> readable_bytes (read_buffer s)"
        "\<not> readable_bytes (read_buffer s) < kFrameHeaderBytes + n"
        "b = take n (drop kFrameHeaderBytes (peek (read_buffer s)))" "handle_frame E b s = (hok, t)"
    using TryParseRequests.simps [of E s]
    by (fastforce split: if_splits sum.splits prod.splits simp del: append.simps)
  then show ?case
  proof cases
    case frame
    note t = handle_frame_write_side [OF frame(5)]
    show ?thesis
    proof (cases hok)
      case True
      let ?t = "t\<lparr>read_buffer := retrieve (kFrameHeaderBytes + n) (read_buffer t)\<rparr>"
      have "TryParseRequests E s = TryParseRequests E ?t"
        using frame True by (subst TryParseRequests.simps) simp
      with "1.prems" have run: "TryParseRequests E ?t = (ok, s')" by simp
      have "parse_side_only ?t s'"
        using "1.IH" [OF frame(2,1,3) frame(5) [unfolded frame(4), symmetric] _ run] True by simp
      then show ?thesis by (rule parse_side_only_trans [OF write_side_parse_side [OF t]])
    next
      case False
      then have "TryParseRequests E s = (False, t)" using frame by (subst TryParseRequests.simps) simp
      with "1.prems" t show ?thesis by (auto intro: write_side_parse_side')
    qed
  qed (use "1.prems" in \<open>auto simp: parse_side_only_refl\<close>)
qed

lemma OnReadable_self_flags:
  assumes "OnReadable resume_self E s = (ok, s')"
  shows "read_ready s' = read_ready s \<and> write_ready s' = write_ready s \<and> (should_close s \<longrightarrow> should_close s')"
proof -
  obtain r s1 where rd: "ReadFromSocket s = (r, s1)" by fastforce
  note f1 = read_side_onlyD(6,8,9) [OF ReadFromSocket_frame [OF rd]]
  obtain k s2 where pr: "TryParseRequests E s1 = (k, s2)" by fastforce
  note f2 = parse_side_onlyD(7,9,10) [OF TryParseRequests_frame [OF pr]]
  show ?thesis
  proof (cases r)
    case kData
    with assms rd pr f1 f2 show ?thesis by (cases k) (auto simp: OnReadable_def)
  qed (use assms rd f1 in \<open>auto simp: OnReadable_def\<close>)
qed

lemma FlushWrites_frame: "FlushWrites E s = (ok, s') \<Longrightarrow> send_side_only s s'"
proof (induction "tx_sock s" arbitrary: s rule: measure_induct_rule [of length])
  case less
  show ?case
  proof (cases "write_buffer s")
    case Nil
    with less.prems show ?thesis by (simp add: FlushWrites_step(1))
  next
    case (Cons c cs)
    show ?thesis
    proof (cases rule: send_nb_cases [of "length (chunk_data c) - chunk_offset c" "tx_sock s"])
      case (sent k ss)
      let ?t = "advance_front k (s\<lparr>tx_sock := ss\<rparr>)"
      have "FlushWrites E ?t = (ok, s')" using less.prems FlushWrites_step(2) [OF Cons sent(1,3)] by simp
      with less.hyps [of ?t] send_nb_length(1) [OF sent(1)] show ?thesis
        using send_side_only_trans [OF send_side_only_intros(4)] by simp blast
    next
      case (intr ss)
      let ?t = "s\<lparr>tx_sock := ss\<rparr>"
      have "FlushWrites E ?t = (ok, s')" using less.prems FlushWrites_step(4) [OF Cons intr] by simp
      with less.hyps [of ?t] send_nb_length(2) [OF intr] show ?thesis
        using send_side_only_trans [OF send_side_only_intros(2)] by simp blast
    next
      case (nothing ss)
      with less.prems FlushWrites_step(3) [OF Cons nothing] show ?thesis by auto
    next
      case (again e ss)
      with less.prems FlushWrites_step(5) [OF Cons again] show ?thesis by auto
    next
      case (error e ss)
      with less.prems FlushWrites_step(6) [OF Cons error] show ?thesis by auto
    qed
  qed
qed

lemma OnWritable_self_flags:
  assumes "OnWritable resume_self E s = (ok, s')"
  shows "read_ready s' = read_ready s \<and> write_ready s' = write_ready s \<and> (should_close s \<longrightarrow> should_close s')"
proof -
  obtain k s1 where fl: "FlushWrites E s = (k, s1)" by fastforce
  note f = send_side_onlyD(6,8,9) [OF FlushWrites_frame [OF fl]]
  from assms fl f show ?thesis
    by (cases k; cases "HasPendingWrite s1") (auto simp: OnWritable_def ClearWriteDeadline_def ArmWriteDeadline_def)
qed

lemma ReadRequestCo_resumed_flags:
  "ReadRequestCo_resumed E s = (ok, s') \<Longrightarrow> \<not> read_ready s' \<and> write_ready s' = write_ready s"
  using OnReadable_self_flags
  by (fastforce simp: ReadRequestCo_resumed_def Let_def readable_await_resume_def ClearReadDeadline_def split: if_splits)

lemma WriteResponseCo_resumed_flags:
  "WriteResponseCo_resumed E s = (ok, s') \<Longrightarrow>
     \<not> write_ready s' \<and> read_ready s' = read_ready s \<and> (should_close s \<longrightarrow> should_close s')"
  using OnWritable_self_flags
  by (fastforce simp: WriteResponseCo_resumed_def Let_def writable_await_resume_def ClearWriteDeadline_def split: if_splits)

lemma ReadRequestCo_Returned:
  "ReadRequestCo E s = Returned ok s' \<Longrightarrow> \<not> should_close s \<Longrightarrow>
     read_ready s \<and> \<not> read_ready s' \<and> write_ready s' = write_ready s"
  by (auto simp: ReadRequestCo_def readable_await_ready_def readable_await_suspend_def
      dest: ReadRequestCo_resumed_flags split: if_splits prod.splits)

lemma WriteResponseCo_Returned:
  "WriteResponseCo E s = Returned ok s' \<Longrightarrow> HasPendingWrite s \<Longrightarrow>
     \<not> write_ready s' \<and> read_ready s' = read_ready s \<and> (should_close s \<longrightarrow> should_close s') \<and> (write_ready s \<or> should_close s)"
  by (auto simp: WriteResponseCo_def writable_await_ready_def writable_await_suspend_def
      dest: WriteResponseCo_resumed_flags split: if_splits prod.splits)

fun co_rank :: "co_point \<Rightarrow> ('w, 'z) connection_scheme \<Rightarrow> nat" where
  "co_rank LoopHead s = 0"
| "co_rank WriteLoop s = 1"
| "co_rank (ReadDone _) s = 2"
| "co_rank (WriteDone _) s = (if should_close s then 0 else 2)"

definition ready_count :: "('w, 'z) connection_scheme \<Rightarrow> nat" where
  "ready_count s = of_bool (read_ready s) + of_bool (write_ready s)"

text \<open>\<open>HandleConnectionCo\<close>, run from a given place to the next suspension or to its end.\<close>

function HandleConnectionCo ::
    "conn_env \<Rightarrow> co_point \<Rightarrow> ('w, 'z) conn_task_scheme \<Rightarrow> ('w, 'z) conn_task_scheme" where
  "HandleConnectionCo E LoopHead s =
     (if should_close s then co_return s
      else case ReadRequestCo E s of
             Suspended s' \<Rightarrow> s'
           | Returned rd_ok s' \<Rightarrow> HandleConnectionCo E (ReadDone rd_ok) s')"
| "HandleConnectionCo E (ReadDone rd_ok) s =
     (if \<not> rd_ok then co_fail s
      else if should_close s then co_return s
      else HandleConnectionCo E WriteLoop s)"
| "HandleConnectionCo E WriteLoop s =
     (if HasPendingWrite s then
        (case WriteResponseCo E s of
           Suspended s' \<Rightarrow> s'
         | Returned wr_ok s' \<Rightarrow> HandleConnectionCo E (WriteDone wr_ok) s')
      else HandleConnectionCo E LoopHead s)"
| "HandleConnectionCo E (WriteDone wr_ok) s =
     (if \<not> wr_ok then co_fail s
      else if should_close s then co_return s
      else HandleConnectionCo E WriteLoop s)"
  by pat_completeness auto
termination
  by (relation "measures [\<lambda>(E, p, s). ready_count s, \<lambda>(E, p, s). co_rank p s]")
    (auto simp: ready_count_def dest: ReadRequestCo_Returned WriteResponseCo_Returned)

declare HandleConnectionCo.simps [simp del]

text \<open>Resuming a suspended coroutine, and starting it (\<open>StartConnectionCoroutine\<close>).\<close>

fun resume_co :: "conn_env \<Rightarrow> co_handle \<Rightarrow> ('w, 'z) conn_task_scheme \<Rightarrow> ('w, 'z) conn_task_scheme" where
  "resume_co E AtReadable s =
     (case ReadRequestCo_resumed E s of (ok, s') \<Rightarrow> HandleConnectionCo E (ReadDone ok) s')"
| "resume_co E AtWritable s =
     (case WriteResponseCo_resumed E s of (ok, s') \<Rightarrow> HandleConnectionCo E (WriteDone ok) s')"

declare resume_co.simps [simp del]

definition StartConnectionCoroutine :: "conn_env \<Rightarrow> ('w, 'z) conn_task_scheme \<Rightarrow> ('w, 'z) conn_task_scheme" where
  "StartConnectionCoroutine E s = HandleConnectionCo E LoopHead s"

end
