(* ===== verification/Connection_Life.thy ===== *)
theory Connection_Life
  imports Connection_Co
begin

text \<open>
  The life cycle of a driven connection. Between two events of the worker loop the coroutine is
  parked: suspended on exactly one awaiter with its deadline armed, or finished with the connection
  marked for closing. Every event keeps this invariant, closing a connection always brings the
  coroutine to its end, and no handle is resumed while the coroutine runs.
\<close>

section \<open>Invariants\<close>

definition io_ok :: "('w, 'z) connection_scheme \<Rightarrow> bool" where
  "io_ok s \<longleftrightarrow> buffer_ok (read_buffer s) \<and> write_ok s"

definition running_ok :: "('w, 'z) conn_task_scheme \<Rightarrow> bool" where
  "running_ok s \<longleftrightarrow> io_ok s \<and> read_waiter s = None \<and> write_waiter s = None \<and> \<not> task_done s
     \<and> coroutine_ok s \<and> \<not> resumed_running s"

definition at_readable :: "('w, 'z) conn_task_scheme \<Rightarrow> bool" where
  "at_readable s \<longleftrightarrow> \<not> task_done s \<and> coroutine_ok s \<and> read_waiter s = Some AtReadable \<and> write_waiter s = None
     \<and> \<not> should_close s \<and> \<not> read_ready s \<and> read_deadline s \<noteq> None"

definition at_writable :: "('w, 'z) conn_task_scheme \<Rightarrow> bool" where
  "at_writable s \<longleftrightarrow> \<not> task_done s \<and> coroutine_ok s \<and> write_waiter s = Some AtWritable \<and> read_waiter s = None
     \<and> \<not> should_close s \<and> \<not> write_ready s \<and> HasPendingWrite s \<and> write_deadline s \<noteq> None"

definition finished :: "('w, 'z) conn_task_scheme \<Rightarrow> bool" where
  "finished s \<longleftrightarrow> task_done s \<and> read_waiter s = None \<and> write_waiter s = None \<and> should_close s"

definition parked :: "('w, 'z) conn_task_scheme \<Rightarrow> bool" where
  "parked s \<longleftrightarrow> io_ok s \<and> \<not> resumed_running s \<and> (at_readable s \<or> at_writable s \<or> finished s)"

section \<open>The running coroutine\<close>

lemma conn_task_more_cong:
  assumes "connection.more s' = connection.more s"
  shows "task_done s' = task_done s" "coroutine_ok s' = coroutine_ok s"
    "resumed_running s' = resumed_running s" "connection_token s' = connection_token s"
  using assms by (cases s; cases s'; simp)+

lemma io_ok_read_side:
  assumes "io_ok s" and "ReadFromSocket s = (r, s')"
  shows "io_ok s'"
proof -
  note f = read_side_onlyD [OF ReadFromSocket_frame [OF assms(2)]]
  have "write_ok s' = write_ok s" using f by (intro write_ok_cong)
  then show ?thesis using assms ReadFromSocket_drains [of s r s'] by (simp add: io_ok_def)
qed

lemma io_ok_parse:
  assumes "io_ok s" and "TryParseRequests E s = (ok, s')"
  shows "io_ok s'"
proof -
  have b: "buffer_ok (read_buffer s)" and w: "write_ok s" using assms(1) by (auto simp: io_ok_def)
  obtain bodies rest fok where fr: "frames (peek_string_view (read_buffer s)) = (bodies, rest, fok)"
    by (metis prod_cases3)
  obtain hok h where h: "handle_all E bodies s = (hok, h)" by fastforce
  obtain rb where "buffer_ok rb"
      and s': "s' = (if hok \<and> \<not> fok then set_error ''invalid request frame length'' else id) (h\<lparr>read_buffer := rb\<rparr>)"
    using TryParseRequests_frames [OF b fr h] assms(2) by auto
  moreover have "write_ok (h\<lparr>read_buffer := rb\<rparr>) = write_ok h" by (intro write_ok_cong) simp_all
  ultimately show ?thesis using handle_all_write_ok [OF w h] by (simp add: io_ok_def)
qed

text \<open>Updates of fields that the invariants of the buffers do not read.\<close>

lemma io_ok_updates [simp]:
  "io_ok (s\<lparr>conn_state := c\<rparr>) = io_ok s" "io_ok (s\<lparr>should_close := b\<rparr>) = io_ok s"
  "io_ok (s\<lparr>read_ready := b\<rparr>) = io_ok s" "io_ok (s\<lparr>write_ready := b\<rparr>) = io_ok s"
  "io_ok (s\<lparr>read_waiter := h\<rparr>) = io_ok s" "io_ok (s\<lparr>write_waiter := h\<rparr>) = io_ok s"
  "io_ok (s\<lparr>read_deadline := t\<rparr>) = io_ok s" "io_ok (s\<lparr>write_deadline := t\<rparr>) = io_ok s"
  "io_ok (s\<lparr>last_error := m\<rparr>) = io_ok s" "io_ok (s\<lparr>error_msg := e\<rparr>) = io_ok s"
  by (simp_all add: io_ok_def write_ok_def pending_data_def)

lemma io_ok_task_updates [simp]:
  "io_ok (s\<lparr>task_done := b\<rparr>) = io_ok s" "io_ok (s\<lparr>coroutine_ok := b\<rparr>) = io_ok s"
  "io_ok (s\<lparr>resumed_running := b\<rparr>) = io_ok s"
  by (simp_all add: io_ok_def write_ok_def pending_data_def)

lemma EnterError_keeps_running:
  "running_ok s \<Longrightarrow> running_ok (EnterError resume_self m s)"
  by (simp add: running_ok_def EnterError_running)

lemma OnReadable_running:
  assumes "running_ok s" and "OnReadable resume_self E s = (ok, s')"
  shows "running_ok s' \<and> (\<not> ok \<longrightarrow> should_close s')"
proof -
  obtain r s1 where rd: "ReadFromSocket s = (r, s1)" by fastforce
  note f1 = read_side_onlyD [OF ReadFromSocket_frame [OF rd]]
  have r1: "running_ok s1"
    using assms(1) io_ok_read_side [OF _ rd] f1 conn_task_more_cong [OF f1(21)] by (simp add: running_ok_def)
  obtain k s2 where pr: "TryParseRequests E s1 = (k, s2)" by fastforce
  note f2 = parse_side_onlyD [OF TryParseRequests_frame [OF pr]]
  have r2: "running_ok s2"
    using r1 io_ok_parse [OF _ pr] f2 conn_task_more_cong [OF f2(15)] by (simp add: running_ok_def)
  show ?thesis
  proof (cases r)
    case kData
    with assms(2) rd pr r2 show ?thesis
      by (cases k) (auto simp: OnReadable_def EnterError_keeps_running, simp add: running_ok_def)
  qed (use assms(2) rd r1 in \<open>auto simp: OnReadable_def EnterError_keeps_running\<close>, simp add: running_ok_def)
qed

lemma OnWritable_running:
  assumes "running_ok s" and "OnWritable resume_self E s = (ok, s')"
  shows "running_ok s' \<and> (\<not> ok \<longrightarrow> should_close s')"
proof -
  obtain k s1 where fl: "FlushWrites E s = (k, s1)" by fastforce
  note f = send_side_onlyD [OF FlushWrites_frame [OF fl]]
  have r1: "running_ok s1"
    using assms(1) FlushWrites_conserves [OF _ fl] f conn_task_more_cong [OF f(17)]
    by (simp add: running_ok_def io_ok_def)
  show ?thesis
  proof (cases k)
    case True
    with assms(2) fl r1 show ?thesis
      by (cases "HasPendingWrite s1")
        (auto simp: OnWritable_def running_ok_def ClearWriteDeadline_def ArmWriteDeadline_def)
  next
    case False
    with assms(2) fl r1 show ?thesis by (auto simp: OnWritable_def EnterError_keeps_running)
  qed
qed

lemma ReadRequestCo_resumed_running:
  assumes "running_ok s" and "ReadRequestCo_resumed E s = (ok, s')"
  shows "running_ok s' \<and> (\<not> ok \<longrightarrow> should_close s')"
proof -
  let ?s = "s\<lparr>read_ready := False, read_deadline := None\<rparr>"
  have "running_ok ?s" using assms(1) by (simp add: running_ok_def)
  with assms(2) OnReadable_running [of ?s E ok s'] show ?thesis
    by (auto simp: ReadRequestCo_resumed_def Let_def readable_await_resume_def ClearReadDeadline_def split: if_splits)
qed

lemma WriteResponseCo_resumed_running:
  assumes "running_ok s" and "WriteResponseCo_resumed E s = (ok, s')"
  shows "running_ok s' \<and> (\<not> ok \<longrightarrow> should_close s')"
proof -
  let ?s = "s\<lparr>write_ready := False, write_deadline := None\<rparr>"
  have "running_ok ?s" using assms(1) by (simp add: running_ok_def)
  with assms(2) OnWritable_running [of ?s E ok s'] show ?thesis
    by (auto simp: WriteResponseCo_resumed_def Let_def writable_await_resume_def ClearWriteDeadline_def split: if_splits)
qed

lemma ReadRequestCo_cases:
  assumes "running_ok s" and "\<not> should_close s"
  shows "(\<exists>s'. ReadRequestCo E s = Suspended s' \<and> parked s' \<and> at_readable s')
       \<or> (\<exists>ok s'. ReadRequestCo E s = Returned ok s' \<and> running_ok s' \<and> (\<not> ok \<longrightarrow> should_close s'))"
proof (cases "read_ready s")
  case True
  obtain ok s' where "ReadRequestCo_resumed E s = (ok, s')" by fastforce
  with True ReadRequestCo_resumed_running [OF assms(1)] show ?thesis
    by (auto simp: ReadRequestCo_def readable_await_ready_def)
next
  case False
  with assms show ?thesis
    by (simp add: ReadRequestCo_def readable_await_ready_def readable_await_suspend_def ArmReadDeadline_def
        parked_def at_readable_def running_ok_def)
qed

lemma WriteResponseCo_cases:
  assumes "running_ok s" and "HasPendingWrite s"
  shows "(\<exists>s'. WriteResponseCo E s = Suspended s' \<and> parked s' \<and> at_writable s')
       \<or> (\<exists>ok s'. WriteResponseCo E s = Returned ok s' \<and> running_ok s' \<and> (\<not> ok \<longrightarrow> should_close s'))"
proof (cases "write_ready s \<or> should_close s")
  case True
  obtain ok s' where "WriteResponseCo_resumed E s = (ok, s')" by fastforce
  with True WriteResponseCo_resumed_running [OF assms(1)] assms(2) show ?thesis
    by (auto simp: WriteResponseCo_def writable_await_ready_def)
next
  case False
  with assms show ?thesis
    by (simp add: WriteResponseCo_def writable_await_ready_def writable_await_suspend_def ArmWriteDeadline_def
        parked_def at_writable_def running_ok_def HasPendingWrite_def)
qed

lemma co_return_parked: "running_ok s \<Longrightarrow> should_close s \<Longrightarrow> parked (co_return s) \<and> finished (co_return s)"
  by (simp add: co_return_def parked_def finished_def running_ok_def)

lemma co_fail_parked: "running_ok s \<Longrightarrow> should_close s \<Longrightarrow> parked (co_fail s) \<and> finished (co_fail s)"
  by (simp add: co_fail_def co_return_def parked_def finished_def running_ok_def)

text \<open>The coroutine runs to a parked state; if the connection is to be closed, it finishes.\<close>

lemma HandleConnectionCo_parks:
  "running_ok s \<Longrightarrow> (p = ReadDone False \<or> p = WriteDone False \<longrightarrow> should_close s) \<Longrightarrow>
   parked (HandleConnectionCo E p s)"
proof (induction E p s rule: HandleConnectionCo.induct)
  case (1 E s)
  then show ?case using ReadRequestCo_cases [of s E]
    by (auto simp: HandleConnectionCo.simps(1) co_return_parked)
next
  case (2 E ok s)
  then show ?case by (auto simp: HandleConnectionCo.simps(2) co_return_parked co_fail_parked)
next
  case (3 E s)
  then show ?case using WriteResponseCo_cases [of s E]
    by (auto simp: HandleConnectionCo.simps(3))
next
  case (4 E ok s)
  then show ?case by (auto simp: HandleConnectionCo.simps(4) co_return_parked co_fail_parked)
qed

section \<open>Events of the worker loop\<close>

lemma resume_co_parks:
  assumes "running_ok s"
  shows "parked (resume_co E h s)"
proof (cases h)
  case AtReadable
  obtain ok s' where r: "ReadRequestCo_resumed E s = (ok, s')" by fastforce
  with ReadRequestCo_resumed_running [OF assms r] HandleConnectionCo_parks [of s' "ReadDone ok" E] AtReadable
  show ?thesis by (auto simp: resume_co.simps)
next
  case AtWritable
  obtain ok s' where r: "WriteResponseCo_resumed E s = (ok, s')" by fastforce
  with WriteResponseCo_resumed_running [OF assms r] HandleConnectionCo_parks [of s' "WriteDone ok" E] AtWritable
  show ?thesis by (auto simp: resume_co.simps)
qed

text \<open>A coroutine that is resumed on a connection marked for closing returns at once.\<close>

lemma resume_co_closing:
  assumes "should_close s"
  shows "resume_co E h s =
    (case h of AtReadable \<Rightarrow> s\<lparr>read_ready := False, read_deadline := None, task_done := True\<rparr>
             | AtWritable \<Rightarrow> s\<lparr>write_ready := False, write_deadline := None, task_done := True\<rparr>)"
  using assms
  by (cases h)
    (simp_all add: resume_co.simps ReadRequestCo_resumed_def WriteResponseCo_resumed_def Let_def readable_await_resume_def
      writable_await_resume_def ClearReadDeadline_def ClearWriteDeadline_def HandleConnectionCo.simps co_return_def)

lemma parked_cases:
  assumes "parked s"
  obtains (readable) "at_readable s" "running_ok (s\<lparr>read_waiter := None\<rparr>)"
  | (writable) "at_writable s" "running_ok (s\<lparr>write_waiter := None\<rparr>)"
  | (finished) "finished s"
  using assms by (auto simp: parked_def at_readable_def at_writable_def running_ok_def)

lemma running_ok_updates [simp]:
  "running_ok (s\<lparr>conn_state := c\<rparr>) = running_ok s" "running_ok (s\<lparr>should_close := b\<rparr>) = running_ok s"
  "running_ok (s\<lparr>read_ready := b\<rparr>) = running_ok s" "running_ok (s\<lparr>write_ready := b\<rparr>) = running_ok s"
  "running_ok (s\<lparr>read_deadline := t\<rparr>) = running_ok s" "running_ok (s\<lparr>write_deadline := t\<rparr>) = running_ok s"
  "running_ok (s\<lparr>last_error := m\<rparr>) = running_ok s"
  by (simp_all add: running_ok_def)

lemma NotifyReadable_parks:
  assumes "parked s"
  shows "parked (NotifyReadable (resume_co E) s)"
  using assms
proof (cases rule: parked_cases)
  case readable
  let ?s = "s\<lparr>read_ready := True, conn_state := kReading, read_waiter := None\<rparr>"
  have "running_ok ?s" using readable(2) by (simp add: running_ok_def)
  from resume_co_parks [OF this] readable(1) show ?thesis
    by (simp add: NotifyReadable_def ResumeReadWaiter_def at_readable_def)
qed (use assms in \<open>simp_all add: NotifyReadable_def ResumeReadWaiter_def parked_def at_writable_def finished_def
      at_readable_def HasPendingWrite_def\<close>)

lemma NotifyWritable_parks:
  assumes "parked s"
  shows "parked (NotifyWritable (resume_co E) s)"
  using assms
proof (cases rule: parked_cases)
  case writable
  let ?s = "s\<lparr>write_ready := True, conn_state := kWriting, write_waiter := None\<rparr>"
  have "running_ok ?s" using writable(2) by (simp add: running_ok_def)
  from resume_co_parks [OF this] writable(1) show ?thesis
    by (simp add: NotifyWritable_def ResumeWriteWaiter_def at_writable_def)
qed (use assms in \<open>simp_all add: NotifyWritable_def ResumeWriteWaiter_def parked_def at_writable_def finished_def
      at_readable_def HasPendingWrite_def\<close>)

text \<open>\<open>MarkClosing\<close> and \<open>EnterError\<close> wake the coroutine, which then finishes.\<close>

lemma wake_closing:
  assumes "parked s0" and "should_close s" and "read_deadline s = None" and "write_deadline s = None"
    and "read_waiter s = read_waiter s0" and "write_waiter s = write_waiter s0" and "io_ok s"
    and "task_done s = task_done s0" and "coroutine_ok s = coroutine_ok s0" and "resumed_running s = resumed_running s0"
  shows "parked (ResumeWriteWaiter (resume_co E) (ResumeReadWaiter (resume_co E) s))
    \<and> finished (ResumeWriteWaiter (resume_co E) (ResumeReadWaiter (resume_co E) s))
    \<and> conn_state (ResumeWriteWaiter (resume_co E) (ResumeReadWaiter (resume_co E) s)) = conn_state s
    \<and> last_error (ResumeWriteWaiter (resume_co E) (ResumeReadWaiter (resume_co E) s)) = last_error s
    \<and> coroutine_ok (ResumeWriteWaiter (resume_co E) (ResumeReadWaiter (resume_co E) s)) = coroutine_ok s"
  using assms(1)
proof (cases rule: parked_cases)
  case readable
  then show ?thesis using assms
    by (simp add: ResumeReadWaiter_def ResumeWriteWaiter_def resume_co_closing at_readable_def parked_def finished_def)
next
  case writable
  then show ?thesis using assms
    by (simp add: ResumeReadWaiter_def ResumeWriteWaiter_def resume_co_closing at_writable_def parked_def finished_def)
next
  case finished
  then show ?thesis using assms
    by (simp add: ResumeReadWaiter_def ResumeWriteWaiter_def parked_def finished_def)
qed

lemma MarkClosing_finishes:
  assumes "parked s"
  shows "parked (MarkClosing (resume_co E) s) \<and> finished (MarkClosing (resume_co E) s)"
proof -
  let ?t = "(if conn_state s \<noteq> kClosed \<and> conn_state s \<noteq> kError then s\<lparr>conn_state := kClosing\<rparr> else s)
      \<lparr>should_close := True, read_deadline := None, write_deadline := None\<rparr>"
  have "MarkClosing (resume_co E) s = ResumeWriteWaiter (resume_co E) (ResumeReadWaiter (resume_co E) ?t)"
    by (simp add: MarkClosing_def ClearReadDeadline_def ClearWriteDeadline_def Let_def)
  with wake_closing [OF assms, of ?t] assms show ?thesis by (simp add: parked_def)
qed

lemma EnterError_finishes:
  assumes "parked s"
  shows "parked (EnterError (resume_co E) m s) \<and> finished (EnterError (resume_co E) m s)
    \<and> conn_state (EnterError (resume_co E) m s) = kError
    \<and> last_error (EnterError (resume_co E) m s) = (if m \<noteq> [] then m else last_error s)
    \<and> coroutine_ok (EnterError (resume_co E) m s) = coroutine_ok s"
proof -
  let ?t = "(if m \<noteq> [] then s\<lparr>last_error := m\<rparr> else s)
      \<lparr>should_close := True, conn_state := kError, read_deadline := None, write_deadline := None\<rparr>"
  have "EnterError (resume_co E) m s = ResumeWriteWaiter (resume_co E) (ResumeReadWaiter (resume_co E) ?t)"
    by (simp add: EnterError_def ClearReadDeadline_def ClearWriteDeadline_def Let_def)
  with wake_closing [OF assms, of ?t] assms show ?thesis by (simp add: parked_def)
qed

lemma Tick_parks: "parked s \<Longrightarrow> parked (Tick (resume_co E) t s)"
  by (simp add: Tick_def EnterError_finishes split: option.split)

lemma EnqueueResponse_parks:
  assumes "parked s" and "EnqueueResponse E r s = (ok, s')"
  shows "parked s'"
proof -
  note f = write_side_onlyD [OF EnqueueResponse_write_side [OF assms(2)]]
  have "HasPendingWrite s \<longrightarrow> HasPendingWrite s'" and "write_deadline s \<noteq> None \<longrightarrow> write_deadline s' \<noteq> None"
    using assms(2) by (auto simp: EnqueueResponse_def QueueResponse_def Let_def set_error_def ArmWriteDeadline_def
        HasPendingWrite_def split: if_splits option.splits sum.splits prod.splits)
  moreover have "io_ok s'" using assms EnqueueResponse_write_ok [OF _ assms(2)] f by (simp add: parked_def io_ok_def)
  ultimately show ?thesis using assms(1) f conn_task_more_cong [OF f(18)]
    by (auto simp: parked_def at_readable_def at_writable_def finished_def)
qed

section \<open>Runs of a connection\<close>

text \<open>
  What can happen to a connection that a worker owns: the network delivers or accepts something, the
  worker loop reports readiness or hang-up, lets time pass, or queues a response that the thread
  pool has completed.
\<close>

datatype conn_event =
    NetIn recv_event
  | NetOut send_event
  | Readable
  | Writable
  | HangUp
  | TickAt time_point
  | Respond RpcResponse

fun conn_step :: "conn_env \<Rightarrow> conn_event \<Rightarrow> 'w conn_task \<Rightarrow> 'w conn_task" where
  "conn_step E (NetIn e) s = s\<lparr>rx_sock := rx_sock s @ [e]\<rparr>"
| "conn_step E (NetOut e) s = s\<lparr>tx_sock := tx_sock s @ [e]\<rparr>"
| "conn_step E Readable s = NotifyReadable (resume_co E) s"
| "conn_step E Writable s = NotifyWritable (resume_co E) s"
| "conn_step E HangUp s =
     NotifyWritable (resume_co E) (NotifyReadable (resume_co E) (MarkClosing (resume_co E) s))"
| "conn_step E (TickAt t) s = Tick (resume_co E) t s"
| "conn_step E (Respond r) s = snd (EnqueueResponse E r s)"

definition conn_task_make :: "u64 \<Rightarrow> ServiceRegistry \<Rightarrow> Options \<Rightarrow> 'w RequestDispatchFn option \<Rightarrow> 'w \<Rightarrow> 'w conn_task" where
  "conn_task_make token reg opts d w =
     connection.extend ((Connection_make reg opts [] [] w)\<lparr>request_dispatcher := d\<rparr>)
       \<lparr>connection_token = token, task_done = False, coroutine_ok = True, resumed_running = False\<rparr>"

text \<open>
  The states that a connection can reach, with the events that led there. The clock may show any
  time at any event.
\<close>

inductive conn_reach :: "conn_env \<Rightarrow> 'w conn_task \<Rightarrow> conn_event list \<Rightarrow> 'w conn_task \<Rightarrow> bool"
  for E s0 where
  start: "conn_reach E s0 [] (StartConnectionCoroutine E s0)"
| event: "conn_reach E s0 evs s \<Longrightarrow> conn_reach E s0 (evs @ [ev]) (conn_step (E\<lparr>now := t\<rparr>) ev s)"

lemma conn_task_make_running: "running_ok (conn_task_make token reg opts d w)"
  by (simp add: running_ok_def conn_task_make_def Connection_make_def connection.defs io_ok_def write_ok_def
      pending_data_def)

lemma parked_net [simp]:
  "parked (s\<lparr>rx_sock := es\<rparr>) = parked s" "parked (s\<lparr>tx_sock := ss\<rparr>) = parked s"
  by (simp_all add: parked_def io_ok_def write_ok_def pending_data_def at_readable_def at_writable_def
      finished_def HasPendingWrite_def)

lemma conn_step_parks:
  assumes "parked s"
  shows "parked (conn_step E ev s)"
proof (cases ev)
  case (Respond r)
  with assms EnqueueResponse_parks [of s E r] show ?thesis by (cases "EnqueueResponse E r s") simp
qed (use assms in \<open>simp_all add: NotifyReadable_parks NotifyWritable_parks MarkClosing_finishes Tick_parks\<close>)

lemma conn_reach_parked:
  assumes "conn_reach E (conn_task_make token reg opts d w) evs s"
  shows "parked s"
  using assms
proof induction
  case start
  then show ?case using HandleConnectionCo_parks [OF conn_task_make_running, of LoopHead]
    by (simp add: StartConnectionCoroutine_def)
qed (rule conn_step_parks)

section \<open>Invariants of the served data\<close>

text \<open>
  The contract between the driving code and an invariant of the data: if it does not depend on the
  life-cycle fields (except for the token, and that marking the connection for closing may weaken it) and the
  two event handlers keep it, then the coroutine and every notification keep it.
\<close>

definition io_part :: "('w, 'z) connection_scheme \<Rightarrow> ('w, unit) connection_scheme" where
  "io_part s = (connection.truncate s)\<lparr>conn_state := kOpen, should_close := False, read_ready := False,
     write_ready := False, read_deadline := None, write_deadline := None, read_waiter := None,
     write_waiter := None, last_error := [], error_msg := None\<rparr>"

lemma io_part_updates [simp]:
  "io_part (s\<lparr>conn_state := c\<rparr>) = io_part s" "io_part (s\<lparr>should_close := b\<rparr>) = io_part s"
  "io_part (s\<lparr>read_ready := b\<rparr>) = io_part s" "io_part (s\<lparr>write_ready := b\<rparr>) = io_part s"
  "io_part (s\<lparr>read_waiter := h\<rparr>) = io_part s" "io_part (s\<lparr>write_waiter := h\<rparr>) = io_part s"
  "io_part (s\<lparr>read_deadline := t\<rparr>) = io_part s" "io_part (s\<lparr>write_deadline := t\<rparr>) = io_part s"
  "io_part (s\<lparr>last_error := m\<rparr>) = io_part s" "io_part (s\<lparr>error_msg := e\<rparr>) = io_part s"
  by (simp_all add: io_part_def connection.defs)

lemma io_part_task_updates [simp]:
  "io_part (s\<lparr>task_done := b\<rparr>) = io_part s" "io_part (s\<lparr>coroutine_ok := b\<rparr>) = io_part s"
  "io_part (s\<lparr>resumed_running := b\<rparr>) = io_part s"
  by (simp_all add: io_part_def connection.defs)

lemma io_part_wake:
  assumes "should_close s"
  shows "io_part (ResumeWriteWaiter (resume_co E) (ResumeReadWaiter (resume_co E) s)) = io_part s
    \<and> should_close (ResumeWriteWaiter (resume_co E) (ResumeReadWaiter (resume_co E) s))
    \<and> connection_token (ResumeWriteWaiter (resume_co E) (ResumeReadWaiter (resume_co E) s)) = connection_token s"
  using assms
  by (auto simp: ResumeReadWaiter_def ResumeWriteWaiter_def resume_co_closing split: option.split co_handle.split)

lemma parked_waiters:
  "parked s \<Longrightarrow> read_waiter s = None \<or> running_ok (s\<lparr>read_waiter := None\<rparr>)"
  "parked s \<Longrightarrow> write_waiter s = None \<or> running_ok (s\<lparr>write_waiter := None\<rparr>)"
  by (auto simp: parked_def at_readable_def at_writable_def running_ok_def finished_def)

locale conn_invariant =
  fixes E :: conn_env and P :: "'w conn_task \<Rightarrow> bool"
  assumes lifecycle: "P s \<Longrightarrow> io_part s' = io_part s \<Longrightarrow> connection_token s' = connection_token s \<Longrightarrow>
      (should_close s \<longrightarrow> should_close s') \<Longrightarrow> P s'"
    and on_readable: "P s \<Longrightarrow> running_ok s \<Longrightarrow> \<not> should_close s \<Longrightarrow>
      OnReadable resume_self (E\<lparr>now := t\<rparr>) s = (ok, s') \<Longrightarrow> P s'"
    and on_writable: "P s \<Longrightarrow> running_ok s \<Longrightarrow> \<not> should_close s \<Longrightarrow>
      OnWritable resume_self (E\<lparr>now := t\<rparr>) s = (ok, s') \<Longrightarrow> P s'"
begin

lemma keeps_read_resumed:
  assumes "P s" and "running_ok s" and "ReadRequestCo_resumed (E\<lparr>now := t\<rparr>) s = (ok, s')"
  shows "P s'"
proof -
  let ?s = "s\<lparr>read_ready := False, read_deadline := None\<rparr>"
  have "P ?s" using assms(1) by (rule lifecycle) simp_all
  with assms on_readable [of ?s t ok s'] show ?thesis
    by (auto simp: ReadRequestCo_resumed_def Let_def readable_await_resume_def ClearReadDeadline_def split: if_splits)
qed

lemma keeps_write_resumed:
  assumes "P s" and "running_ok s" and "WriteResponseCo_resumed (E\<lparr>now := t\<rparr>) s = (ok, s')"
  shows "P s'"
proof -
  let ?s = "s\<lparr>write_ready := False, write_deadline := None\<rparr>"
  have "P ?s" using assms(1) by (rule lifecycle) simp_all
  with assms on_writable [of ?s t ok s'] show ?thesis
    by (auto simp: WriteResponseCo_resumed_def Let_def writable_await_resume_def ClearWriteDeadline_def split: if_splits)
qed

lemma keeps_co_end:
  assumes "P s"
  shows "P (co_return s)" and "P (co_fail s)"
  by (rule lifecycle [OF assms]; simp add: co_return_def co_fail_def)+

lemma keeps_read:
  assumes "P s" and "running_ok s"
  shows "ReadRequestCo (E\<lparr>now := t\<rparr>) s = Suspended s' \<Longrightarrow> P s'"
    and "ReadRequestCo (E\<lparr>now := t\<rparr>) s = Returned ok s' \<Longrightarrow> P s'"
  using assms lifecycle [OF assms(1), of s'] keeps_read_resumed [OF assms]
  by (auto simp: ReadRequestCo_def readable_await_ready_def readable_await_suspend_def ArmReadDeadline_def
      split: if_splits prod.splits)

lemma keeps_write:
  assumes "P s" and "running_ok s"
  shows "WriteResponseCo (E\<lparr>now := t\<rparr>) s = Suspended s' \<Longrightarrow> P s'"
    and "WriteResponseCo (E\<lparr>now := t\<rparr>) s = Returned ok s' \<Longrightarrow> P s'"
  using assms lifecycle [OF assms(1), of s'] keeps_write_resumed [OF assms]
  by (auto simp: WriteResponseCo_def writable_await_ready_def writable_await_suspend_def ArmWriteDeadline_def
      ClearWriteDeadline_def split: if_splits prod.splits)

lemma keeps_HandleConnectionCo:
  "running_ok s \<Longrightarrow> P s \<Longrightarrow> P (HandleConnectionCo (E\<lparr>now := t\<rparr>) p s)"
proof (induction "E\<lparr>now := t\<rparr>" p s rule: HandleConnectionCo.induct)
  case (1 s)
  show ?case
  proof (cases "should_close s")
    case True
    then show ?thesis using keeps_co_end(1) [OF "1.prems"(2)] by (simp only: HandleConnectionCo.simps(1) if_True)
  next
    case False
    from ReadRequestCo_cases [OF "1.prems"(1) False, of "E\<lparr>now := t\<rparr>"] show ?thesis
    proof (elim disjE exE conjE)
      fix s' assume "ReadRequestCo (E\<lparr>now := t\<rparr>) s = Suspended s'"
      with keeps_read(1) [OF "1.prems"(2,1) this] False show ?thesis by (simp add: HandleConnectionCo.simps(1))
    next
      fix ok s' assume r: "ReadRequestCo (E\<lparr>now := t\<rparr>) s = Returned ok s'" "running_ok s'"
      from "1.hyps" [OF False r] keeps_read(2) [OF "1.prems"(2,1) r(1)] False r(1)
      show ?thesis by (simp add: HandleConnectionCo.simps(1))
    qed
  qed
next
  case (3 s)
  show ?case
  proof (cases "HasPendingWrite s")
    case True
    from WriteResponseCo_cases [OF "3.prems"(1) True, of "E\<lparr>now := t\<rparr>"] show ?thesis
    proof (elim disjE exE conjE)
      fix s' assume "WriteResponseCo (E\<lparr>now := t\<rparr>) s = Suspended s'"
      with keeps_write(1) [OF "3.prems"(2,1) this] True show ?thesis by (simp add: HandleConnectionCo.simps(3))
    next
      fix ok s' assume r: "WriteResponseCo (E\<lparr>now := t\<rparr>) s = Returned ok s'" "running_ok s'"
      from "3.hyps"(1) [OF True r] keeps_write(2) [OF "3.prems"(2,1) r(1)] True r(1)
      show ?thesis by (simp add: HandleConnectionCo.simps(3))
    qed
  next
    case False
    with "3.hyps"(2) [OF False "3.prems"] show ?thesis by (simp add: HandleConnectionCo.simps(3))
  qed
qed (simp_all add: HandleConnectionCo.simps(2,4) keeps_co_end)

lemma keeps_resume:
  assumes "P s" and "running_ok s"
  shows "P (resume_co (E\<lparr>now := t\<rparr>) h s)"
proof (cases h)
  case AtReadable
  obtain ok s' where r: "ReadRequestCo_resumed (E\<lparr>now := t\<rparr>) s = (ok, s')" by fastforce
  with keeps_read_resumed [OF assms r] ReadRequestCo_resumed_running [OF assms(2) r] AtReadable keeps_HandleConnectionCo
  show ?thesis by (simp add: resume_co.simps)
next
  case AtWritable
  obtain ok s' where r: "WriteResponseCo_resumed (E\<lparr>now := t\<rparr>) s = (ok, s')" by fastforce
  with keeps_write_resumed [OF assms r] WriteResponseCo_resumed_running [OF assms(2) r] AtWritable keeps_HandleConnectionCo
  show ?thesis by (simp add: resume_co.simps)
qed

lemma keeps_ResumeReadWaiter:
  assumes "P s" and "read_waiter s = None \<or> running_ok (s\<lparr>read_waiter := None\<rparr>)"
  shows "P (ResumeReadWaiter (resume_co (E\<lparr>now := t\<rparr>)) s)"
  using assms keeps_resume lifecycle [OF assms(1), of "s\<lparr>read_waiter := None\<rparr>"]
  by (auto simp: ResumeReadWaiter_def split: option.split)

lemma keeps_ResumeWriteWaiter:
  assumes "P s" and "write_waiter s = None \<or> running_ok (s\<lparr>write_waiter := None\<rparr>)"
  shows "P (ResumeWriteWaiter (resume_co (E\<lparr>now := t\<rparr>)) s)"
  using assms keeps_resume lifecycle [OF assms(1), of "s\<lparr>write_waiter := None\<rparr>"]
  by (auto simp: ResumeWriteWaiter_def split: option.split)

lemma keeps_NotifyReadable:
  assumes "P s" and "parked s"
  shows "P (NotifyReadable (resume_co (E\<lparr>now := t\<rparr>)) s)"
proof -
  let ?s = "s\<lparr>read_ready := True, conn_state := kReading\<rparr>"
  have "P ?s" using assms(1) by (rule lifecycle) simp_all
  moreover have "read_waiter ?s = None \<or> running_ok (?s\<lparr>read_waiter := None\<rparr>)"
    using parked_waiters(1) [OF assms(2)] by (auto simp: running_ok_def)
  ultimately show ?thesis unfolding NotifyReadable_def by (rule keeps_ResumeReadWaiter)
qed

lemma keeps_NotifyWritable:
  assumes "P s" and "parked s"
  shows "P (NotifyWritable (resume_co (E\<lparr>now := t\<rparr>)) s)"
proof -
  let ?s = "s\<lparr>write_ready := True, conn_state := kWriting\<rparr>"
  have "P ?s" using assms(1) by (rule lifecycle) simp_all
  moreover have "write_waiter ?s = None \<or> running_ok (?s\<lparr>write_waiter := None\<rparr>)"
    using parked_waiters(2) [OF assms(2)] by (auto simp: running_ok_def)
  ultimately show ?thesis unfolding NotifyWritable_def by (rule keeps_ResumeWriteWaiter)
qed

lemma keeps_closing: "P s \<Longrightarrow> P (MarkClosing (resume_co E') s)" "P s \<Longrightarrow> P (EnterError (resume_co E') m s)"
  by (erule lifecycle;
      simp add: MarkClosing_def EnterError_def Let_def ClearReadDeadline_def ClearWriteDeadline_def io_part_wake)+

lemma keeps_Tick: "P s \<Longrightarrow> P (Tick (resume_co E') t s)"
  by (simp add: Tick_def keeps_closing split: option.split)

lemma keeps_HangUp:
  assumes "P s" and "parked s"
  shows "P (conn_step (E\<lparr>now := t\<rparr>) HangUp s)"
  using assms by (simp add: keeps_NotifyWritable keeps_NotifyReadable keeps_closing MarkClosing_finishes NotifyReadable_parks)

lemmas keeps_step = keeps_NotifyReadable keeps_NotifyWritable keeps_HangUp keeps_Tick

end

section \<open>Properties\<close>

text \<open>
  C5: the life-cycle invariant of a connection. In every state that a connection can reach, the
  coroutine is suspended on exactly one awaiter, waiting for data with the read deadline armed or
  waiting to send non-empty output with the write deadline armed, or it has finished and the
  connection is marked for closing; a failed coroutine has finished; the output queue and its
  counter agree and respect the limit; and no coroutine handle was ever resumed while its coroutine
  was running.
\<close>

theorem connection_lifecycle:
  assumes "conn_reach E (conn_task_make token reg opts d w) evs s"
  shows "(task_done s \<longleftrightarrow> read_waiter s = None \<and> write_waiter s = None)
    \<and> (task_done s \<longrightarrow> should_close s)
    \<and> (\<not> coroutine_ok s \<longrightarrow> task_done s)
    \<and> (read_waiter s \<noteq> None \<longrightarrow> write_waiter s = None \<and> read_deadline s \<noteq> None \<and> \<not> should_close s)
    \<and> (write_waiter s \<noteq> None \<longrightarrow> HasPendingWrite s \<and> write_deadline s \<noteq> None \<and> \<not> should_close s)
    \<and> pending_write_bytes s = length (pending_data s)
    \<and> pending_write_bytes s \<le> max_write_buffer_bytes (options s)
    \<and> \<not> resumed_running s"
  using conn_reach_parked [OF assms]
  by (auto simp: parked_def at_readable_def at_writable_def finished_def io_ok_def write_ok_def)

theorem connection_lifecycle_witness:
  "let s = conn_step (sample_env\<lparr>now := 7\<rparr>) HangUp
             (StartConnectionCoroutine sample_env (conn_task_make 1 sample_registry Options_default None ()))
   in task_done s \<and> should_close s \<and> \<not> resumed_running s"
proof -
  let ?s0 = "conn_task_make 1 sample_registry Options_default None ()"
  let ?s1 = "StartConnectionCoroutine sample_env ?s0"
  let ?s2 = "conn_step (sample_env\<lparr>now := 7\<rparr>) HangUp ?s1"
  have r1: "conn_reach sample_env ?s0 [] ?s1" by (rule conn_reach.start)
  then have r2: "conn_reach sample_env ?s0 ([] @ [HangUp]) ?s2" by (rule conn_reach.event)
  have "finished (MarkClosing (resume_co (sample_env\<lparr>now := 7\<rparr>)) ?s1)"
    using MarkClosing_finishes [OF conn_reach_parked [OF r1]] by blast
  then have "read_waiter ?s2 = None" "write_waiter ?s2 = None"
    by (simp_all add: NotifyReadable_def NotifyWritable_def ResumeReadWaiter_def ResumeWriteWaiter_def finished_def)
  with connection_lifecycle [OF r2] show ?thesis by (simp add: Let_def)
qed

text \<open>
  C6: closing a connection never blocks the worker. The sequence of \<open>CloseConnection\<close> (mark closing,
  then notify both waiters) brings the coroutine to its end from every reachable state, so the
  \<open>task->Get()\<close> that follows finds the task completed; and it resumes nothing afterwards.
\<close>

theorem closing_completes_coroutine:
  assumes "conn_reach E (conn_task_make token reg opts d w) evs s"
  shows "task_done (conn_step E' HangUp s) \<and> read_waiter (conn_step E' HangUp s) = None
    \<and> write_waiter (conn_step E' HangUp s) = None \<and> \<not> resumed_running (conn_step E' HangUp s)"
proof -
  have "finished (MarkClosing (resume_co E') s)" "parked (MarkClosing (resume_co E') s)"
    using MarkClosing_finishes [OF conn_reach_parked [OF assms]] by blast+
  then show ?thesis
    by (simp add: NotifyReadable_def NotifyWritable_def ResumeReadWaiter_def ResumeWriteWaiter_def finished_def parked_def)
qed

theorem closing_completes_coroutine_witness:
  "task_done (conn_step sample_env HangUp
     (StartConnectionCoroutine sample_env (conn_task_make 1 sample_registry Options_default None ())))"
  by (rule closing_completes_coroutine [OF conn_reach.start, THEN conjunct1])

text \<open>
  C8: timeouts. A connection that waits for data past its read deadline, or to send past its write
  deadline, is put into the error state with the reason recorded, and its coroutine ends without
  reporting a failure of its own; before the deadlines a tick changes nothing.
\<close>

theorem timeout_closes_connection:
  assumes "conn_reach E (conn_task_make token reg opts d w) evs s" and "\<not> should_close s" and "conn_state s \<noteq> kError"
    and "conn_state s \<noteq> kClosed"
  shows "((\<exists>x. read_deadline s = Some x \<and> t \<ge> x) \<or> (\<exists>x. write_deadline s = Some x \<and> t \<ge> x) \<longrightarrow>
      (let u = Tick (resume_co E') t s in
        should_close u \<and> conn_state u = kError \<and> task_done u \<and> coroutine_ok u
        \<and> last_error u = (if \<exists>x. read_deadline s = Some x \<and> t \<ge> x then ''read timeout'' else ''write timeout'')))
    \<and> (\<not> ((\<exists>x. read_deadline s = Some x \<and> t \<ge> x) \<or> (\<exists>x. write_deadline s = Some x \<and> t \<ge> x)) \<longrightarrow>
      Tick (resume_co E') t s = s)"
proof -
  have p: "parked s" by (rule conn_reach_parked [OF assms(1)])
  with assms(2) have "coroutine_ok s" by (auto simp: parked_def at_readable_def at_writable_def finished_def)
  with EnterError_finishes [OF p, where E = E' and m = "''read timeout''"]
    EnterError_finishes [OF p, where E = E' and m = "''write timeout''"] assms
  show ?thesis
    by (auto simp: Tick_def Let_def finished_def split: option.split)
qed

lemma StartConnectionCoroutine_fresh:
  "StartConnectionCoroutine E (conn_task_make token reg opts d w) =
     (conn_task_make token reg opts d w)\<lparr>read_waiter := Some AtReadable, conn_state := kReading,
        read_deadline := Some (now E + read_timeout opts)\<rparr>"
  by (simp add: StartConnectionCoroutine_def HandleConnectionCo.simps(1) ReadRequestCo_def readable_await_ready_def
      readable_await_suspend_def ArmReadDeadline_def conn_task_make_def Connection_make_def connection.defs)

theorem timeout_closes_connection_witness:
  "let s = StartConnectionCoroutine sample_env (conn_task_make 1 sample_registry Options_default None ())
   in last_error (Tick (resume_co sample_env) (ms 5000) s) = ''read timeout''
    \<and> Tick (resume_co sample_env) (ms 4999) s = s"
proof -
  let ?s = "StartConnectionCoroutine sample_env (conn_task_make 1 sample_registry Options_default None ())"
  have st: "\<not> should_close ?s" "conn_state ?s = kReading" "read_deadline ?s = Some (ms 5000)" "write_deadline ?s = None"
    by (simp_all add: StartConnectionCoroutine_fresh) (simp_all add: conn_task_make_def Connection_make_def
        connection.defs Options_default_def sample_env_def)
  have "conn_reach sample_env (conn_task_make 1 sample_registry Options_default None ()) [] ?s"
    by (rule conn_reach.start)
  note inst = timeout_closes_connection [OF this, where E' = sample_env]
  have "last_error (Tick (resume_co sample_env) (ms 5000) ?s) = ''read timeout''"
    using inst [of "ms 5000"] st by (simp add: Let_def)
  moreover have "Tick (resume_co sample_env) (ms 4999) ?s = ?s"
    using inst [of "ms 4999"] st by (simp add: ms_def)
  ultimately show ?thesis by (simp add: Let_def)
qed

end
