(* ===== verification/Connection_Stream.thy ===== *)
theory Connection_Stream
  imports Connection_Life
begin

text \<open>
  The contract of a connection as a client sees it: bytes in, bytes out. Whatever the network, the
  readiness events and the clock do, the bytes that a connection without dispatcher sends are the
  encoded answers to the complete requests it has received, in order.
\<close>

section \<open>Bytes of a run\<close>

fun net_bytes :: "recv_event \<Rightarrow> string" where
  "net_bytes (Arrive bs) = bs"
| "net_bytes PeerClose = []"
| "net_bytes (RecvError e) = []"

definition rx_bytes :: "rx_script \<Rightarrow> string" where
  "rx_bytes es = concat (map net_bytes es)"

fun arrived :: "conn_event list \<Rightarrow> string" where
  "arrived [] = []"
| "arrived (NetIn e # evs) = net_bytes e @ arrived evs"
| "arrived (_ # evs) = arrived evs"

definition reply_bytes :: "conn_env \<Rightarrow> ServiceRegistry \<Rightarrow> string \<Rightarrow> string" where
  "reply_bytes E reg body = encode (the (SerializeToArray (rsp_pb E) (answer E reg body)))"

lemma rx_bytes_split: "rx_bytes es = rx_stream es @ rx_bytes (rx_after es)"
  by (induction es rule: rx_after.induct) (auto simp: rx_bytes_def)

lemma arrived_append: "arrived (evs @ [ev]) = arrived evs @ arrived [ev]"
proof (induction evs)
  case (Cons a evs)
  then show ?case by (cases a) simp_all
qed simp

lemma fst_frames_append:
  "k \<le> length (fst (frames s)) \<Longrightarrow> take k (fst (frames (s @ t))) = take k (fst (frames s))
     \<and> k \<le> length (fst (frames (s @ t)))"
  by (auto simp: frames_append [of s t] split: prod.split bool.split)

section \<open>The invariant\<close>

text \<open>
  Of the bytes \<open>inp\<close> that the network has delivered, \<open>rd\<close> have been read; the answers to the first
  \<open>k\<close> of the frames in \<open>rd\<close> have been sent or are queued. Unless the connection is to be closed, these
  are all the complete frames, and what is left over is in the read buffer.
\<close>

definition served :: "conn_env \<Rightarrow> ServiceRegistry \<Rightarrow> string \<Rightarrow> 'w conn_task \<Rightarrow> bool" where
  "served E reg inp s \<longleftrightarrow> request_dispatcher s = None \<and> registry s = reg \<and>
     (\<exists>rd k. inp = rd @ rx_bytes (rx_sock s) \<and> k \<le> length (fst (frames rd))
       \<and> sent s @ pending_data s = concat (map (reply_bytes E reg) (take k (fst (frames rd))))
       \<and> (\<not> should_close s \<longrightarrow> frames rd = (take k (fst (frames rd)), peek_string_view (read_buffer s), True)))"

lemma servedI:
  assumes "request_dispatcher s = None" and "registry s = reg" and "inp = rd @ rx_bytes (rx_sock s)"
    and "k \<le> length (fst (frames rd))"
    and "sent s @ pending_data s = concat (map (reply_bytes E reg) (take k (fst (frames rd))))"
    and "\<not> should_close s \<Longrightarrow> frames rd = (take k (fst (frames rd)), peek_string_view (read_buffer s), True)"
  shows "served E reg inp s"
  unfolding served_def using assms by blast

lemma io_part_fields:
  assumes "io_part s' = io_part s"
  shows "request_dispatcher s' = request_dispatcher s" "registry s' = registry s" "rx_sock s' = rx_sock s"
    "sent s' = sent s" "write_buffer s' = write_buffer s" "read_buffer s' = read_buffer s"
  using arg_cong [OF assms, of request_dispatcher] arg_cong [OF assms, of registry] arg_cong [OF assms, of rx_sock]
    arg_cong [OF assms, of sent] arg_cong [OF assms, of write_buffer] arg_cong [OF assms, of read_buffer]
  by (simp_all add: io_part_def connection.defs)

lemma served_lifecycle:
  "served E reg inp s \<Longrightarrow> io_part s' = io_part s \<Longrightarrow> (should_close s \<longrightarrow> should_close s') \<Longrightarrow> served E reg inp s'"
  using io_part_fields [of s' s] unfolding served_def pending_data_def by metis

lemma answer_now [simp]: "answer (E\<lparr>now := t\<rparr>) = answer E" "reply_chunk (E\<lparr>now := t\<rparr>) = reply_chunk E"
  by (simp_all add: fun_eq_iff answer_def reply_chunk_def)

lemma reply_chunk_bytes: "concat (map (chunk_rest \<circ> (reply_chunk E \<circ> answer E reg)) bs) = concat (map (reply_bytes E reg) bs)"
  by (simp add: comp_def chunk_rest_def reply_chunk_def reply_bytes_def [abs_def])

text \<open>The parts of a connection that a readable event changes or keeps.\<close>

lemma OnReadable_io:
  assumes "buffer_ok (read_buffer s)" and "read_waiter s = None" and "write_waiter s = None"
    and "OnReadable resume E s = (ok, u)"
  shows "rx_sock u = rx_after (rx_sock s) \<and> sent u = sent s \<and> registry u = registry s
    \<and> request_dispatcher u = request_dispatcher s
    \<and> (rx_verdict (rx_sock s) \<notin> {RecvFail EAGAIN, RecvFail EWOULDBLOCK} \<longrightarrow> write_buffer u = write_buffer s \<and> should_close u)"
proof -
  obtain r s1 where rd: "ReadFromSocket s = (r, s1)" by fastforce
  have rx: "rx_sock s1 = rx_after (rx_sock s)"
    and v: "r = kWouldBlock \<or> r = kData \<longleftrightarrow> rx_verdict (rx_sock s) \<in> {RecvFail EAGAIN, RecvFail EWOULDBLOCK}"
    using ReadFromSocket_drains [OF assms(1) rd] by blast+
  note f1 = read_side_onlyD(2,3,5,10,11,16) [OF ReadFromSocket_frame [OF rd]]
  obtain k s2 where pr: "TryParseRequests E s1 = (k, s2)" by fastforce
  note f2 = parse_side_onlyD(1,3,4,6,11,12) [OF TryParseRequests_frame [OF pr]]
  show ?thesis
  proof (cases r)
    case kData
    then have "rx_verdict (rx_sock s) \<in> {RecvFail EAGAIN, RecvFail EWOULDBLOCK}" using v by blast
    moreover have "u = (if k then s2\<lparr>conn_state := kOpen\<rparr> else EnterError resume (error_or ''parse/process error'' s2) s2)"
      using kData assms(4) rd pr by (simp add: OnReadable_def split: bool.splits)
    moreover have "read_waiter s2 = None" "write_waiter s2 = None" using f1 f2 assms(2,3) by simp_all
    ultimately show ?thesis using f1 f2 rx by (simp add: EnterError_running)
  next
    case kWouldBlock
    then have "rx_verdict (rx_sock s) \<in> {RecvFail EAGAIN, RecvFail EWOULDBLOCK}" using v by blast
    with kWouldBlock assms(4) rd f1 rx show ?thesis by (simp add: OnReadable_def)
  next
    case kPeerClosed
    with assms(4) rd f1 rx show ?thesis by (auto simp: OnReadable_def)
  next
    case kReadError
    have "read_waiter s1 = None" "write_waiter s1 = None" using f1 assms(2,3) by simp_all
    with kReadError assms(4) rd f1 rx show ?thesis by (auto simp: OnReadable_def EnterError_running)
  qed
qed

lemma served_on_readable:
  assumes "served E reg inp s" and "running_ok s" and "\<not> should_close s"
    and "OnReadable resume_self (E\<lparr>now := t\<rparr>) s = (ok, u)"
  shows "served E reg inp u"
proof -
  have w: "buffer_ok (read_buffer s)" "read_waiter s = None" "write_waiter s = None"
    using assms(2) by (auto simp: running_ok_def io_ok_def)
  note io = OnReadable_io [OF w assms(4)]
  obtain rd bs0 where rd: "inp = rd @ rx_bytes (rx_sock s)"
      "sent s @ pending_data s = concat (map (reply_bytes E reg) bs0)"
      "frames rd = (bs0, peek_string_view (read_buffer s), True)"
      and cfg: "request_dispatcher s = None" "registry s = reg"
    using assms(1,3) unfolding served_def by blast
  let ?rd = "rd @ rx_stream (rx_sock s)"
  have inp: "inp = ?rd @ rx_bytes (rx_sock u)" using rd(1) io rx_bytes_split [of "rx_sock s"] by simp
  have cfg': "request_dispatcher u = None" "registry u = reg" using io cfg by simp_all
  obtain bs rest fok where fr: "frames (peek_string_view (read_buffer s) @ rx_stream (rx_sock s)) = (bs, rest, fok)"
    by (metis prod_cases3)
  have all: "frames ?rd = (bs0 @ bs, rest, fok)"
    unfolding frames_append [of rd] rd(3) using fr by simp
  show ?thesis
  proof (cases "rx_verdict (rx_sock s) \<in> {RecvFail EAGAIN, RecvFail EWOULDBLOCK}")
    case False
    then have "write_buffer u = write_buffer s" "should_close u" "sent u = sent s" using io by blast+
    with rd(2) all show ?thesis by (intro servedI [OF cfg' inp, of "length bs0"]) (simp_all add: pending_data_def)
  next
    case True
    obtain hok h where h: "handle_all (E\<lparr>now := t\<rparr>) bs s = (hok, h)" "ok \<longleftrightarrow> hok \<and> fok" "write_buffer u = write_buffer h"
        "ok \<longrightarrow> peek_string_view (read_buffer u) = rest" "\<not> ok \<longrightarrow> should_close u"
      using OnReadable_outcome [OF w(1) True w(2,3) fr assms(4)] by blast
    obtain k where k: "k \<le> length bs" "hok \<longleftrightarrow> k = length bs"
        "write_buffer h = write_buffer s @ map (reply_chunk E \<circ> answer E reg) (take k bs)"
      using handle_all_prefix_answers [OF cfg(1) h(1)] cfg(2) by auto
    have "pending_data u = pending_data s @ concat (map (reply_bytes E reg) (take k bs))"
      using h(3) k(3) by (simp add: pending_data_def reply_chunk_bytes)
    then show ?thesis
      using io rd(2) all h k by (intro servedI [OF cfg' inp, of "length bs0 + k"]) auto
  qed
qed

lemma served_on_writable:
  assumes "served E reg inp s" and "running_ok s" and "OnWritable resume_self (E\<lparr>now := t\<rparr>) s = (ok, u)"
  shows "served E reg inp u"
proof -
  obtain k s1 where fl: "FlushWrites (E\<lparr>now := t\<rparr>) s = (k, s1)" by fastforce
  have w: "write_ok s" "read_waiter s = None" "write_waiter s = None" using assms(2) by (auto simp: running_ok_def io_ok_def)
  note f = send_side_onlyD [OF FlushWrites_frame [OF fl]]
  have "served E reg inp s1"
    using assms(1) f FlushWrites_conserves [OF w(1) fl] unfolding served_def by simp
  moreover have "io_part u = io_part s1 \<and> (should_close s1 \<longrightarrow> should_close u)"
    using assms(3) fl f(10,11) w
    by (cases k; cases "HasPendingWrite s1")
      (auto simp: OnWritable_def EnterError_running ClearWriteDeadline_def ArmWriteDeadline_def)
  ultimately show ?thesis by (auto intro: served_lifecycle)
qed

interpretation served: conn_invariant E "served E reg inp" for E reg inp
  by unfold_locales (auto intro: served_lifecycle served_on_readable served_on_writable)

section \<open>Runs\<close>

lemma served_net_in: "served E reg inp s \<Longrightarrow> served E reg (inp @ net_bytes e) (s\<lparr>rx_sock := rx_sock s @ [e]\<rparr>)"
  unfolding served_def by (auto simp: rx_bytes_def pending_data_def)

lemma served_net_out: "served E reg inp s \<Longrightarrow> served E reg inp (s\<lparr>tx_sock := ss\<rparr>)"
  unfolding served_def by (simp add: pending_data_def)

lemma served_step:
  assumes "served E reg inp s" and "parked s" and "\<forall>r. ev \<noteq> Respond r"
  shows "served E reg (inp @ arrived [ev]) (conn_step (E\<lparr>now := t\<rparr>) ev s)"
  using assms
proof (cases ev)
  case (NetIn e)
  then show ?thesis using served_net_in [OF assms(1)] by simp
qed (auto simp: served_net_out served.keeps_step simp del: conn_step.simps(5))

lemma served_start: "served E reg [] (StartConnectionCoroutine E (conn_task_make token reg opts None w))"
proof -
  have "frames [] = ([], [], True)" by (rule frames_cases(1)) (simp add: next_frame_def kFrameHeaderBytes_def)
  then show ?thesis unfolding StartConnectionCoroutine_fresh
    by (intro servedI [of _ _ _ "[]" 0])
      (simp_all add: conn_task_make_def Connection_make_def connection.defs rx_bytes_def pending_data_def)
qed

lemma conn_reach_served:
  assumes "conn_reach E (conn_task_make token reg opts None w) evs s" and "\<forall>r. Respond r \<notin> set evs"
  shows "served E reg (arrived evs) s"
  using assms
proof induction
  case start
  show ?case using served_start by simp
next
  case (event evs s ev t)
  then show ?case unfolding arrived_append by (intro served_step) (auto simp: conn_reach_parked)
qed



end
