(* ===== verification/Connection_Serve.thy ===== *)
theory Connection_Serve
  imports Connection_Life
begin

text \<open>
  \<open>Connection::Serve\<close> of \<open>server/connection.cpp\<close>: the loop that serves one client on the calling thread, without epoll. It
  polls the non-blocking socket, so it runs for ever while the client neither sends nor closes: not returning is \<^const>\<open>None\<close>.
\<close>

section \<open>The loop\<close>

text \<open>\<open>E i\<close> is what turn \<open>i\<close> takes from outside.\<close>

partial_function (option) Serve_loop ::
    "('w, 'z) resume_fn \<Rightarrow> (nat \<Rightarrow> conn_env) \<Rightarrow> nat \<Rightarrow> ('w, 'z) connection_scheme \<Rightarrow> (bool \<times> ('w, 'z) connection_scheme) option" where
  "Serve_loop resume E i s =
     (case OnReadable resume (E i) s of
        (ok, s1) \<Rightarrow>
          if \<not> ok then Some (False, s1)
          else if should_close s1 then Some (True, s1)
          else if \<not> HasPendingWrite s1 then Serve_loop resume E (Suc i) s1
          else (case OnWritable resume (E i) s1 of
                  (wok, s2) \<Rightarrow> if \<not> wok then Some (False, s2) else Serve_loop resume E (Suc i) s2))"

declare Serve_loop.simps [code]

text \<open>The two calls of \<open>fcntl\<close>: the first fails, the flag is set already, or the second one sets it or fails.\<close>

datatype fcntl_outcome = GetFlagsFails | AlreadyNonBlocking | SetFlagsFails | SetNonBlocking

definition Serve ::
    "fcntl_outcome \<Rightarrow> ('w, 'z) resume_fn \<Rightarrow> (nat \<Rightarrow> conn_env) \<Rightarrow> ('w, 'z) connection_scheme \<Rightarrow> (bool \<times> ('w, 'z) connection_scheme) option" where
  "Serve f resume E s =
     (if f = GetFlagsFails \<or> f = SetFlagsFails then Some (False, s) else Serve_loop resume E 0 s)"

section \<open>One turn\<close>

lemma rx_after_smaller:
  "PeerClose \<in> set es \<Longrightarrow> rx_verdict es \<noteq> Eof \<Longrightarrow> rx_size (rx_after es) < rx_size es \<and> PeerClose \<in> set (rx_after es)"
proof (induction es rule: rx_after.induct)
  case (2 bs es)
  then show ?case by auto
next
  case (4 e es)
  then show ?case by (cases "e = EINTR") auto
qed auto

lemma OnReadable_open:
  assumes "io_ok s" and "OnReadable resume E s = (True, s1)" and "\<not> should_close s1"
  shows "io_ok s1" "rx_sock s1 = rx_after (rx_sock s)" "rx_verdict (rx_sock s) \<noteq> Eof"
proof -
  obtain r t where rd: "ReadFromSocket s = (r, t)" by fastforce
  have b: "buffer_ok (read_buffer s)" using assms(1) by (simp add: io_ok_def)
  note drains = ReadFromSocket_drains [OF b rd]
  have t: "io_ok t" using io_ok_read_side [OF assms(1) rd] .
  obtain k u where pr: "TryParseRequests E t = (k, u)" by fastforce
  have u: "io_ok u" "rx_sock u = rx_sock t" using io_ok_parse [OF t pr] parse_side_onlyD [OF TryParseRequests_frame [OF pr]] by simp_all
  have "r = kWouldBlock \<and> s1 = t \<or> r = kData \<and> s1 = u\<lparr>conn_state := kOpen\<rparr>"
    using assms(2,3) rd pr by (auto simp: OnReadable_def split: ReadResult.splits bool.splits)
  with t u drains show "io_ok s1" "rx_sock s1 = rx_after (rx_sock s)" "rx_verdict (rx_sock s) \<noteq> Eof" by auto
qed

lemma OnWritable_open:
  assumes "io_ok s" and "OnWritable resume E s = (True, s1)"
  shows "io_ok s1" "rx_sock s1 = rx_sock s"
proof -
  obtain k t where fl: "FlushWrites E s = (k, t)" by fastforce
  have t: "io_ok t" "rx_sock t = rx_sock s"
    using assms(1) FlushWrites_conserves [OF _ fl] send_side_onlyD [OF FlushWrites_frame [OF fl]] by (simp_all add: io_ok_def)
  moreover have "s1 = (ClearWriteDeadline t)\<lparr>conn_state := kOpen\<rparr> \<or> s1 = ArmWriteDeadline E t"
    using assms(2) fl by (auto simp: OnWritable_def split: bool.splits if_splits)
  ultimately show "io_ok s1" "rx_sock s1 = rx_sock s" by (auto simp: ClearWriteDeadline_def ArmWriteDeadline_def)
qed

section \<open>Serving ends\<close>

lemma Serve_loop_returns:
  "io_ok s \<Longrightarrow> PeerClose \<in> set (rx_sock s) \<Longrightarrow> \<exists>b s'. Serve_loop resume E i s = Some (b, s') \<and> (b \<longrightarrow> should_close s')"
proof (induction "rx_size (rx_sock s)" arbitrary: s i rule: less_induct)
  case less
  obtain ok s1 where r: "OnReadable resume (E i) s = (ok, s1)" by fastforce
  consider "\<not> ok" | "ok" "should_close s1" | "ok" "\<not> should_close s1" by blast
  then show ?case
  proof cases
    case 1
    with r have "Serve_loop resume E i s = Some (False, s1)" by (subst Serve_loop.simps) simp
    then show ?thesis by blast
  next
    case 2
    with r have "Serve_loop resume E i s = Some (True, s1)" by (subst Serve_loop.simps) simp
    with 2 show ?thesis by blast
  next
    case 3
    then have rd: "OnReadable resume (E i) s = (True, s1)" using r by simp
    note s1 = OnReadable_open [OF less.prems(1) rd 3(2)]
    have rx: "rx_size (rx_sock s1) < rx_size (rx_sock s)" "PeerClose \<in> set (rx_sock s1)"
      using rx_after_smaller [OF less.prems(2) s1(3)] by (simp_all add: s1(2))
    show ?thesis
    proof (cases "HasPendingWrite s1")
      case False
      with 3 r have "Serve_loop resume E i s = Serve_loop resume E (Suc i) s1" by (subst Serve_loop.simps) simp
      with less.hyps [OF rx(1) s1(1) rx(2)] show ?thesis by simp
    next
      case True
      obtain wok s2 where w: "OnWritable resume (E i) s1 = (wok, s2)" by fastforce
      show ?thesis
      proof (cases wok)
        case wok: True
        note s2 = OnWritable_open [OF s1(1), of resume "E i" s2]
        have "Serve_loop resume E i s = Serve_loop resume E (Suc i) s2" using 3 r True w wok by (subst Serve_loop.simps) simp
        moreover have "\<exists>b s'. Serve_loop resume E (Suc i) s2 = Some (b, s') \<and> (b \<longrightarrow> should_close s')"
          using less.hyps [of s2] s2 w wok rx by simp
        ultimately show ?thesis by simp
      next
        case False
        with 3 r True w have "Serve_loop resume E i s = Some (False, s2)" by (subst Serve_loop.simps) simp
        then show ?thesis by blast
      qed
    qed
  qed
qed

text \<open>
  C39: \<open>Serve\<close> returns once the client closes its side, however many reads would block before, whatever the requests
  are and however slowly the responses can be sent. It returns true only for a connection that is to be closed.
\<close>

theorem Serve_terminates:
  assumes "rx = before @ PeerClose # after"
  shows "\<exists>b s. Serve f resume E (Connection_make reg opts rx tx w) = Some (b, s) \<and> (b \<longrightarrow> should_close s)"
proof -
  have "io_ok (Connection_make reg opts rx tx w)"
    by (simp add: io_ok_def Connection_make_def buffer_ok_make write_ok_def pending_data_def)
  moreover have "PeerClose \<in> set (rx_sock (Connection_make reg opts rx tx w))" using assms by (simp add: Connection_make_def)
  ultimately show ?thesis using Serve_loop_returns by (auto simp: Serve_def)
qed

theorem Serve_terminates_witness:
  "\<exists>b s. Serve AlreadyNonBlocking (\<lambda>h s. s) (\<lambda>i. sample_env) (Connection_make sample_registry Options_default [RecvError EAGAIN, PeerClose] [] ()) = Some (b, s)
       \<and> (b \<longrightarrow> should_close s)"
  by (rule Serve_terminates [where before = "[RecvError EAGAIN]" and after = "[]"]) simp

end
