(* ===== verification/Pending_Calls.thy ===== *)
theory Pending_Calls
  imports Rpc_Error "HOL-Library.Multiset"
begin

text \<open>
  \<open>src/client/pending_calls.h\<close> and \<open>src/client/pending_calls.cpp\<close>: the table of calls that wait for
  their response, keyed by request id. Every operation holds the mutex while it works on the table
  and performs the wake-ups it has collected after releasing it: an operation maps the table to a
  return value, the wake-ups in their order, and the new table. Promises and suspended coroutines are
  named by numbers.
\<close>

section \<open>The table\<close>

record Slot =
  slot_done :: bool
  slot_result :: RpcCallResult
  async_promise :: "nat option"
  async_bound :: bool
  coroutine_handle :: "nat option"
  coroutine_bound :: bool
  slot_deadline :: time_point

definition Slot_init :: Slot where
  "Slot_init = \<lparr>slot_done = False, slot_result = uninitialized_result, async_promise = None, async_bound = False,
     coroutine_handle = None, coroutine_bound = False, slot_deadline = 0\<rparr>"

type_synonym slots = "(string \<times> Slot) list"

text \<open>
  What happens to a waiter: its promise gets a value, its promise is destroyed without one (the
  future then reports \<open>broken_promise\<close>), its coroutine is resumed, or its coroutine handle is dropped
  with the slot and nobody will resume it.
\<close>

datatype wakeup =
    SetValue nat RpcCallResult
  | BrokenPromise nat
  | Resume nat
  | DroppedHandle nat

datatype BindCoroutineStatus = kBound | kAlreadyDone | kNotFound | kAlreadyBound

text \<open>Destroying a slot destroys the promise and drops the handle it still holds.\<close>

definition destroy_slot :: "Slot \<Rightarrow> wakeup list" where
  "destroy_slot s =
     (case async_promise s of Some p \<Rightarrow> [BrokenPromise p] | None \<Rightarrow> [])
   @ (case coroutine_handle s of Some h \<Rightarrow> [DroppedHandle h] | None \<Rightarrow> [])"

section \<open>Operations\<close>

definition Add :: "string \<Rightarrow> slots \<Rightarrow> bool \<times> slots" where
  "Add request_id m =
     (if request_id = [] then (False, m)
      else if request_id \<in> set (keys m) then (False, m)
      else (True, m @ [(request_id, Slot_init)]))"

definition BindAsync :: "string \<Rightarrow> nat \<Rightarrow> time_point \<Rightarrow> slots \<Rightarrow> bool \<times> wakeup list \<times> slots" where
  "BindAsync request_id promise dl m =
     (case map_of m request_id of
        None \<Rightarrow> (False, [BrokenPromise promise], m)
      | Some s \<Rightarrow>
          (if async_bound s then (False, [BrokenPromise promise], m)
           else if coroutine_bound s then (False, [BrokenPromise promise], m)
           else if slot_done s then (True, SetValue promise (slot_result s) # destroy_slot s, erase_key request_id m)
           else (True, [], put_key request_id
                   (s\<lparr>async_promise := Some promise, async_bound := True, slot_deadline := dl\<rparr>) m)))"

definition BindCoroutine :: "string \<Rightarrow> nat \<Rightarrow> time_point \<Rightarrow> slots \<Rightarrow> BindCoroutineStatus \<times> slots" where
  "BindCoroutine request_id handle dl m =
     (case map_of m request_id of
        None \<Rightarrow> (kNotFound, m)
      | Some s \<Rightarrow>
          (if coroutine_bound s then (kAlreadyBound, m)
           else if async_bound s then (kAlreadyBound, m)
           else if slot_done s then (kAlreadyDone, m)
           else (kBound, put_key request_id
                   (s\<lparr>coroutine_handle := Some handle, coroutine_bound := True, slot_deadline := dl\<rparr>) m)))"

definition Complete :: "string \<Rightarrow> RpcCallResult \<Rightarrow> slots \<Rightarrow> bool \<times> wakeup list \<times> slots" where
  "Complete request_id res m =
     (case map_of m request_id of
        None \<Rightarrow> (False, [], m)
      | Some s \<Rightarrow>
          (if slot_done s then (False, [], m)
           else let s1 = s\<lparr>slot_done := True, slot_result := res\<rparr> in
             (case async_promise s1 of
                Some p \<Rightarrow> (True, destroy_slot (s1\<lparr>async_promise := None\<rparr>) @ [SetValue p (slot_result s1)],
                           erase_key request_id m)
              | None \<Rightarrow>
                  (if coroutine_bound s1 \<and> coroutine_handle s1 \<noteq> None
                   then (True, [Resume (the (coroutine_handle s1))],
                         put_key request_id (s1\<lparr>coroutine_bound := False, coroutine_handle := None\<rparr>) m)
                   else (True, [], put_key request_id s1 m)))))"

text \<open>
  \<open>WaitAndPop\<close> up to the wait, and from the wake-up on. The wait keeps a reference to the slot: if
  the slot is gone when the thread wakes up, the predicate of the wait reads freed memory.
\<close>

datatype wait_result = Blocks | Popped "RpcCallResult option" | UseAfterFree

definition pop_slot :: "string \<Rightarrow> Slot \<Rightarrow> slots \<Rightarrow> wait_result \<times> wakeup list \<times> slots" where
  "pop_slot request_id s m = (Popped (Some (slot_result s)), destroy_slot s, erase_key request_id m)"

definition WaitAndPop_enter :: "string \<Rightarrow> slots \<Rightarrow> wait_result \<times> wakeup list \<times> slots" where
  "WaitAndPop_enter request_id m =
     (case map_of m request_id of
        None \<Rightarrow> (Popped None, [], m)
      | Some s \<Rightarrow> if \<not> slot_done s then (Blocks, [], m) else pop_slot request_id s m)"

definition WaitAndPop_wake :: "string \<Rightarrow> bool \<Rightarrow> slots \<Rightarrow> wait_result \<times> wakeup list \<times> slots" where
  "WaitAndPop_wake request_id timed_out m =
     (case map_of m request_id of
        None \<Rightarrow> (UseAfterFree, [], m)
      | Some s \<Rightarrow> if slot_done s then pop_slot request_id s m
                  else if timed_out then (Popped None, [], m)
                  else (Blocks, [], m))"

definition TryPop :: "string \<Rightarrow> slots \<Rightarrow> RpcCallResult option \<times> wakeup list \<times> slots" where
  "TryPop request_id m =
     (case map_of m request_id of
        None \<Rightarrow> (None, [], m)
      | Some s \<Rightarrow> if \<not> slot_done s then (None, [], m)
                  else (Some (slot_result s), destroy_slot s, erase_key request_id m))"

definition Remove :: "string \<Rightarrow> slots \<Rightarrow> wakeup list \<times> slots" where
  "Remove request_id m =
     (case map_of m request_id of
        None \<Rightarrow> ([], m)
      | Some s \<Rightarrow> (destroy_slot s, erase_key request_id m))"

text \<open>Taking the promise and the handle out of a slot, as the two loops do.\<close>

definition take_promise :: "Slot \<Rightarrow> (nat \<times> RpcCallResult) list \<times> Slot" where
  "take_promise s =
     (case async_promise s of
        Some p \<Rightarrow> ([(p, slot_result s)], s\<lparr>async_promise := None\<rparr>)
      | None \<Rightarrow> ([], s))"

definition take_handle :: "Slot \<Rightarrow> nat list \<times> Slot" where
  "take_handle s =
     (if coroutine_bound s \<and> coroutine_handle s \<noteq> None
      then ([the (coroutine_handle s)], s\<lparr>coroutine_bound := False, coroutine_handle := None\<rparr>)
      else ([], s))"

fun FailAll_loop :: "RpcCallResult \<Rightarrow> slots \<Rightarrow> (nat \<times> RpcCallResult) list \<times> nat list \<times> slots" where
  "FailAll_loop res [] = ([], [], [])"
| "FailAll_loop res ((k, s) # m) =
     (let s1 = (if \<not> slot_done s then s\<lparr>slot_done := True, slot_result := res\<rparr> else s);
          (ps, s2) = take_promise s1;
          (hs, s3) = take_handle s2;
          (pss, hss, m') = FailAll_loop res m
      in (ps @ pss, hs @ hss, (k, s3) # m'))"

text \<open>The wake-ups after the lock: all promises first, then all coroutines.\<close>

definition wake_all :: "(nat \<times> RpcCallResult) list \<times> nat list \<times> slots \<Rightarrow> wakeup list \<times> slots" where
  "wake_all r = (case r of (ps, hs, m) \<Rightarrow> (map (\<lambda>(p, v). SetValue p v) ps @ map Resume hs, m))"

definition FailAll :: "RpcCallResult \<Rightarrow> slots \<Rightarrow> wakeup list \<times> slots" where
  "FailAll res m = wake_all (FailAll_loop res m)"

fun FailTimedOut_loop ::
    "time_point \<Rightarrow> RpcCallResult \<Rightarrow> slots \<Rightarrow> (nat \<times> RpcCallResult) list \<times> nat list \<times> slots" where
  "FailTimedOut_loop t res [] = ([], [], [])"
| "FailTimedOut_loop t res ((k, s) # m) =
     (if slot_done s \<or> t < slot_deadline s \<or> (\<not> async_bound s \<and> \<not> coroutine_bound s)
      then (case FailTimedOut_loop t res m of (pss, hss, m') \<Rightarrow> (pss, hss, (k, s) # m'))
      else let s1 = s\<lparr>slot_done := True, slot_result := res\<rparr>;
               (ps, s2) = take_promise s1;
               (hs, s3) = take_handle s2;
               (pss, hss, m') = FailTimedOut_loop t res m
           in (ps @ pss, hs @ hss, (k, s3) # m'))"

definition FailTimedOut :: "time_point \<Rightarrow> RpcCallResult \<Rightarrow> slots \<Rightarrow> wakeup list \<times> slots" where
  "FailTimedOut t res m = wake_all (FailTimedOut_loop t res m)"

definition Size :: "slots \<Rightarrow> nat" where
  "Size m = length m"

section \<open>Invariant\<close>

text \<open>
  A completed slot holds no waiter; a slot never holds a promise and a handle; the flags agree with
  what the slot holds.
\<close>

definition slot_ok :: "Slot \<Rightarrow> bool" where
  "slot_ok s \<longleftrightarrow>
     (slot_done s \<longrightarrow> async_promise s = None \<and> coroutine_handle s = None)
   \<and> (coroutine_bound s \<longleftrightarrow> coroutine_handle s \<noteq> None)
   \<and> (async_promise s \<noteq> None \<longrightarrow> async_bound s \<and> coroutine_handle s = None)
   \<and> (async_bound s \<and> \<not> slot_done s \<longrightarrow> async_promise s \<noteq> None)
   \<and> \<not> (async_bound s \<and> coroutine_bound s)"

definition slots_ok :: "slots \<Rightarrow> bool" where
  "slots_ok m \<longleftrightarrow> distinct (keys m) \<and> [] \<notin> set (keys m) \<and> (\<forall>s \<in> snd ` set m. slot_ok s)"

text \<open>The waiters in a table, and whom a wake-up concerns.\<close>

datatype waiter = Promise nat | Handle nat

definition slot_waiters :: "Slot \<Rightarrow> waiter multiset" where
  "slot_waiters s =
     (case async_promise s of Some p \<Rightarrow> {#Promise p#} | None \<Rightarrow> {#})
   + (case coroutine_handle s of Some h \<Rightarrow> {#Handle h#} | None \<Rightarrow> {#})"

definition table_waiters :: "slots \<Rightarrow> waiter multiset" where
  "table_waiters m = (\<Sum>x \<leftarrow> m. slot_waiters (snd x))"

fun wakeup_target :: "wakeup \<Rightarrow> waiter" where
  "wakeup_target (SetValue p r) = Promise p"
| "wakeup_target (BrokenPromise p) = Promise p"
| "wakeup_target (Resume h) = Handle h"
| "wakeup_target (DroppedHandle h) = Handle h"

definition woken :: "wakeup list \<Rightarrow> waiter multiset" where
  "woken ws = mset (map wakeup_target ws)"

section \<open>Conservation of waiters\<close>

lemma table_waiters_simps [slot_simps]:
  "table_waiters [] = {#}" "table_waiters ((k, s) # m) = slot_waiters s + table_waiters m"
  "table_waiters (m @ m') = table_waiters m + table_waiters m'"
  by (simp_all add: table_waiters_def)

lemma woken_simps [slot_simps]:
  "woken [] = {#}" "woken (w # ws) = add_mset (wakeup_target w) (woken ws)" "woken (ws @ vs) = woken ws + woken vs"
  by (simp_all add: woken_def)

lemma woken_destroy [slot_simps]: "woken (destroy_slot s) = slot_waiters s"
  by (auto simp: woken_def destroy_slot_def slot_waiters_def split: option.split)

lemma keys_Cons [simp]: "keys ((k, s) # m) = k # keys m" "keys [] = []"
  by (simp_all add: keys_def)

lemma table_waiters_erase:
  "distinct (keys m) \<Longrightarrow> map_of m k = Some s \<Longrightarrow> table_waiters m = table_waiters (erase_key k m) + slot_waiters s"
proof (induction m)
  case (Cons x m)
  obtain k' s' where x: "x = (k', s')" by fastforce
  show ?case
  proof (cases "k' = k")
    case True
    with Cons.prems x have "erase_key k (x # m) = m" "s' = s"
      using erase_key_absent [of k m] by (auto simp: erase_key_def)
    with x show ?thesis by (simp add: slot_simps)
  next
    case False
    with Cons x show ?thesis by (auto simp: erase_key_def slot_simps)
  qed
qed simp

lemma table_waiters_put:
  "distinct (keys m) \<Longrightarrow> map_of m k = Some s \<Longrightarrow>
     table_waiters (put_key k s' m) + slot_waiters s = table_waiters m + slot_waiters s'"
proof (induction m)
  case (Cons x m)
  obtain k' t where x: "x = (k', t)" by fastforce
  show ?case
  proof (cases "k' = k")
    case True
    with Cons.prems x show ?thesis by (simp add: slot_simps)
  next
    case False
    with Cons x show ?thesis by (simp add: slot_simps union_assoc)
  qed
qed simp

lemma slots_ok_lookup: "slots_ok m \<Longrightarrow> map_of m k = Some s \<Longrightarrow> slot_ok s"
  using map_of_SomeD [of m k s] by (force simp: slots_ok_def)

lemma slots_ok_erase: "slots_ok m \<Longrightarrow> slots_ok (erase_key k m)"
  by (auto simp: slots_ok_def) (auto simp: erase_key_def)

lemma set_put_key: "set (put_key k v m) \<subseteq> insert (k, v) (set m)"
  by (induction k v m rule: put_key.induct) auto

lemma slots_ok_put:
  assumes "slots_ok m" and "map_of m k = Some s" and "slot_ok s'"
  shows "slots_ok (put_key k s' m)"
proof -
  have "k \<in> set (keys m)" using assms(2) by (rule keys_of_Some)
  moreover have "slot_ok t" if "(k', t) \<in> set (put_key k s' m)" for k' t
    using that set_put_key [of k s' m] assms(1,3) by (force simp: slots_ok_def)
  ultimately show ?thesis using assms(1) by (auto simp: slots_ok_def)
qed

lemma slots_ok_distinct: "slots_ok m \<Longrightarrow> distinct (keys m)"
  by (simp add: slots_ok_def)

lemma done_no_waiters: "slot_ok s \<Longrightarrow> slot_done s \<Longrightarrow> slot_waiters s = {#}"
  by (simp add: slot_ok_def slot_waiters_def)

text \<open>Each operation keeps the table consistent and accounts for every waiter.\<close>

lemma Add_conserves:
  assumes "slots_ok m" and "Add k m = (b, m')"
  shows "slots_ok m' \<and> table_waiters m' = table_waiters m"
proof -
  have "slot_ok Slot_init" "slot_waiters Slot_init = {#}" by (simp_all add: slot_ok_def slot_waiters_def Slot_init_def)
  with assms show ?thesis by (auto simp: Add_def slots_ok_def slot_simps keys_def split: if_splits)
qed

lemma BindAsync_conserves:
  assumes "slots_ok m" and "BindAsync k p dl m = (b, ws, m')"
  shows "slots_ok m' \<and> table_waiters m' + woken ws = add_mset (Promise p) (table_waiters m)"
proof (cases "map_of m k")
  case None
  with assms show ?thesis by (auto simp: BindAsync_def slot_simps)
next
  case (Some s)
  have ok: "slot_ok s" using slots_ok_lookup [OF assms(1) Some] .
  consider (refused) "async_bound s \<or> coroutine_bound s" | (ready) "\<not> async_bound s" "\<not> coroutine_bound s" "slot_done s"
    | (bind) "\<not> async_bound s" "\<not> coroutine_bound s" "\<not> slot_done s" by blast
  then show ?thesis
  proof cases
    case refused
    with Some assms show ?thesis by (auto simp: BindAsync_def slot_simps split: if_splits)
  next
    case ready
    with Some assms have "ws = SetValue p (slot_result s) # destroy_slot s" "m' = erase_key k m"
      by (auto simp: BindAsync_def)
    then show ?thesis
      using table_waiters_erase [OF slots_ok_distinct [OF assms(1)] Some] slots_ok_erase [OF assms(1)]
      by (simp add: slot_simps)
  next
    case bind
    let ?s = "s\<lparr>async_promise := Some p, async_bound := True, slot_deadline := dl\<rparr>"
    have eq: "ws = []" "m' = put_key k ?s m" using bind Some assms by (auto simp: BindAsync_def)
    have "slot_ok ?s" "slot_waiters ?s = {#Promise p#}" "slot_waiters s = {#}"
      using ok bind by (auto simp: slot_ok_def slot_waiters_def)
    then show ?thesis
      using table_waiters_put [OF slots_ok_distinct [OF assms(1)] Some, of ?s] slots_ok_put [OF assms(1) Some] eq
      by (simp add: slot_simps)
  qed
qed

lemma BindCoroutine_conserves:
  assumes "slots_ok m" and "BindCoroutine k h dl m = (st, m')"
  shows "slots_ok m' \<and> table_waiters m' = (if st = kBound then {#Handle h#} else {#}) + table_waiters m"
proof (cases "st = kBound")
  case False
  with assms show ?thesis by (auto simp: BindCoroutine_def split: option.splits if_splits)
next
  case True
  then obtain s where s: "map_of m k = Some s" "\<not> coroutine_bound s" "\<not> async_bound s" "\<not> slot_done s"
      "m' = put_key k (s\<lparr>coroutine_handle := Some h, coroutine_bound := True, slot_deadline := dl\<rparr>) m"
    using assms by (auto simp: BindCoroutine_def split: option.splits if_splits)
  let ?s = "s\<lparr>coroutine_handle := Some h, coroutine_bound := True, slot_deadline := dl\<rparr>"
  have "slot_ok ?s" "slot_waiters ?s = {#Handle h#}" "slot_waiters s = {#}"
    using slots_ok_lookup [OF assms(1) s(1)] s by (auto simp: slot_ok_def slot_waiters_def)
  then show ?thesis
    using table_waiters_put [OF slots_ok_distinct [OF assms(1)] s(1), of ?s] slots_ok_put [OF assms(1) s(1)] s True
    by simp
qed

lemma Complete_conserves:
  assumes "slots_ok m" and "Complete k r m = (b, ws, m')"
  shows "slots_ok m' \<and> table_waiters m' + woken ws = table_waiters m"
proof (cases b)
  case False
  with assms show ?thesis by (auto simp: Complete_def Let_def slot_simps split: option.splits if_splits)
next
  case True
  then obtain s where s: "map_of m k = Some s" "\<not> slot_done s"
    using assms by (auto simp: Complete_def split: option.splits if_splits)
  note ok = slots_ok_lookup [OF assms(1) s(1)]
  note er = table_waiters_erase [OF slots_ok_distinct [OF assms(1)] s(1)] slots_ok_erase [OF assms(1)]
  note pt = table_waiters_put [OF slots_ok_distinct [OF assms(1)] s(1)] slots_ok_put [OF assms(1) s(1)]
  show ?thesis
  proof (cases "async_promise s")
    case (Some p)
    with ok s assms(2) have "m' = erase_key k m" "woken ws = slot_waiters s"
      by (auto simp: Complete_def Let_def slot_simps slot_waiters_def slot_ok_def)
    with er show ?thesis by simp
  next
    case None
    obtain t where "m' = put_key k t m" "woken ws = slot_waiters s" "slot_ok t" "slot_waiters t = {#}"
    proof (cases "coroutine_handle s")
      case (Some h)
      with None ok s assms(2) that [of "s\<lparr>slot_done := True, slot_result := r, coroutine_bound := False, coroutine_handle := None\<rparr>"]
      show thesis by (auto simp: Complete_def Let_def slot_simps slot_waiters_def slot_ok_def)
    next
      case hn: None
      with None ok s assms(2) that [of "s\<lparr>slot_done := True, slot_result := r\<rparr>"]
      show thesis by (simp add: Complete_def Let_def slot_simps slot_waiters_def slot_ok_def)
    qed
    with pt [of t] show ?thesis by simp
  qed
qed

lemma pop_conserves:
  assumes "slots_ok m" and "map_of m k = Some s"
  shows "slots_ok (erase_key k m) \<and> table_waiters (erase_key k m) + woken (destroy_slot s) = table_waiters m"
  using table_waiters_erase [OF slots_ok_distinct [OF assms(1)] assms(2)] slots_ok_erase [OF assms(1)]
  by (simp add: slot_simps)

lemma TryPop_conserves:
  "slots_ok m \<Longrightarrow> TryPop k m = (r, ws, m') \<Longrightarrow> slots_ok m' \<and> table_waiters m' + woken ws = table_waiters m"
  using pop_conserves by (auto simp: TryPop_def slot_simps split: option.splits if_splits)

lemma Remove_conserves:
  "slots_ok m \<Longrightarrow> Remove k m = (ws, m') \<Longrightarrow> slots_ok m' \<and> table_waiters m' + woken ws = table_waiters m"
  using pop_conserves by (auto simp: Remove_def slot_simps split: option.splits)

lemma WaitAndPop_conserves:
  "slots_ok m \<Longrightarrow> WaitAndPop_enter k m = (r, ws, m') \<Longrightarrow> slots_ok m' \<and> table_waiters m' + woken ws = table_waiters m"
  "slots_ok m \<Longrightarrow> WaitAndPop_wake k t m = (r, ws, m') \<Longrightarrow> slots_ok m' \<and> table_waiters m' + woken ws = table_waiters m"
  using pop_conserves
  by (auto simp: WaitAndPop_enter_def WaitAndPop_wake_def pop_slot_def slot_simps split: option.splits if_splits)

text \<open>The two loops: each slot is released in place.\<close>

definition released :: "RpcCallResult \<Rightarrow> Slot \<Rightarrow> Slot" where
  "released res s =
     (if slot_done s then s else s\<lparr>slot_done := True, slot_result := res\<rparr>)
       \<lparr>async_promise := None, coroutine_bound := False, coroutine_handle := None\<rparr>"

definition slot_wakeups :: "RpcCallResult \<Rightarrow> Slot \<Rightarrow> (nat \<times> RpcCallResult) list \<times> nat list" where
  "slot_wakeups res s =
     ((case async_promise s of Some p \<Rightarrow> [(p, if slot_done s then slot_result s else res)] | None \<Rightarrow> []),
      (case coroutine_handle s of Some h \<Rightarrow> [h] | None \<Rightarrow> []))"

lemma released_ok: "slot_ok s \<Longrightarrow> slot_ok (released res s) \<and> slot_waiters (released res s) = {#} \<and> slot_done (released res s)"
  by (auto simp: released_def slot_ok_def slot_waiters_def)

lemma release_step:
  assumes "slot_ok s" and "s1 = (if \<not> slot_done s then s\<lparr>slot_done := True, slot_result := res\<rparr> else s)"
    and "take_promise s1 = (ps, s2)" and "take_handle s2 = (hs, s3)"
  shows "s3 = released res s \<and> (ps, hs) = slot_wakeups res s"
proof -
  obtain d r p ab h cb dl where s: "s = \<lparr>slot_done = d, slot_result = r, async_promise = p, async_bound = ab,
      coroutine_handle = h, coroutine_bound = cb, slot_deadline = dl\<rparr>" by (cases s)
  from assms(1) have "cb = (h \<noteq> None)" by (simp add: s slot_ok_def)
  with assms(2) assms(3,4) [symmetric] show ?thesis
    by (cases p; cases h; cases d) (simp_all add: s take_promise_def take_handle_def released_def slot_wakeups_def)
qed

lemma FailAll_loop_eq:
  "\<forall>s \<in> snd ` set m. slot_ok s \<Longrightarrow>
   FailAll_loop res m =
     (concat (map (fst \<circ> slot_wakeups res \<circ> snd) m), concat (map (snd \<circ> slot_wakeups res \<circ> snd) m),
      map (\<lambda>(k, s). (k, released res s)) m)"
proof (induction m)
  case (Cons x m)
  obtain k s where x: "x = (k, s)" by fastforce
  let ?s1 = "if \<not> slot_done s then s\<lparr>slot_done := True, slot_result := res\<rparr> else s"
  obtain ps s2 where 1: "take_promise ?s1 = (ps, s2)" by fastforce
  obtain hs s3 where 2: "take_handle s2 = (hs, s3)" by fastforce
  from Cons.prems x have "slot_ok s" by simp
  from release_step [OF this refl 1 2] have "slot_wakeups res s = (ps, hs)" "s3 = released res s" by auto
  with Cons x show ?case by (simp add: FailAll_loop.simps Let_def 1 2 del: if_not_P if_split cong: if_cong)
qed simp

definition expired :: "time_point \<Rightarrow> Slot \<Rightarrow> bool" where
  "expired t s \<longleftrightarrow> \<not> slot_done s \<and> slot_deadline s \<le> t \<and> (async_bound s \<or> coroutine_bound s)"

lemma FailTimedOut_loop_eq:
  "\<forall>s \<in> snd ` set m. slot_ok s \<Longrightarrow>
   FailTimedOut_loop t res m =
     (concat (map (fst \<circ> slot_wakeups res \<circ> snd) (filter (expired t \<circ> snd) m)),
      concat (map (snd \<circ> slot_wakeups res \<circ> snd) (filter (expired t \<circ> snd) m)),
      map (\<lambda>(k, s). (k, if expired t s then released res s else s)) m)"
proof (induction m)
  case (Cons x m)
  obtain k s where x: "x = (k, s)" by fastforce
  have ok: "slot_ok s" using Cons.prems x by simp
  show ?case
  proof (cases "expired t s")
    case True
    then have d: "\<not> slot_done s" "\<not> (slot_done s \<or> t < slot_deadline s \<or> \<not> async_bound s \<and> \<not> coroutine_bound s)"
      by (auto simp: expired_def)
    let ?s1 = "s\<lparr>slot_done := True, slot_result := res\<rparr>"
    obtain ps s2 where 1: "take_promise ?s1 = (ps, s2)" by fastforce
    obtain hs s3 where 2: "take_handle s2 = (hs, s3)" by fastforce
    from release_step [OF ok _ 1 2, of res] d(1) have "slot_wakeups res s = (ps, hs)" "s3 = released res s" by auto
    with Cons x True d show ?thesis by (auto simp: Let_def 1 2)
  next
    case False
    then have d: "slot_done s \<or> t < slot_deadline s \<or> \<not> async_bound s \<and> \<not> coroutine_bound s"
      by (auto simp: expired_def)
    with Cons x False show ?thesis by simp
  qed
qed simp

lemma woken_wake_all:
  "woken (fst (wake_all (ps, hs, m))) = mset (map (Promise \<circ> fst) ps) + mset (map Handle hs)"
  by (auto simp: wake_all_def woken_def comp_def case_prod_beta)

lemma slot_wakeups_waiters:
  "mset (map (Promise \<circ> fst) (fst (slot_wakeups res s))) + mset (map Handle (snd (slot_wakeups res s))) = slot_waiters s"
  by (auto simp: slot_wakeups_def slot_waiters_def split: option.split)

lemma woken_slot_wakeups:
  "mset (map (Promise \<circ> fst) (concat (map (fst \<circ> slot_wakeups res \<circ> snd) m)))
     + mset (map Handle (concat (map (snd \<circ> slot_wakeups res \<circ> snd) m))) = table_waiters m"
proof (induction m)
  case (Cons x m)
  then show ?case using slot_wakeups_waiters [of res "snd x"]
    by (cases x) (simp add: slot_simps comp_def ac_simps)
qed (simp add: slot_simps)

lemma keys_map_slots [simp]: "keys (map (\<lambda>(k, s). (k, f s)) m) = keys m"
  by (induction m) auto

lemma slots_ok_map:
  assumes "slots_ok m" and "\<And>s. slot_ok s \<Longrightarrow> slot_ok (f s)"
  shows "slots_ok (map (\<lambda>(k, s). (k, f s)) m)"
  using assms by (auto simp: slots_ok_def)

lemma table_waiters_map:
  "(\<And>s. s \<in> snd ` set m \<Longrightarrow> slot_waiters (f s) = {#}) \<Longrightarrow> table_waiters (map (\<lambda>(k, s). (k, f s)) m) = {#}"
  by (induction m) (auto simp: slot_simps)

lemma slots_okD: "slots_ok m \<Longrightarrow> \<forall>s \<in> snd ` set m. slot_ok s"
  by (simp add: slots_ok_def)

lemma FailAll_conserves:
  assumes "slots_ok m" and "FailAll res m = (ws, m')"
  shows "slots_ok m' \<and> table_waiters m' = {#} \<and> woken ws = table_waiters m
    \<and> m' = map (\<lambda>(k, s). (k, released res s)) m"
proof -
  note eq = FailAll_loop_eq [OF slots_okD [OF assms(1)], of res]
  have m': "m' = map (\<lambda>(k, s). (k, released res s)) m" and ws: "ws = fst (wake_all (FailAll_loop res m))"
    using assms(2) by (simp_all add: FailAll_def wake_all_def eq)
  have "woken ws = table_waiters m" unfolding ws eq woken_wake_all by (rule woken_slot_wakeups)
  moreover have "table_waiters m' = {#}"
    unfolding m' using slots_okD [OF assms(1)] released_ok by (intro table_waiters_map) auto
  moreover have "slots_ok m'" unfolding m' using assms(1) released_ok by (intro slots_ok_map) auto
  ultimately show ?thesis using m' by blast
qed

lemma table_waiters_expired:
  "(\<And>s. s \<in> snd ` set m \<Longrightarrow> slot_ok s) \<Longrightarrow>
   table_waiters (map (\<lambda>(k, s). (k, if expired t s then released res s else s)) m)
     + table_waiters (filter (expired t \<circ> snd) m) = table_waiters m"
  by (induction m) (auto simp: slot_simps released_ok)

lemma FailTimedOut_conserves:
  assumes "slots_ok m" and "FailTimedOut t res m = (ws, m')"
  shows "slots_ok m' \<and> table_waiters m' + woken ws = table_waiters m
    \<and> woken ws = table_waiters (filter (expired t \<circ> snd) m)
    \<and> m' = map (\<lambda>(k, s). (k, if expired t s then released res s else s)) m"
proof -
  note eq = FailTimedOut_loop_eq [OF slots_okD [OF assms(1)], of t res]
  have m': "m' = map (\<lambda>(k, s). (k, if expired t s then released res s else s)) m"
    and ws: "ws = fst (wake_all (FailTimedOut_loop t res m))"
    using assms(2) by (simp_all add: FailTimedOut_def wake_all_def eq)
  have w: "woken ws = table_waiters (filter (expired t \<circ> snd) m)"
    unfolding ws eq woken_wake_all by (rule woken_slot_wakeups)
  have "slots_ok m'" unfolding m' using assms(1) released_ok by (intro slots_ok_map) auto
  moreover have "table_waiters m' + woken ws = table_waiters m"
    unfolding w m' using slots_okD [OF assms(1)] by (intro table_waiters_expired) auto
  ultimately show ?thesis using m' w by blast
qed

section \<open>Runs\<close>

text \<open>
  The operations in the order in which they take the lock, whichever threads call them. A run keeps
  the waiters that were introduced, all wake-ups, and the table.
\<close>

fun run_ops :: "('op \<Rightarrow> 's \<Rightarrow> waiter multiset \<times> wakeup list \<times> 's) \<Rightarrow> 'op list \<Rightarrow> 's \<Rightarrow> waiter multiset \<times> wakeup list \<times> 's" where
  "run_ops exec [] s = ({#}, [], s)"
| "run_ops exec (op # ops) s =
     (case exec op s of (i, ws, s1) \<Rightarrow> (case run_ops exec ops s1 of (j, vs, s2) \<Rightarrow> (i + j, ws @ vs, s2)))"

lemma run_ops_append:
  "run_ops exec (ops @ ops') s =
     (case run_ops exec ops s of (i, ws, s1) \<Rightarrow> (case run_ops exec ops' s1 of (j, vs, s2) \<Rightarrow> (i + j, ws @ vs, s2)))"
  by (induction exec ops s rule: run_ops.induct) (auto simp: add.assoc split: prod.splits)

text \<open>
  What a client of such a table relies on: an operation keeps the table consistent and neither loses
  nor duplicates a waiter.
\<close>

locale waiter_table =
  fixes ok :: "'s \<Rightarrow> bool" and waiting :: "'s \<Rightarrow> waiter multiset"
    and exec :: "'op \<Rightarrow> 's \<Rightarrow> waiter multiset \<times> wakeup list \<times> 's"
  assumes exec_conserves: "ok s \<Longrightarrow> exec op s = (i, ws, s') \<Longrightarrow> ok s' \<and> waiting s' + woken ws = i + waiting s"
begin

lemma run_conserves:
  "ok s \<Longrightarrow> run_ops exec ops s = (i, ws, s') \<Longrightarrow> ok s' \<and> waiting s' + woken ws = i + waiting s"
proof (induction ops arbitrary: s i ws s')
  case (Cons op ops)
  obtain i1 ws1 s1 where 1: "exec op s = (i1, ws1, s1)" by (metis prod_cases3)
  obtain i2 ws2 s2 where 2: "run_ops exec ops s1 = (i2, ws2, s2)" by (metis prod_cases3)
  from exec_conserves [OF Cons.prems(1) 1] have 3: "ok s1" "waiting s1 + woken ws1 = i1 + waiting s" by auto
  from Cons.IH [OF 3(1) 2] have "ok s2" "waiting s2 + woken ws2 = i2 + waiting s1" by auto
  with Cons.prems(2) 1 2 3 show ?case by (auto simp: slot_simps) (metis add.commute add.left_commute)
qed (simp add: slot_simps)

text \<open>If nobody waits twice, nobody is woken twice.\<close>

lemma run_wakes_once:
  assumes "ok s" and "run_ops exec ops s = (i, ws, s')" and "\<forall>w. count (i + waiting s) w \<le> 1"
  shows "distinct (map wakeup_target ws)"
proof -
  have "i + waiting s = waiting s' + woken ws" using run_conserves [OF assms(1,2)] by simp
  then have "count (woken ws) w \<le> 1" for w using assms(3) [rule_format, of w] by simp
  then have "count (mset (map wakeup_target ws)) w = (if w \<in> set (map wakeup_target ws) then 1 else 0)" for w
    using count_eq_zero_iff [of "woken ws" w] unfolding woken_def
    by (metis One_nat_def le_Suc_eq le_zero_eq set_mset_mset)
  then show ?thesis by (simp add: distinct_count_atmost_1)
qed

end

datatype pc_op =
    OpAdd string
  | OpBindAsync string nat time_point
  | OpBindCoroutine string nat time_point
  | OpComplete string RpcCallResult
  | OpWaitEnter string
  | OpWaitWake string bool
  | OpTryPop string
  | OpRemove string
  | OpFailAll RpcCallResult
  | OpFailTimedOut time_point RpcCallResult

fun pc_exec :: "pc_op \<Rightarrow> slots \<Rightarrow> waiter multiset \<times> wakeup list \<times> slots" where
  "pc_exec (OpAdd k) m = ({#}, [], snd (Add k m))"
| "pc_exec (OpBindAsync k p dl) m = ({#Promise p#}, snd (BindAsync k p dl m))"
| "pc_exec (OpBindCoroutine k h dl) m =
     (case BindCoroutine k h dl m of (st, m') \<Rightarrow> (if st = kBound then {#Handle h#} else {#}, [], m'))"
| "pc_exec (OpComplete k r) m = ({#}, snd (Complete k r m))"
| "pc_exec (OpWaitEnter k) m = ({#}, snd (WaitAndPop_enter k m))"
| "pc_exec (OpWaitWake k t) m = ({#}, snd (WaitAndPop_wake k t m))"
| "pc_exec (OpTryPop k) m = ({#}, snd (TryPop k m))"
| "pc_exec (OpRemove k) m = ({#}, Remove k m)"
| "pc_exec (OpFailAll r) m = ({#}, FailAll r m)"
| "pc_exec (OpFailTimedOut t r) m = ({#}, FailTimedOut t r m)"

abbreviation pc_run :: "pc_op list \<Rightarrow> slots \<Rightarrow> waiter multiset \<times> wakeup list \<times> slots" where
  "pc_run \<equiv> run_ops pc_exec"

lemma pc_exec_conserves:
  assumes "slots_ok m" and "pc_exec op m = (i, ws, m')"
  shows "slots_ok m' \<and> table_waiters m' + woken ws = i + table_waiters m"
proof (cases op)
  case (OpAdd k)
  with assms show ?thesis using Add_conserves [OF assms(1), of k "fst (Add k m)" m'] by (auto simp: slot_simps)
next
  case (OpBindAsync k p dl)
  with assms show ?thesis using BindAsync_conserves [OF assms(1), of k p dl _ ws m'] by (cases "BindAsync k p dl m") auto
next
  case (OpBindCoroutine k h dl)
  obtain st m1 where b: "BindCoroutine k h dl m = (st, m1)" by fastforce
  with assms OpBindCoroutine show ?thesis using BindCoroutine_conserves [OF assms(1) b] by (auto simp: slot_simps)
next
  case (OpComplete k r)
  with assms show ?thesis using Complete_conserves [OF assms(1), of k r _ ws m'] by (cases "Complete k r m") auto
next
  case (OpWaitEnter k)
  with assms show ?thesis using WaitAndPop_conserves(1) [OF assms(1), of k _ ws m'] by (cases "WaitAndPop_enter k m") auto
next
  case (OpWaitWake k t)
  with assms show ?thesis using WaitAndPop_conserves(2) [OF assms(1), of k t _ ws m'] by (cases "WaitAndPop_wake k t m") auto
next
  case (OpTryPop k)
  with assms show ?thesis using TryPop_conserves [OF assms(1), of k _ ws m'] by (cases "TryPop k m") auto
next
  case (OpRemove k)
  with assms show ?thesis using Remove_conserves [OF assms(1), of k ws m'] by auto
next
  case (OpFailAll r)
  with assms show ?thesis using FailAll_conserves [OF assms(1), of r ws m'] by auto
next
  case (OpFailTimedOut t r)
  with assms show ?thesis using FailTimedOut_conserves [OF assms(1), of t r ws m'] by auto
qed

interpretation pt: waiter_table slots_ok table_waiters pc_exec
  by unfold_locales (rule pc_exec_conserves)

lemma slots_ok_Nil: "slots_ok []"
  by (simp add: slots_ok_def)

lemma map_of_map_slots: "map_of (map (\<lambda>(k, s). (k, f s)) m) k = map_option f (map_of m k)"
  by (induction m) auto

lemma map_of_FailAll: "slots_ok m \<Longrightarrow> FailAll r m = (ws, m') \<Longrightarrow> map_of m' k = map_option (released r) (map_of m k)"
  using FailAll_conserves [of m r ws m'] by (simp add: map_of_map_slots)

lemma map_of_FailTimedOut:
  "slots_ok m \<Longrightarrow> FailTimedOut t r m = (ws, m') \<Longrightarrow>
   map_of m' k = map_option (\<lambda>s. if expired t s then released r s else s) (map_of m k)"
  using FailTimedOut_conserves [of m t r ws m'] by (simp add: map_of_map_slots)

lemma map_of_snoc: "map_of (m @ [(k', s')]) k = (case map_of m k of Some s \<Rightarrow> Some s | None \<Rightarrow> if k' = k then Some s' else None)"
  by (induction m) auto

text \<open>What an operation can do to a slot that is already completed.\<close>

lemma done_slot_step:
  assumes "slots_ok m" and "map_of m k = Some s" and "slot_done s" and "pc_exec op m = (i, ws, m')"
  shows "map_of m' k = Some s
    \<or> map_of m' k = Some (s\<lparr>async_promise := None, coroutine_bound := False, coroutine_handle := None\<rparr>)
    \<or> map_of m' k = None \<and> (op \<in> {OpTryPop k, OpRemove k, OpWaitEnter k} \<or> (\<exists>t. op = OpWaitWake k t)
        \<or> \<not> async_bound s \<and> (\<exists>p dl. op = OpBindAsync k p dl))"
proof (cases op)
  case (OpFailAll r)
  with assms map_of_FailAll [OF assms(1), of r ws m' k] show ?thesis by (auto simp: released_def)
next
  case (OpFailTimedOut t r)
  with assms map_of_FailTimedOut [OF assms(1), of t r ws m' k] show ?thesis by (auto simp: expired_def)
next
  case (OpBindAsync k' p dl)
  with assms show ?thesis by (cases "k' = k") (auto simp: BindAsync_def split: option.splits if_splits)
next
  case (OpComplete k' r)
  with assms show ?thesis
    by (cases "k' = k") (auto simp: Complete_def Let_def split: option.splits if_splits)
qed (use assms in \<open>auto simp: Add_def map_of_snoc BindCoroutine_def WaitAndPop_enter_def WaitAndPop_wake_def pop_slot_def
        TryPop_def Remove_def split: option.splits if_splits\<close>)

section \<open>Properties\<close>



text \<open>
  A response reaches its caller whichever comes first, the response or the caller's wait. Completing
  a pending call with \<open>r\<close> succeeds once; a bound promise gets exactly \<open>r\<close> and the slot is gone; a bound
  coroutine is resumed and finds \<open>r\<close>; and if nobody is bound yet, a promise bound afterwards gets \<open>r\<close>
  at once, a coroutine is told not to suspend, and \<open>r\<close> can be taken out. A second response for
  the same call changes nothing.
\<close>

lemma response_reaches_caller:
  assumes "slots_ok m" and "map_of m k = Some s" and "\<not> slot_done s" and "Complete k r m = (b, ws, m')"
  shows "b \<and> (case async_promise s of
          Some p \<Rightarrow> ws = [SetValue p r] \<and> map_of m' k = None
        | None \<Rightarrow>
            (case coroutine_handle s of Some h \<Rightarrow> ws = [Resume h] | None \<Rightarrow> ws = [])
          \<and> fst (TryPop k m') = Some r
          \<and> fst (WaitAndPop_wake k False m') = Popped (Some r)
          \<and> (\<forall>p dl. coroutine_handle s = None \<longrightarrow> fst (snd (BindAsync k p dl m')) = [SetValue p r])
          \<and> (\<forall>h dl. BindCoroutine k h dl m' = (kAlreadyDone, m')))
     \<and> (\<forall>r'. Complete k r' m' = (False, [], m'))"
proof (cases "async_promise s")
  case (Some p)
  then have "coroutine_handle s = None" using slots_ok_lookup [OF assms(1,2)] by (auto simp: slot_ok_def)
  with Some assms show ?thesis by (auto simp: Complete_def Let_def destroy_slot_def)
next
  case None
  have ok: "slot_ok s" by (rule slots_ok_lookup [OF assms(1,2)])
  then have nb: "\<not> async_bound s" using None assms(3) by (auto simp: slot_ok_def)
  show ?thesis
  proof (cases "coroutine_handle s")
    case hn: None
    then have "\<not> coroutine_bound s" using ok by (auto simp: slot_ok_def)
    with None hn nb assms show ?thesis
      by (auto simp: Complete_def Let_def TryPop_def WaitAndPop_wake_def pop_slot_def BindAsync_def BindCoroutine_def
          destroy_slot_def)
  next
    case (Some h)
    then have "coroutine_bound s" using ok by (auto simp: slot_ok_def)
    with None Some nb assms show ?thesis
      by (auto simp: Complete_def Let_def TryPop_def WaitAndPop_wake_def pop_slot_def BindCoroutine_def destroy_slot_def)
  qed
qed

text \<open>
  A result is final. Once a call has a result, no operation changes it: no second response, no
  timeout and no connection failure overwrites it; the slot keeps the result until it is taken out.
\<close>

lemma result_is_final:
  assumes "slots_ok m" and "map_of m k = Some s" and "slot_done s" and "pc_exec op m = (i, ws, m')"
  shows "map_of m' k = None
    \<or> (\<exists>s'. map_of m' k = Some s' \<and> slot_done s' \<and> slot_result s' = slot_result s)"
  using done_slot_step [OF assms] assms(3) by auto

text \<open>
  Timeouts hit exactly the calls whose deadline has passed. A sweep at time \<open>t\<close> gives the timeout
  result to every waiting asynchronous call and resumes every waiting coroutine whose deadline is at
  or before \<open>t\<close>, with the timeout result ready to be taken; it wakes nobody else and leaves every other
  slot as it was.
\<close>

lemma timeout_sweep_exact:
  assumes "slots_ok m" and "FailTimedOut t r m = (ws, m')"
  shows "woken ws = table_waiters (filter (expired t \<circ> snd) m)
    \<and> (\<forall>k s. map_of m k = Some s \<longrightarrow>
         (if expired t s
          then (\<forall>p. async_promise s = Some p \<longrightarrow> SetValue p r \<in> set ws)
             \<and> (\<forall>h. coroutine_handle s = Some h \<longrightarrow> Resume h \<in> set ws)
             \<and> fst (TryPop k m') = Some r
          else map_of m' k = Some s))"
proof -
  note c = FailTimedOut_conserves [OF assms]
  note eq = FailTimedOut_loop_eq [OF slots_okD [OF assms(1)], of t r]
  have ws: "ws = map (\<lambda>(p, v). SetValue p v) (concat (map (fst \<circ> slot_wakeups r \<circ> snd) (filter (expired t \<circ> snd) m)))
      @ map Resume (concat (map (snd \<circ> slot_wakeups r \<circ> snd) (filter (expired t \<circ> snd) m)))"
    using assms(2) by (simp add: FailTimedOut_def wake_all_def eq)
  have "(\<forall>p. async_promise s = Some p \<longrightarrow> SetValue p r \<in> set ws) \<and> (\<forall>h. coroutine_handle s = Some h \<longrightarrow> Resume h \<in> set ws)
      \<and> fst (TryPop k m') = Some r" if "map_of m k = Some s" "expired t s" for k s
  proof -
    have mem: "(k, s) \<in> set (filter (expired t \<circ> snd) m)" and nd: "\<not> slot_done s"
      using that map_of_SomeD by (force, simp add: expired_def)
    have "SetValue p r \<in> set ws" if "async_promise s = Some p" for p
      using that nd mem unfolding ws by (force simp: slot_wakeups_def)
    moreover have "Resume h \<in> set ws" if "coroutine_handle s = Some h" for h
      using that nd mem unfolding ws by (force simp: slot_wakeups_def)
    moreover have "map_of m' k = Some (released r s)" using map_of_FailTimedOut [OF assms, of k] that by simp
    then have "fst (TryPop k m') = Some r" using nd by (simp add: TryPop_def released_def)
    ultimately show ?thesis by blast
  qed
  moreover have "map_of m' k = Some s" if "map_of m k = Some s" "\<not> expired t s" for k s
    using map_of_FailTimedOut [OF assms, of k] that by simp
  ultimately show ?thesis using c by auto
qed

text \<open>
  The slot of an asynchronous call that timed out is never freed. The sweep marks the slot
  completed and hands its promise a result but leaves it in the table, and the operations that the
  asynchronous path still performs (responses, sweeps, \<open>FailAll\<close>, new calls) never remove it: it stays
  in the table, and in the in-flight count, for as long as nobody takes that very id out.
\<close>

lemma timed_out_async_slot_stays:
  assumes "slots_ok m" and "map_of m k = Some s" and "async_promise s = Some p" and "slot_deadline s \<le> t"
    and "FailTimedOut t r m = (ws, m')"
    and "\<forall>op \<in> set ops. op \<notin> {OpTryPop k, OpRemove k, OpWaitEnter k, OpWaitWake k True, OpWaitWake k False}"
  shows "SetValue p r \<in> set ws \<and> k \<in> set (keys (snd (snd (pc_run ops m')))) \<and> 0 < Size (snd (snd (pc_run ops m')))"
proof -
  have s: "slot_ok s" by (rule slots_ok_lookup [OF assms(1,2)])
  then have e: "expired t s" "async_bound s" using assms(3,4) by (auto simp: expired_def slot_ok_def)
  have "\<exists>u. map_of m' k = Some u \<and> slot_done u \<and> async_bound u"
    using map_of_FailTimedOut [OF assms(1,5), of k] assms(2) e by (auto simp: released_def)
  moreover have "slots_ok m'" using FailTimedOut_conserves [OF assms(1,5)] by blast
  ultimately have "\<exists>u. map_of (snd (snd (pc_run ops m'))) k = Some u"
    using assms(6)
  proof (induction ops arbitrary: m')
    case (Cons op ops)
    obtain i vs m1 where x: "pc_exec op m' = (i, vs, m1)" by (metis prod_cases3)
    obtain u where u: "map_of m' k = Some u" "slot_done u" "async_bound u" using Cons.prems(1) by blast
    have "op \<noteq> OpWaitWake k b" for b using Cons.prems(3) by (cases b) auto
    with done_slot_step [OF Cons.prems(2) u(1,2) x] u Cons.prems(3)
    have "\<exists>u. map_of m1 k = Some u \<and> slot_done u \<and> async_bound u" by auto
    moreover have "slots_ok m1" using pc_exec_conserves [OF Cons.prems(2) x] by blast
    ultimately show ?case using Cons.IH [of m1] Cons.prems(3) x by (auto split: prod.splits)
  qed auto
  then have "k \<in> set (keys (snd (snd (pc_run ops m'))))" by (auto intro: keys_of_Some)
  moreover from this have "0 < Size (snd (snd (pc_run ops m')))" by (auto simp: Size_def keys_def)
  moreover have "SetValue p r \<in> set ws"
  proof -
    have mem: "(k, s) \<in> set (filter (expired t \<circ> snd) m)" using assms(2) e map_of_SomeD by force
    have "ws = map (\<lambda>(p, v). SetValue p v) (concat (map (fst \<circ> slot_wakeups r \<circ> snd) (filter (expired t \<circ> snd) m)))
        @ map Resume (concat (map (snd \<circ> slot_wakeups r \<circ> snd) (filter (expired t \<circ> snd) m)))"
      using assms(5) by (simp add: FailTimedOut_def wake_all_def FailTimedOut_loop_eq [OF slots_okD [OF assms(1)]])
    with mem assms(3) e show ?thesis by (force simp: slot_wakeups_def expired_def)
  qed
  ultimately show ?thesis by blast
qed

end
