(* ===== verification/Event_Loop.thy ===== *)
theory Event_Loop
  imports Posix_Model
begin

text \<open>
  \<open>src/client/event_loop.h\<close> and \<open>src/client/event_loop.cpp\<close>: the epoll loop of the client's dispatcher
  thread, with one socket and an \<open>eventfd\<close> through which \<open>Close\<close> wakes it up. System calls report
  their outcome through the arguments of the operations; the counter of the \<open>eventfd\<close> is part of the
  state.
\<close>

datatype WaitResult = kReadable | kTimeout | kWakeup | kWaitError

record EventLoop =
  epoll_fd :: bool
  wake_fd :: bool
  read_fd :: int
  wake_counter :: nat
  watched :: "int list"

definition EventLoop_make :: EventLoop where
  "EventLoop_make = \<lparr>epoll_fd = False, wake_fd = False, read_fd = -1, wake_counter = 0, watched = []\<rparr>"

definition kWakeToken :: u64 where
  "kWakeToken = 1"

text \<open>\<open>Init\<close>: whether \<open>epoll_create1\<close>, \<open>eventfd\<close> and \<open>epoll_ctl\<close> succeed.\<close>

definition EventLoop_Init :: "bool \<Rightarrow> bool \<Rightarrow> bool \<Rightarrow> EventLoop \<Rightarrow> bool \<times> EventLoop" where
  "EventLoop_Init epoll_ok eventfd_ok ctl_ok l =
     (let l1 = l\<lparr>epoll_fd := epoll_ok\<rparr> in
      if \<not> epoll_fd l1 then (False, l1)
      else let l2 = l1\<lparr>wake_fd := eventfd_ok, wake_counter := 0\<rparr> in
           if \<not> wake_fd l2 then (False, l2) else (ctl_ok, l2))"

definition SetReadFd :: "bool \<Rightarrow> int \<Rightarrow> EventLoop \<Rightarrow> bool \<times> EventLoop" where
  "SetReadFd ctl_ok fd l =
     (if \<not> epoll_fd l then (False, l)
      else if \<not> ctl_ok then (False, l)
      else (True, l\<lparr>read_fd := fd, watched := watched l @ [fd]\<rparr>))"

text \<open>
  The outcome of \<open>epoll_wait\<close> for one event: nothing, a failure, or an event with its user data. The
  data of the socket is the descriptor stored into a zeroed 64-bit union.
\<close>

datatype epoll_outcome = EpollNone | EpollFail errno | EpollEvent u64

definition WaitOnce :: "epoll_outcome \<Rightarrow> EventLoop \<Rightarrow> WaitResult \<times> EventLoop" where
  "WaitOnce outcome l =
     (if \<not> epoll_fd l \<or> read_fd l < 0 then (kWaitError, l)
      else case outcome of
             EpollNone \<Rightarrow> (kTimeout, l)
           | EpollFail e \<Rightarrow> (if e = EINTR then kTimeout else kWaitError, l)
           | EpollEvent data \<Rightarrow>
               (if data = kWakeToken then (kWakeup, l\<lparr>wake_counter := 0\<rparr>) else (kReadable, l)))"

definition Wakeup :: "EventLoop \<Rightarrow> EventLoop" where
  "Wakeup l = (if \<not> wake_fd l then l else l\<lparr>wake_counter := wake_counter l + 1\<rparr>)"

text \<open>The user data under which a descriptor's events are reported, and the events that can be pending.\<close>

definition fd_token :: "int \<Rightarrow> u64" where
  "fd_token fd = word_of_int (fd mod 2 ^ 32)"

definition may_report :: "EventLoop \<Rightarrow> bool \<Rightarrow> u64 \<Rightarrow> bool" where
  "may_report l socket_ready data \<longleftrightarrow>
     (wake_counter l > 0 \<and> data = kWakeToken) \<or> (socket_ready \<and> data = fd_token (read_fd l))"

lemma fd_token_not_wake:
  assumes "0 \<le> fd" and "fd < 2 ^ 31" and "fd \<noteq> 1"
  shows "fd_token fd \<noteq> kWakeToken"
proof
  assume "fd_token fd = kWakeToken"
  then have "uint (word_of_int (fd mod 2 ^ 32) :: u64) = uint (1 :: u64)" by (simp add: fd_token_def kWakeToken_def)
  moreover have "fd mod 2 ^ 32 = fd" using assms by simp
  moreover have "fd mod 2 ^ 64 = fd" using assms by simp
  ultimately show False using assms(3) by (simp add: uint_word_of_int)
qed

text \<open>
  The dispatcher can tell a wake-up from a response. For a socket whose descriptor is not 1, an event
  is classified as a wake-up only if somebody called \<open>Wakeup\<close> and then it is consumed, and as readable only
  if the socket is; failures other than an interruption are errors, and nothing else is.
\<close>

lemma WaitOnce_classifies:
  assumes "epoll_fd l" and "0 \<le> read_fd l" and "read_fd l < 2 ^ 31" and "read_fd l \<noteq> 1"
    and "\<forall>data. outcome = EpollEvent data \<longrightarrow> may_report l socket_ready data"
  shows "(fst (WaitOnce outcome l) = kWakeup \<longrightarrow> wake_counter l > 0 \<and> wake_counter (snd (WaitOnce outcome l)) = 0)
    \<and> (fst (WaitOnce outcome l) = kReadable \<longrightarrow> socket_ready \<and> snd (WaitOnce outcome l) = l)
    \<and> (fst (WaitOnce outcome l) = kWaitError \<longleftrightarrow> (\<exists>e. outcome = EpollFail e \<and> e \<noteq> EINTR))"
  using assms fd_token_not_wake [OF assms(2-4)]
  by (cases outcome) (auto simp: WaitOnce_def may_report_def)

end
