(* ===== verification/Rpc_Client.thy ===== *)
theory Rpc_Client
  imports Pending_Calls Event_Loop Rpc_Frames
begin

text \<open>
  \<open>src/client/rpc_client.h\<close> and \<open>src/client/rpc_client.cpp\<close>: the client. Callers on any thread register
  a call in the pending table, write the request frame and bind a promise or a coroutine; the
  dispatcher thread reads response frames and completes the calls, sweeps timeouts and sends
  heartbeats. The operations below are the atomic sections of these threads: what happens between two
  of them is any interleaving with the other threads.
\<close>

section \<open>State\<close>

record RpcClientOptions =
  send_timeout :: duration
  recv_timeout :: duration
  heartbeat_interval :: duration
  heartbeat_timeout :: duration

definition RpcClientOptions_default :: RpcClientOptions where
  "RpcClientOptions_default = \<lparr>send_timeout = ms 2000, recv_timeout = ms 2000, heartbeat_interval = secs 30,
     heartbeat_timeout = secs 45\<rparr>"

text \<open>
  \<open>wire\<close> is what has been written to the socket, \<open>cl_tx\<close> what the kernel will do with writes, \<open>log\<close> the
  wake-ups of waiters so far. \<open>dispatcher_thread\<close> says that a dispatcher thread is joinable,
  \<open>cl_event_loop\<close> that it has published its event loop.
\<close>

record rpc_client =
  cl_options :: RpcClientOptions
  sock :: bool
  dispatcher_running :: bool
  dispatcher_thread :: bool
  cl_event_loop :: bool
  next_id :: u64
  pending_calls :: slots
  last_activity_time :: time_point
  last_heartbeat_time :: time_point
  client_buffer :: string
  cl_tx :: tx_script
  wire :: string
  log :: "wakeup list"

definition RpcClient_make :: "RpcClientOptions \<Rightarrow> tx_script \<Rightarrow> rpc_client" where
  "RpcClient_make opts tx =
     \<lparr>cl_options = opts, sock = False, dispatcher_running = False, dispatcher_thread = False,
      cl_event_loop = False, next_id = 0, pending_calls = [], last_activity_time = 0,
      last_heartbeat_time = 0, client_buffer = [], cl_tx = tx, wire = [], log = []\<rparr>"

text \<open>Running an operation of the pending table: the wake-ups go to the log.\<close>

definition on_pending :: "(slots \<Rightarrow> wakeup list \<times> slots) \<Rightarrow> rpc_client \<Rightarrow> rpc_client" where
  "on_pending f c = (case f (pending_calls c) of (ws, m) \<Rightarrow> c\<lparr>pending_calls := m, log := log c @ ws\<rparr>)"

abbreviation fail_all :: "ErrorCode \<Rightarrow> string \<Rightarrow> rpc_client \<Rightarrow> rpc_client" where
  "fail_all code msg \<equiv> on_pending (FailAll (failure code msg))"

section \<open>Reading responses\<close>

definition IsTemporaryReadFailure :: "string \<Rightarrow> bool" where
  "IsTemporaryReadFailure read_error \<longleftrightarrow>
     str_find read_error ''Resource temporarily unavailable'' \<or> str_find read_error ''recv timeout''"

definition mapped_result :: "RpcResponse \<Rightarrow> RpcCallResult" where
  "mapped_result response =
     \<lparr>status = \<lparr>st_code = FromProtoErrorCode (rsp_error_code response), st_message = rsp_error_msg response\<rparr>,
      response_payload = rsp_payload response\<rparr>"

definition handle_response :: "RpcResponse \<Rightarrow> slots \<Rightarrow> wakeup list \<times> slots" where
  "handle_response response m =
     (if starts_with (rsp_request_id response) ''hb_'' then ([], m)
      else snd (Complete (rsp_request_id response) (mapped_result response) m))"

text \<open>
  The loop of \<open>HandleReadableFrames\<close>: the result, the offset up to which the buffer is consumed, the
  wake-ups and the new table.
\<close>

function frames_loop ::
    "RpcResponse message_ops \<Rightarrow> string \<Rightarrow> nat \<Rightarrow> slots \<Rightarrow> bool \<times> nat \<times> wakeup list \<times> slots" where
  "frames_loop pb buf offset m =
     (if length buf - offset \<ge> kFrameHeaderBytes then
        (let body_length = ntohl_bytes (take kFrameHeaderBytes (drop offset buf)) in
         if body_length = 0 \<or> unat body_length > kMaxFrameSize
         then (False, offset, FailAll (failure kInternalError ''invalid response frame length'') m)
         else if length buf - offset < kFrameHeaderBytes + unat body_length then (True, offset, [], m)
         else case ParseFromArray pb (take (unat body_length) (drop (offset + kFrameHeaderBytes) buf)) of
                None \<Rightarrow> (False, offset, FailAll (failure kParseError ''failed to parse RpcResponse'') m)
              | Some response \<Rightarrow>
                  (case handle_response response m of
                     (ws, m1) \<Rightarrow>
                       (case frames_loop pb buf (offset + (kFrameHeaderBytes + unat body_length)) m1 of
                          (ok, off, vs, m2) \<Rightarrow> (ok, off, ws @ vs, m2))))
      else (True, offset, [], m))"
  by pat_completeness auto
termination
  by (relation "measure (\<lambda>(pb, buf, offset, m). length buf - offset)") (auto simp: kFrameHeaderBytes_def)

declare frames_loop.simps [simp del]

definition HandleReadableFrames :: "RpcResponse message_ops \<Rightarrow> time_point \<Rightarrow> rpc_client \<Rightarrow> bool \<times> rpc_client" where
  "HandleReadableFrames pb t c =
     (case frames_loop pb (client_buffer c) 0 (pending_calls c) of
        (ok, offset, ws, m) \<Rightarrow>
          (let c1 = c\<lparr>pending_calls := m, log := log c @ ws\<rparr> in
           if \<not> ok then (False, c1)
           else if offset > 0
           then (True, c1\<lparr>last_activity_time := t, client_buffer := erase_front offset (client_buffer c)\<rparr>)
           else (True, c1)))"

section \<open>Connecting and closing\<close>

text \<open>Which of the system calls of \<open>Connect\<close> succeed.\<close>

record connect_outcome =
  socket_ok :: bool
  addr_ok :: bool
  connect_ok :: bool
  sndtimeo_ok :: bool
  rcvtimeo_ok :: bool

definition Connect :: "connect_outcome \<Rightarrow> rpc_client \<Rightarrow> bool \<times> rpc_client" where
  "Connect oc c =
     (if sock c then (True, c)
      else if \<not> socket_ok oc then (False, c)
      else if \<not> addr_ok oc then (False, c)
      else if \<not> connect_ok oc then (False, c)
      else if \<not> sndtimeo_ok oc then (False, c)
      else if \<not> rcvtimeo_ok oc then (False, c)
      else (True, c\<lparr>sock := True, dispatcher_running := True, dispatcher_thread := True\<rparr>))"

text \<open>
  \<open>Close\<close>: the dispatcher, told to stop and woken up, ends before \<open>join\<close> returns.
\<close>

definition Close :: "rpc_client \<Rightarrow> rpc_client" where
  "Close c =
     fail_all kInternalError ''connection closed''
       (c\<lparr>dispatcher_running := False, sock := False, dispatcher_thread := False, cl_event_loop := False\<rparr>)"

definition NextRequestId :: "rpc_client \<Rightarrow> string \<times> rpc_client" where
  "NextRequestId c = (let id = next_id c + 1 in (to_string (unat id), c\<lparr>next_id := id\<rparr>))"

text \<open>\<open>WriteMessage\<close> on the socket of the client, or nothing if there is none: success or the error text.\<close>

definition write_request :: "RpcRequest message_ops \<Rightarrow> RpcRequest \<Rightarrow> rpc_client \<Rightarrow> (string + unit) option \<times> rpc_client" where
  "write_request pb request c =
     (if \<not> sock c then (Some (Inl []), c)
      else case WriteMessage pb request (cl_tx c) of
             (r, out, tx) \<Rightarrow> (r, c\<lparr>cl_tx := tx, wire := wire c @ out\<rparr>))"

definition SendHeartbeatRequest :: "RpcRequest message_ops \<Rightarrow> rpc_client \<Rightarrow> rpc_client" where
  "SendHeartbeatRequest pb c =
     (let id = next_id c + 1;
          request = \<lparr>request_id = ''hb_'' @ to_string (unat id), service_name = ''__Heartbeat__'',
                     method_name = ''Ping'', payload = []\<rparr>
      in snd (write_request pb request (c\<lparr>next_id := id\<rparr>)))"

section \<open>Calls\<close>

text \<open>
  What the first part of a call leads to: the result is there at once, the call waits for the
  kernel to take the request, or the request has been written and the call goes on to bind its
  waiter.
\<close>

datatype call_progress = Ready RpcCallResult | WriteBlocked | Written string

definition call_send ::
    "connect_outcome \<Rightarrow> RpcRequest message_ops \<Rightarrow> string \<Rightarrow> string \<Rightarrow> string \<Rightarrow> rpc_client \<Rightarrow> call_progress \<times> rpc_client" where
  "call_send oc pb service meth request_payload c =
     (case Connect oc c of
        (False, c1) \<Rightarrow> (Ready (failure kInternalError ''connect failed''), c1)
      | (True, c1) \<Rightarrow>
          (case NextRequestId c1 of
             (rid, c2) \<Rightarrow>
               (case Add rid (pending_calls c2) of
                  (False, m) \<Rightarrow> (Ready (failure kInternalError ''duplicate request_id in pending table''), c2\<lparr>pending_calls := m\<rparr>)
                | (True, m) \<Rightarrow>
                    (let request = \<lparr>request_id = rid, service_name = service, method_name = meth, payload = request_payload\<rparr>
                     in case write_request pb request (c2\<lparr>pending_calls := m\<rparr>) of
                          (None, c3) \<Rightarrow> (WriteBlocked, c3)
                        | (Some (Inr _), c3) \<Rightarrow> (Written rid, c3)
                        | (Some (Inl write_error), c3) \<Rightarrow>
                            (let res = failure kInternalError (''send request failed: ''
                                         @ (if write_error = [] then ''connection closed'' else write_error));
                                 c4 = on_pending (\<lambda>m. snd (Complete rid res m)) c3
                             in case TryPop rid (pending_calls c4) of
                                  (popped, ws, m') \<Rightarrow>
                                    (Ready (case popped of Some r \<Rightarrow> r | None \<Rightarrow> res),
                                     Close (c4\<lparr>pending_calls := m', log := log c4 @ ws\<rparr>)))))))"

text \<open>
  The second part of \<open>CallAsync\<close>: binding the promise. The result is a result that is already there or
  the promise whose future the caller holds.
\<close>

definition CallAsync_bind :: "string \<Rightarrow> nat \<Rightarrow> time_point \<Rightarrow> rpc_client \<Rightarrow> (RpcCallResult + nat) \<times> rpc_client" where
  "CallAsync_bind rid promise t c =
     (case BindAsync rid promise (t + recv_timeout (cl_options c)) (pending_calls c) of
        (True, ws, m) \<Rightarrow> (Inr promise, c\<lparr>pending_calls := m, log := log c @ ws\<rparr>)
      | (False, ws, m) \<Rightarrow>
          (Inl (failure kInternalError ''bind async waiter failed''),
           on_pending (Remove rid) (c\<lparr>pending_calls := m, log := log c @ ws\<rparr>)))"

text \<open>
  \<open>CallAsync\<close> without interference from other threads: a ready future, the future of the promise, or
  nothing if the kernel never takes the request.
\<close>

definition CallAsync ::
    "connect_outcome \<Rightarrow> RpcRequest message_ops \<Rightarrow> string \<Rightarrow> string \<Rightarrow> string \<Rightarrow> nat \<Rightarrow> time_point \<Rightarrow> rpc_client
     \<Rightarrow> (RpcCallResult + nat) option \<times> rpc_client" where
  "CallAsync oc pb service meth request_payload promise t c =
     (case call_send oc pb service meth request_payload c of
        (Ready r, c1) \<Rightarrow> (Some (Inl r), c1)
      | (WriteBlocked, c1) \<Rightarrow> (None, c1)
      | (Written rid, c1) \<Rightarrow> apfst Some (CallAsync_bind rid promise t c1))"

definition GetInflightCount :: "rpc_client \<Rightarrow> nat" where
  "GetInflightCount c = Size (pending_calls c)"

definition IsConnected :: "rpc_client \<Rightarrow> bool" where
  "IsConnected c \<longleftrightarrow> sock c"

text \<open>
  The awaiter of \<open>CallCo\<close>: whether to suspend, with the result to fall back on; and the result after
  the resumption.
\<close>

definition DirectCallCo_await_suspend ::
    "string \<Rightarrow> time_point \<Rightarrow> nat \<Rightarrow> rpc_client \<Rightarrow> bool \<times> RpcCallResult option \<times> rpc_client" where
  "DirectCallCo_await_suspend rid dl handle c =
     (case BindCoroutine rid handle dl (pending_calls c) of
        (st, m) \<Rightarrow>
          (case st of
             kBound \<Rightarrow> (True, None, c\<lparr>pending_calls := m\<rparr>)
           | kAlreadyDone \<Rightarrow> (False, None, c\<lparr>pending_calls := m\<rparr>)
           | kNotFound \<Rightarrow>
               (False, Some (failure kInternalError ''bind coroutine waiter failed: request not found''), c\<lparr>pending_calls := m\<rparr>)
           | kAlreadyBound \<Rightarrow>
               (False, Some (failure kInternalError ''bind coroutine waiter failed: already bound''), c\<lparr>pending_calls := m\<rparr>)))"

definition DirectCallCo_await_resume :: "string \<Rightarrow> RpcCallResult option \<Rightarrow> rpc_client \<Rightarrow> RpcCallResult \<times> rpc_client" where
  "DirectCallCo_await_resume rid fallback c =
     (case fallback of
        Some r \<Rightarrow> (r, c)
      | None \<Rightarrow>
          (case TryPop rid (pending_calls c) of
             (Some r, ws, m) \<Rightarrow> (r, c\<lparr>pending_calls := m, log := log c @ ws\<rparr>)
           | (None, ws, m) \<Rightarrow>
               (failure kInternalError ''coroutine waiter resumed without result'', c\<lparr>pending_calls := m, log := log c @ ws\<rparr>)))"

text \<open>
  \<open>CallCo\<close> without interference: the result of the coroutine, the request id under which it is
  suspended, or nothing if the kernel never takes the request.
\<close>

definition CallCo ::
    "connect_outcome \<Rightarrow> RpcRequest message_ops \<Rightarrow> string \<Rightarrow> string \<Rightarrow> string \<Rightarrow> nat \<Rightarrow> time_point \<Rightarrow> rpc_client
     \<Rightarrow> (RpcCallResult + string) option \<times> rpc_client" where
  "CallCo oc pb service meth request_payload handle t c =
     (case call_send oc pb service meth request_payload c of
        (Ready r, c1) \<Rightarrow> (Some (Inl r), c1)
      | (WriteBlocked, c1) \<Rightarrow> (None, c1)
      | (Written rid, c1) \<Rightarrow>
          (case DirectCallCo_await_suspend rid (t + recv_timeout (cl_options c1)) handle c1 of
             (True, _, c2) \<Rightarrow> (Some (Inr rid), c2)
           | (False, fallback, c2) \<Rightarrow> apfst (Some \<circ> Inl) (DirectCallCo_await_resume rid fallback c2)))"

section \<open>The dispatcher\<close>

text \<open>
  The start of \<open>DispatcherLoop\<close>: the event loop of the thread, and the clock. The loop runs if the
  result is true.
\<close>

definition DispatcherLoop_start :: "bool \<Rightarrow> bool \<Rightarrow> time_point \<Rightarrow> rpc_client \<Rightarrow> bool \<times> rpc_client" where
  "DispatcherLoop_start init_ok add_ok t c =
     (if \<not> sock c then (False, c)
      else if \<not> init_ok then (False, (fail_all kInternalError ''event loop init failed'' c)\<lparr>dispatcher_running := False\<rparr>)
      else if \<not> add_ok then
        (if \<not> dispatcher_running c then (False, c)
         else (False, (fail_all kInternalError ''event loop add fd failed'' c)\<lparr>dispatcher_running := False\<rparr>))
      else (True, c\<lparr>cl_event_loop := True, client_buffer := [], last_activity_time := t, last_heartbeat_time := t\<rparr>))"

text \<open>
  Draining the socket after a readable event: everything there is is appended to the buffer. The
  result says whether the peer has closed, or what a fatal failure is.
\<close>

datatype drain_result = Drained | PeerClosed | DrainFailed string

function drain_socket :: "time_point \<Rightarrow> rx_script \<Rightarrow> rpc_client \<Rightarrow> drain_result \<times> rx_script \<times> rpc_client" where
  "drain_socket t rx c =
     (case recv_nb 4096 rx of
        (Got bs, rx') \<Rightarrow> drain_socket t rx' (c\<lparr>client_buffer := client_buffer c @ bs, last_activity_time := t\<rparr>)
      | (Eof, rx') \<Rightarrow> (PeerClosed, rx', c)
      | (RecvFail e, rx') \<Rightarrow>
          (if e = EINTR then drain_socket t rx' c
           else if e = EAGAIN \<or> e = EWOULDBLOCK then (Drained, rx', c)
           else let read_error = ''recv failed: '' @ strerror e in
                if IsTemporaryReadFailure read_error then (Drained, rx', c)
                else (DrainFailed read_error, rx', c)))"
  by pat_completeness auto
termination
  by (relation "measure (\<lambda>(t, rx, c). rx_size rx)")
    (auto simp: recv_nb_def split: prod.splits option.splits dest: recv_Got_size recv_Fail_size)

declare drain_socket.simps [simp del]

text \<open>One round of the loop for each result of the wait, at time \<open>t\<close>.\<close>

definition dispatcher_tick :: "RpcRequest message_ops \<Rightarrow> time_point \<Rightarrow> rpc_client \<Rightarrow> rpc_client" where
  "dispatcher_tick pb t c =
     (let c1 = on_pending (FailTimedOut t (failure kInternalError ''call timeout'')) c;
          opts = cl_options c in
      if heartbeat_timeout opts > 0 \<and> t - last_activity_time c1 \<ge> heartbeat_timeout opts
      then (fail_all kInternalError ''connection inactive (heartbeat timeout)'' c1)\<lparr>dispatcher_running := False\<rparr>
      else if heartbeat_interval opts > 0 \<and> t - last_activity_time c1 \<ge> heartbeat_interval opts
              \<and> t - last_heartbeat_time c1 \<ge> heartbeat_interval opts
      then (SendHeartbeatRequest pb c1)\<lparr>last_heartbeat_time := t\<rparr>
      else c1)"

definition dispatcher_readable ::
    "RpcResponse message_ops \<Rightarrow> time_point \<Rightarrow> rx_script \<Rightarrow> rpc_client \<Rightarrow> rx_script \<times> rpc_client" where
  "dispatcher_readable pb t rx c =
     (case drain_socket t rx c of
        (DrainFailed read_error, rx', c1) \<Rightarrow>
          (rx', (fail_all kInternalError (''dispatcher stopped: '' @ read_error) c1)\<lparr>dispatcher_running := False\<rparr>)
      | (dr, rx', c1) \<Rightarrow>
          (case HandleReadableFrames pb t c1 of
             (False, c2) \<Rightarrow> (rx', c2\<lparr>dispatcher_running := False\<rparr>)
           | (True, c2) \<Rightarrow>
               (rx', if dr = PeerClosed
                     then (if Size (pending_calls c2) > 0
                           then fail_all kInternalError ''dispatcher stopped: peer closed connection'' c2
                           else c2)\<lparr>dispatcher_running := False\<rparr>
                     else c2)))"

definition dispatcher_round ::
    "RpcRequest message_ops \<Rightarrow> RpcResponse message_ops \<Rightarrow> WaitResult \<Rightarrow> time_point \<Rightarrow> rx_script \<Rightarrow> rpc_client \<Rightarrow> rx_script \<times> rpc_client" where
  "dispatcher_round qpb rpb w t rx c =
     (if \<not> dispatcher_running c then (rx, c)
      else case w of
             kTimeout \<Rightarrow> (rx, dispatcher_tick qpb t c)
           | kWakeup \<Rightarrow> (rx, c)
           | kWaitError \<Rightarrow>
               (rx, (fail_all kInternalError ''dispatcher stopped: event loop error'' c)\<lparr>dispatcher_running := False\<rparr>)
           | kReadable \<Rightarrow> dispatcher_readable rpb t rx c)"

text \<open>After the loop the thread withdraws its event loop.\<close>

definition DispatcherLoop_end :: "rpc_client \<Rightarrow> rpc_client" where
  "DispatcherLoop_end c = c\<lparr>cl_event_loop := False\<rparr>"

end
