(* ===== verification/Rpc_Client_Calls.thy ===== *)
theory Rpc_Client_Calls
  imports Rpc_Client
begin

text \<open>
  The contract of the client towards its callers: responses are cut out of the byte stream exactly as
  the server put them in, each reaches the call with its id and no other, every call is resolved at
  most once and, once the dispatcher has stopped, nobody who waited then is left waiting; request ids do not
  repeat, and heartbeats keep their distance.
\<close>

section \<open>Response frames\<close>

text \<open>Handling the bodies of response frames in order.\<close>

fun handle_bodies :: "RpcResponse message_ops \<Rightarrow> string list \<Rightarrow> slots \<Rightarrow> bool \<times> wakeup list \<times> slots" where
  "handle_bodies pb [] m = (True, [], m)"
| "handle_bodies pb (b # bs) m =
     (case ParseFromArray pb b of
        None \<Rightarrow> (False, FailAll (failure kParseError ''failed to parse RpcResponse'') m)
      | Some r \<Rightarrow>
          (case handle_response r m of
             (ws, m1) \<Rightarrow> (case handle_bodies pb bs m1 of (ok, vs, m2) \<Rightarrow> (ok, ws @ vs, m2))))"

lemma frames_loop_step:
  "next_frame (drop off buf) = NeedMore \<Longrightarrow> frames_loop pb buf off m = (True, off, [], m)"
  "next_frame (drop off buf) = BadFrame \<Longrightarrow>
     frames_loop pb buf off m = (False, off, FailAll (failure kInternalError ''invalid response frame length'') m)"
  "next_frame (drop off buf) = Frame b r \<Longrightarrow> \<exists>n. drop (off + n) buf = r \<and> length r + n + off = length buf
     \<and> frames_loop pb buf off m =
        (case ParseFromArray pb b of
           None \<Rightarrow> (False, off, FailAll (failure kParseError ''failed to parse RpcResponse'') m)
         | Some r \<Rightarrow>
             (case handle_response r m of
                (ws, m1) \<Rightarrow> (case frames_loop pb buf (off + n) m1 of (ok, off', vs, m2) \<Rightarrow> (ok, off', ws @ vs, m2))))"
proof -
  let ?s = "drop off buf" and ?w = "ntohl_bytes (take kFrameHeaderBytes (drop off buf))"
  show "frames_loop pb buf off m = (True, off, [], m)" if "next_frame ?s = NeedMore"
    using that by (subst frames_loop.simps)
      (auto simp: next_frame_def DecodeFrameHeader_def Let_def split: if_splits sum.splits)
  show "frames_loop pb buf off m = (False, off, FailAll (failure kInternalError ''invalid response frame length'') m)"
    if "next_frame ?s = BadFrame"
  proof -
    from that have "kFrameHeaderBytes \<le> length buf - off" "?w = 0 \<or> kMaxFrameSize < unat ?w"
      by (auto simp: next_frame_def DecodeFrameHeader_def Let_def split: if_splits sum.splits)
    then show ?thesis by (subst frames_loop.simps) (simp only: Let_def if_True)
  qed
  assume "next_frame ?s = Frame b r"
  then have f: "kFrameHeaderBytes \<le> length buf - off" "\<not> (?w = 0 \<or> kMaxFrameSize < unat ?w)"
      "\<not> length buf - off < kFrameHeaderBytes + unat ?w" "b = take (unat ?w) (drop (off + kFrameHeaderBytes) buf)"
      "r = drop (kFrameHeaderBytes + unat ?w) ?s"
    by (auto simp: next_frame_def DecodeFrameHeader_def Let_def add.commute split: if_splits sum.splits)
  have "off \<le> length buf" using f(1) by (cases "off \<le> length buf") (auto simp: kFrameHeaderBytes_def)
  with f(3,5) have r: "drop (off + (kFrameHeaderBytes + unat ?w)) buf = r"
      "length r + (kFrameHeaderBytes + unat ?w) + off = length buf"
    by (auto simp: add.commute add.left_commute)
  have "frames_loop pb buf off m =
        (case ParseFromArray pb b of
           None \<Rightarrow> (False, off, FailAll (failure kParseError ''failed to parse RpcResponse'') m)
         | Some r \<Rightarrow>
             (case handle_response r m of
                (ws, m1) \<Rightarrow> (case frames_loop pb buf (off + (kFrameHeaderBytes + unat ?w)) m1 of
                              (ok, off', vs, m2) \<Rightarrow> (ok, off', ws @ vs, m2))))"
    by (subst frames_loop.simps) (simp only: Let_def f(1,2,3) if_True if_False flip: f(4))
  with r show "\<exists>n. drop (off + n) buf = r \<and> length r + n + off = length buf
     \<and> frames_loop pb buf off m =
        (case ParseFromArray pb b of
           None \<Rightarrow> (False, off, FailAll (failure kParseError ''failed to parse RpcResponse'') m)
         | Some r \<Rightarrow>
             (case handle_response r m of
                (ws, m1) \<Rightarrow> (case frames_loop pb buf (off + n) m1 of (ok, off', vs, m2) \<Rightarrow> (ok, off', ws @ vs, m2))))"
    by blast
qed

text \<open>The loop follows the reference: the complete frames in order, then the verdict of the rest.\<close>

lemma frames_loop_frames:
  assumes "frames (drop off buf) = (bodies, rest, ok)" and "off \<le> length buf"
    and "handle_bodies pb bodies m = (hok, ws, m1)"
  shows "\<exists>off'. (hok \<and> ok \<longrightarrow> off' + length rest = length buf)
    \<and> frames_loop pb buf off m =
        (hok \<and> ok, off',
         if hok \<and> \<not> ok
         then (ws @ fst (FailAll (failure kInternalError ''invalid response frame length'') m1),
               snd (FailAll (failure kInternalError ''invalid response frame length'') m1))
         else (ws, m1))"
  using assms
proof (induction "length buf - off" arbitrary: off bodies m ws rule: less_induct)
  case less
  show ?case
  proof (cases "next_frame (drop off buf)")
    case NeedMore
    with less.prems frames_loop_step(1) [OF NeedMore] show ?thesis by (auto simp: frames_cases)
  next
    case BadFrame
    with less.prems have "bodies = []" "\<not> ok" "hok" "ws = []" "m1 = m" by (auto simp: frames_cases)
    then show ?thesis unfolding frames_loop_step(2) [OF BadFrame] by (intro exI [of _ off]) simp
  next
    case (Frame b r)
    obtain n where n: "drop (off + n) buf = r" "length r + n + off = length buf"
      and run: "frames_loop pb buf off m =
        (case ParseFromArray pb b of
           None \<Rightarrow> (False, off, FailAll (failure kParseError ''failed to parse RpcResponse'') m)
         | Some r \<Rightarrow>
             (case handle_response r m of
                (ws, m1) \<Rightarrow> (case frames_loop pb buf (off + n) m1 of (ok, off', vs, m2) \<Rightarrow> (ok, off', ws @ vs, m2))))"
      using frames_loop_step(3) [OF Frame] by blast
    obtain bs where fr: "frames r = (bs, rest, ok)" and bodies: "bodies = b # bs"
      using less.prems(1) frames_cases(3) [OF Frame] by (cases "frames r") auto
    show ?thesis
    proof (cases "ParseFromArray pb b")
      case None
      have "handle_bodies pb bodies m = (False, FailAll (failure kParseError ''failed to parse RpcResponse'') m)"
        unfolding bodies handle_bodies.simps None option.case ..
      with less.prems(3) have "\<not> hok" "(ws, m1) = FailAll (failure kParseError ''failed to parse RpcResponse'') m"
        by (simp_all only: prod.inject simp_thms)
      with run None show ?thesis by (intro exI [of _ off]) simp
    next
      case (Some q)
      obtain vs m2 where hr: "handle_response q m = (vs, m2)" by fastforce
      obtain us where hb: "handle_bodies pb bs m2 = (hok, us, m1)" "ws = vs @ us"
        using less.prems(3) bodies Some hr by (auto split: prod.splits)
      have "length r < length (drop off buf)" by (rule next_frame_smaller [OF Frame])
      then have "length buf - (off + n) < length buf - off" using n(2) by simp
      from less.hyps [OF this, of bs m2 us] fr n hb(1)
      obtain off' where o: "hok \<and> ok \<longrightarrow> off' + length rest = length buf"
          "frames_loop pb buf (off + n) m2 = (hok \<and> ok, off',
             if hok \<and> \<not> ok
             then (us @ fst (FailAll (failure kInternalError ''invalid response frame length'') m1),
                   snd (FailAll (failure kInternalError ''invalid response frame length'') m1))
             else (us, m1))"
        by auto
      with run Some hr hb(2) show ?thesis by (intro exI [of _ off']) auto
    qed
  qed
qed

text \<open>Draining the socket: the buffer grows by exactly what the stream delivers.\<close>

lemma drain_socket_step:
  "recv_nb 4096 rx = (Got bs, rx1) \<Longrightarrow>
     drain_socket t rx c = drain_socket t rx1 (c\<lparr>client_buffer := client_buffer c @ bs, last_activity_time := t\<rparr>)"
  "recv_nb 4096 rx = (RecvFail EINTR, rx1) \<Longrightarrow> drain_socket t rx c = drain_socket t rx1 c"
  "recv_nb 4096 rx = (Eof, rx1) \<Longrightarrow> drain_socket t rx c = (PeerClosed, rx1, c)"
  "recv_nb 4096 rx = (RecvFail e, rx1) \<Longrightarrow> e = EAGAIN \<or> e = EWOULDBLOCK \<Longrightarrow> drain_socket t rx c = (Drained, rx1, c)"
  "recv_nb 4096 rx = (RecvFail e, rx1) \<Longrightarrow> e \<noteq> EINTR \<Longrightarrow> \<exists>dr. dr \<noteq> PeerClosed \<and> drain_socket t rx c = (dr, rx1, c)"
  by (subst drain_socket.simps, auto simp: Let_def)+

lemma drain_socket_stream:
  assumes "drain_socket t rx c = (dr, rx', c')"
  shows "rx' = rx_after rx \<and> (dr = PeerClosed \<longleftrightarrow> rx_verdict rx = Eof)
    \<and> (rx_verdict rx \<in> {RecvFail EAGAIN, RecvFail EWOULDBLOCK} \<longrightarrow> dr = Drained)
    \<and> (\<exists>u. c' = c\<lparr>client_buffer := client_buffer c @ rx_stream rx, last_activity_time := u\<rparr>)"
  using assms
proof (induction rx arbitrary: c rule: measure_induct_rule [of rx_size])
  case (less rx)
  show ?case
  proof (cases rule: recv_nb_cases [of 4096 rx])
    case (got bs rx1)
    from less.prems drain_socket_step(1) [OF got(1)]
    have "drain_socket t rx1 (c\<lparr>client_buffer := client_buffer c @ bs, last_activity_time := t\<rparr>) = (dr, rx', c')" by simp
    note ih = less.IH [OF recv_Got_size [OF got(2), simplified] this]
    then obtain u where "c' = c\<lparr>client_buffer := client_buffer c @ rx_stream rx, last_activity_time := u\<rparr>"
      using rx_stream_recv_Got [OF got(2)] by auto
    with ih rx_drain_recv(1) [OF got(2)] show ?thesis by auto
  next
    case (intr rx1)
    from less.prems drain_socket_step(2) [OF intr(1)] have "drain_socket t rx1 c = (dr, rx', c')" by simp
    with less.IH [OF recv_Fail_size [OF intr(2)]] rx_stream_recv_EINTR [OF intr(2)] rx_drain_recv(2) [OF intr(2)]
    show ?thesis by simp
  next
    case (eof rx1)
    then have "rx_stream rx = []" using rx_stream_recv_stop by blast
    with less.prems drain_socket_step(3) [OF eof(1)] rx_drain_stop(2) [OF eof(2)] show ?thesis
      by (auto intro: exI [of _ "last_activity_time c"])
  next
    case (again e rx1)
    with less.prems drain_socket_step(4) [OF again(1,2)] show ?thesis by (auto intro: exI [of _ "last_activity_time c"])
  next
    case (error e rx1)
    then have "rx_stream rx = []" using rx_stream_recv_stop by blast
    with less.prems drain_socket_step(5) [OF error(1,3), of t c] rx_drain_stop(3) [OF error(2,3)] error show ?thesis
      by (auto intro: exI [of _ "last_activity_time c"])
  qed
qed

section \<open>What the client does to the pending table\<close>

text \<open>
  The client touches the table only through its operations and logs every wake-up they ask for:
  \<open>uses_table A i c c'\<close> says that \<open>c'\<close> comes from \<open>c\<close> by a sequence of table operations that introduces the
  waiters \<open>i\<close>.
\<close>

definition uses_table :: "bool \<Rightarrow> waiter multiset \<Rightarrow> rpc_client \<Rightarrow> rpc_client \<Rightarrow> bool" where
  "uses_table A i c c' \<longleftrightarrow>
     (\<exists>ops ws. pc_run ops (pending_calls c) = (i, ws, pending_calls c') \<and> log c' = log c @ ws
        \<and> (A \<or> (\<forall>k. OpAdd k \<notin> set ops)))"

lemma uses_table_same [intro]: "pending_calls c' = pending_calls c \<Longrightarrow> log c' = log c \<Longrightarrow> uses_table A {#} c c'"
  unfolding uses_table_def by (intro exI [of _ "[]"]) simp

lemma uses_table_trans: "uses_table A i c c1 \<Longrightarrow> uses_table A j c1 c2 \<Longrightarrow> uses_table A (i + j) c c2"
  unfolding uses_table_def by (elim exE) (rule_tac x = "ops @ opsa" in exI, simp add: run_ops_append, blast)

lemma uses_table_trans0: "uses_table A {#} c c1 \<Longrightarrow> uses_table A j c1 c2 \<Longrightarrow> uses_table A j c c2"
  using uses_table_trans by fastforce

lemma uses_table_op:
  "A \<or> (\<forall>k. op \<noteq> OpAdd k) \<Longrightarrow> pc_exec op (pending_calls c) = (i, ws, m) \<Longrightarrow> pending_calls c' = m \<Longrightarrow> log c' = log c @ ws \<Longrightarrow> uses_table A i c c'"
  unfolding uses_table_def by (intro exI [of _ "[op]"]) auto

lemma uses_table_on_pending:
  assumes "A \<or> (\<forall>k. op \<noteq> OpAdd k)" and "pc_exec op (pending_calls c) = ({#}, f (pending_calls c))"
    and "pending_calls c' = pending_calls (on_pending f c)" and "log c' = log (on_pending f c)"
  shows "uses_table A {#} c c'"
  using assms by (cases "f (pending_calls c)") (auto simp: on_pending_def intro: uses_table_op [of A op])

lemma pc_run_single: "pc_exec op m = (i, r) \<Longrightarrow> pc_run [op] m = (i, r)"
  by (cases r) simp

lemma pc_run_join:
  "pc_run ops m = ({#}, ws, m1) \<Longrightarrow> pc_run ops' m1 = ({#}, vs, m2) \<Longrightarrow> pc_run (ops @ ops') m = ({#}, ws @ vs, m2)"
  by (simp add: run_ops_append)

lemma FailAll_table: "pc_run [OpFailAll r] m = ({#}, FailAll r m)"
  by (rule pc_run_single) simp

lemma handle_response_table: "\<exists>ops. pc_run ops m = ({#}, handle_response r m) \<and> (\<forall>k. OpAdd k \<notin> set ops)"
proof (cases "starts_with (rsp_request_id r) ''hb_''")
  case True
  then show ?thesis by (intro exI [of _ "[]"]) (simp add: handle_response_def)
next
  case False
  then have "pc_run [OpComplete (rsp_request_id r) (mapped_result r)] m = ({#}, handle_response r m)"
    by (intro pc_run_single) (simp add: handle_response_def)
  then show ?thesis by (intro exI conjI) (assumption, simp)
qed

lemma handle_bodies_table: "\<exists>ops. pc_run ops m = ({#}, snd (handle_bodies pb bodies m)) \<and> (\<forall>k. OpAdd k \<notin> set ops)"
proof (induction bodies arbitrary: m)
  case Nil
  show ?case by (intro exI [of _ "[]"]) simp
next
  case (Cons b bs)
  show ?case
  proof (cases "ParseFromArray pb b")
    case None
    then show ?thesis using FailAll_table [of "failure kParseError ''failed to parse RpcResponse''" m]
      unfolding handle_bodies.simps None option.case snd_conv by (intro exI conjI) (assumption, simp)
  next
    case (Some r)
    obtain ws m1 where hr: "handle_response r m = (ws, m1)" by fastforce
    obtain ok vs m2 where hb: "handle_bodies pb bs m1 = (ok, vs, m2)" by (metis prod_cases3)
    obtain o1 where 1: "pc_run o1 m = ({#}, ws, m1)" "\<forall>k. OpAdd k \<notin> set o1" using handle_response_table [of m r] hr by auto
    obtain o2 where 2: "pc_run o2 m1 = ({#}, vs, m2)" "\<forall>k. OpAdd k \<notin> set o2" using Cons.IH [of m1] hb by auto
    show ?thesis
      by (rule exI [of _ "o1 @ o2"]) (use pc_run_join [OF 1(1) 2(1)] 1(2) 2(2) Some hr hb in simp)
  qed
qed

lemma frames_loop_table:
  assumes "frames_loop pb buf 0 m = (ok, off, ws, m')"
  shows "\<exists>ops. pc_run ops m = ({#}, ws, m') \<and> (\<forall>k. OpAdd k \<notin> set ops)"
proof -
  let ?bad = "failure kInternalError ''invalid response frame length''"
  obtain bodies rest fok where fr: "frames (drop 0 buf) = (bodies, rest, fok)" by (metis prod_cases3)
  obtain hok vs m1 where hb: "handle_bodies pb bodies m = (hok, vs, m1)" by (metis prod_cases3)
  obtain ops where o: "pc_run ops m = ({#}, vs, m1)" "\<forall>k. OpAdd k \<notin> set ops" using handle_bodies_table [of m pb bodies] hb by auto
  from frames_loop_frames [OF fr _ hb] assms
  have "(ws, m') = (if hok \<and> \<not> fok then (vs @ fst (FailAll ?bad m1), snd (FailAll ?bad m1)) else (vs, m1))"
    by auto
  moreover have "pc_run (ops @ [OpFailAll ?bad]) m = ({#}, vs @ fst (FailAll ?bad m1), snd (FailAll ?bad m1))"
    using pc_run_join [OF o(1)] FailAll_table [of ?bad m1] by simp
  ultimately show ?thesis using o
    by (cases "hok \<and> \<not> fok")
      (simp, intro exI [of _ "ops @ [OpFailAll ?bad]"], simp, intro exI [of _ ops], simp)
qed

lemma HandleReadableFrames_table: "uses_table A {#} c (snd (HandleReadableFrames pb t c))"
proof -
  obtain ok off ws m where f: "frames_loop pb (client_buffer c) 0 (pending_calls c) = (ok, off, ws, m)"
    by (metis prod_cases4)
  from frames_loop_table [OF f] obtain ops where "pc_run ops (pending_calls c) = ({#}, ws, m)"
    "\<forall>k. OpAdd k \<notin> set ops" by blast
  then show ?thesis unfolding uses_table_def
    by (intro exI [of _ ops] exI [of _ ws]) (simp add: HandleReadableFrames_def f Let_def)
qed

lemma fail_all_table:
  "pending_calls c' = pending_calls (fail_all e msg c) \<Longrightarrow> log c' = log (fail_all e msg c) \<Longrightarrow> uses_table A {#} c c'"
  by (rule uses_table_on_pending [where op = "OpFailAll (failure e msg)"]) simp_all

lemma write_request_frame:
  assumes "write_request pb q c = (r, c')"
  shows "pending_calls c' = pending_calls c" "log c' = log c" "next_id c' = next_id c"
    "dispatcher_running c' = dispatcher_running c" "sock c' = sock c" "cl_options c' = cl_options c"
    "last_activity_time c' = last_activity_time c" "last_heartbeat_time c' = last_heartbeat_time c"
  using assms by (auto simp: write_request_def split: if_splits prod.splits)

lemma Connect_frame:
  assumes "Connect oc c = (b, c')"
  shows "pending_calls c' = pending_calls c" "log c' = log c" "next_id c' = next_id c"
  using assms by (auto simp: Connect_def split: if_splits)

lemma SendHeartbeatRequest_frame:
  "pending_calls (SendHeartbeatRequest pb c) = pending_calls c" "log (SendHeartbeatRequest pb c) = log c"
  "dispatcher_running (SendHeartbeatRequest pb c) = dispatcher_running c"
  by (cases "write_request pb \<lparr>request_id = ''hb_'' @ to_string (unat (next_id c + 1)), service_name = ''__Heartbeat__'',
        method_name = ''Ping'', payload = []\<rparr> (c\<lparr>next_id := next_id c + 1\<rparr>)",
      simp add: SendHeartbeatRequest_def Let_def write_request_frame)+

lemma dispatcher_tick_table: "uses_table A {#} c (dispatcher_tick pb t c)"
proof -
  let ?c1 = "on_pending (FailTimedOut t (failure kInternalError ''call timeout'')) c"
  have 1: "uses_table A {#} c ?c1"
    by (rule uses_table_on_pending [where op = "OpFailTimedOut t (failure kInternalError ''call timeout'')"]) simp_all
  have "uses_table A {#} ?c1 (dispatcher_tick pb t c)"
    unfolding dispatcher_tick_def Let_def
    by (simp only: split: if_split) (intro conjI impI fail_all_table uses_table_same, simp_all add: SendHeartbeatRequest_frame)
  then show ?thesis by (rule uses_table_trans0 [OF 1])
qed

lemma dispatcher_readable_table: "uses_table A {#} c (snd (dispatcher_readable pb t rx c))"
proof -
  obtain dr rx' c1 where d: "drain_socket t rx c = (dr, rx', c1)" by (metis prod_cases3)
  have 1: "uses_table A {#} c c1" using drain_socket_stream [OF d] by auto
  obtain ok c2 where h: "HandleReadableFrames pb t c1 = (ok, c2)" by fastforce
  have 2: "uses_table A {#} c1 c2" using HandleReadableFrames_table [of _ c1 pb t] h by simp
  note 12 = uses_table_trans0 [OF 1 2]
  let ?c' = "snd (dispatcher_readable pb t rx c)"
  have fin: "uses_table A {#} c2 ?c'" if "\<nexists>e. dr = DrainFailed e"
  proof (cases "ok \<and> dr = PeerClosed \<and> 0 < Size (pending_calls c2)")
    case True
    then show ?thesis
      by (intro fail_all_table [of _ kInternalError "''dispatcher stopped: peer closed connection''"])
        (simp_all add: dispatcher_readable_def d h)
  next
    case False
    then have "pending_calls ?c' = pending_calls c2" "log ?c' = log c2"
      using that by (cases dr; cases ok; simp add: dispatcher_readable_def d h)+
    then show ?thesis by blast
  qed
  show ?thesis
  proof (cases dr)
    case (DrainFailed e)
    have "uses_table A {#} c1 ?c'"
      by (rule fail_all_table [of _ kInternalError "''dispatcher stopped: '' @ e"])
        (simp_all add: dispatcher_readable_def d DrainFailed)
    then show ?thesis by (rule uses_table_trans0 [OF 1])
  qed (use fin uses_table_trans0 [OF 12] in auto)
qed

lemma dispatcher_round_table: "uses_table A {#} c (snd (dispatcher_round qpb rpb w t rx c))"
proof (cases w)
  case kWaitError
  show ?thesis
  proof (cases "dispatcher_running c")
    case True
    then show ?thesis
      by (intro fail_all_table [of _ kInternalError "''dispatcher stopped: event loop error''"])
        (simp_all add: dispatcher_round_def kWaitError)
  qed (auto simp: dispatcher_round_def)
qed (auto simp: dispatcher_round_def dispatcher_tick_table dispatcher_readable_table)

lemma Close_table: "uses_table A {#} c (Close c)"
proof -
  let ?c = "c\<lparr>dispatcher_running := False, sock := False, dispatcher_thread := False, cl_event_loop := False\<rparr>"
  have "uses_table A {#} c ?c" by auto
  moreover have "uses_table A {#} ?c (Close c)"
    by (rule fail_all_table [of _ kInternalError "''connection closed''"]) (simp_all add: Close_def)
  ultimately show ?thesis by (rule uses_table_trans0)
qed

lemma DispatcherLoop_start_table: "uses_table A {#} c (snd (DispatcherLoop_start i a t c))"
proof -
  consider (init) "sock c" "\<not> i" | (add) "sock c" "i" "\<not> a" "dispatcher_running c"
    | (other) "\<not> sock c \<or> i \<and> (a \<or> \<not> dispatcher_running c)" by blast
  then show ?thesis
  proof cases
    case init
    then show ?thesis
      by (intro fail_all_table [of _ kInternalError "''event loop init failed''"]) (simp_all add: DispatcherLoop_start_def)
  next
    case add
    then show ?thesis
      by (intro fail_all_table [of _ kInternalError "''event loop add fd failed''"]) (simp_all add: DispatcherLoop_start_def)
  qed (auto simp: DispatcherLoop_start_def)
qed

end
