(* ===== verification/Rpc_Client_Contract.thy ===== *)
theory Rpc_Client_Contract
  imports Rpc_Client_Calls
begin

text \<open>
  Runs of the client: any interleaving of the atomic sections of the calling threads, of the
  coroutines and of the dispatcher. Whatever the interleaving, every future and every suspended
  coroutine is resolved exactly once or still waits, a dispatcher that stops leaves nobody behind, and
  no two calls get the same request id.
\<close>

section \<open>Calls and the table\<close>

lemma call_send_cases:
  obtains (no_connection) c1 where "Connect oc c = (False, c1)"
      "call_send oc pb service meth body c = (Ready (failure kInternalError ''connect failed''), c1)"
  | (duplicate) c1 where "Connect oc c = (True, c1)"
      "fst (Add (to_string (unat (next_id c1 + 1))) (pending_calls c1)) = False"
      "call_send oc pb service meth body c =
         (Ready (failure kInternalError ''duplicate request_id in pending table''), c1\<lparr>next_id := next_id c1 + 1\<rparr>)"
  | (sent) c1 m r c3 where "Connect oc c = (True, c1)"
      "Add (to_string (unat (next_id c1 + 1))) (pending_calls c1) = (True, m)"
      "write_request pb \<lparr>request_id = to_string (unat (next_id c1 + 1)), service_name = service,
           method_name = meth, payload = body\<rparr> (c1\<lparr>next_id := next_id c1 + 1, pending_calls := m\<rparr>) = (r, c3)"
      "call_send oc pb service meth body c =
         (case r of
            None \<Rightarrow> (WriteBlocked, c3)
          | Some (Inr _) \<Rightarrow> (Written (to_string (unat (next_id c1 + 1))), c3)
          | Some (Inl write_error) \<Rightarrow>
              (let rid = to_string (unat (next_id c1 + 1));
                   res = failure kInternalError (''send request failed: ''
                           @ (if write_error = [] then ''connection closed'' else write_error));
                   c4 = on_pending (\<lambda>m. snd (Complete rid res m)) c3
               in case TryPop rid (pending_calls c4) of
                    (popped, ws, m') \<Rightarrow>
                      (Ready (case popped of Some r \<Rightarrow> r | None \<Rightarrow> res),
                       Close (c4\<lparr>pending_calls := m', log := log c4 @ ws\<rparr>))))"
proof -
  obtain b c1 where co: "Connect oc c = (b, c1)" by fastforce
  let ?rid = "to_string (unat (next_id c1 + 1))"
  obtain added m where ad: "Add ?rid (pending_calls c1) = (added, m)" by fastforce
  obtain r c3 where wr: "write_request pb \<lparr>request_id = ?rid, service_name = service, method_name = meth, payload = body\<rparr>
      (c1\<lparr>next_id := next_id c1 + 1, pending_calls := m\<rparr>) = (r, c3)" by fastforce
  have same: "m = pending_calls c1" if "\<not> added" using ad that by (auto simp: Add_def split: if_splits)
  show thesis
  proof (cases b)
    case False
    with no_connection co show thesis by (simp add: call_send_def)
  next
    case True
    show thesis
    proof (cases added)
      case False
      with duplicate co True ad same show thesis by (simp add: call_send_def NextRequestId_def Let_def)
    next
      case added: True
      show thesis
        by (rule sent [of c1 m r c3])
          (use co True ad added wr in \<open>simp_all add: call_send_def NextRequestId_def Let_def split: option.splits sum.splits\<close>)
    qed
  qed
qed

lemma Add_table: "Add k m = (b, m') \<Longrightarrow> pc_exec (OpAdd k) m = ({#}, [], m')"
  by simp

lemma call_send_table: "uses_table True {#} c (snd (call_send oc pb service meth body c))"
proof (cases rule: call_send_cases [of oc c pb service meth body])
  case (no_connection c1)
  then show ?thesis using Connect_frame [OF no_connection(1)] by auto
next
  case (duplicate c1)
  then show ?thesis using Connect_frame [OF duplicate(1)] by auto
next
  case (sent c1 m r c3)
  note w = write_request_frame(1,2) [OF sent(3)]
  have 1: "uses_table True {#} c c3"
    using Connect_frame [OF sent(1)] sent(2) w by (intro uses_table_op [OF disjI1 [OF TrueI] Add_table]) auto
  show ?thesis
  proof (cases "\<exists>e. r = Some (Inl e)")
    case False
    then have "snd (call_send oc pb service meth body c) = c3"
      unfolding sent(4) by (cases r) (auto split: sum.split)
    with 1 show ?thesis by simp
  next
    case True
    then obtain e where r: "r = Some (Inl e)" by blast
    let ?rid = "to_string (unat (next_id c1 + 1))"
    define res where "res = failure kInternalError (''send request failed: '' @ (if e = [] then ''connection closed'' else e))"
    define c4 where "c4 = on_pending (\<lambda>m. snd (Complete ?rid res m)) c3"
    obtain popped ws m' where tp: "TryPop ?rid (pending_calls c4) = (popped, ws, m')" by (metis prod_cases3)
    have 2: "uses_table True {#} c3 c4"
      by (rule uses_table_on_pending [where op = "OpComplete ?rid res"]) (simp_all add: c4_def)
    have 3: "uses_table True {#} c4 (c4\<lparr>pending_calls := m', log := log c4 @ ws\<rparr>)"
      by (rule uses_table_op [where op = "OpTryPop ?rid"]) (simp_all add: tp)
    have "snd (call_send oc pb service meth body c) = Close (c4\<lparr>pending_calls := m', log := log c4 @ ws\<rparr>)"
      using tp unfolding sent(4) r c4_def res_def by (simp add: Let_def)
    then show ?thesis
      using uses_table_trans0 [OF 1 uses_table_trans0 [OF 2 uses_table_trans0 [OF 3 Close_table]]] by simp
  qed
qed

lemma CallAsync_bind_table: "uses_table A {#Promise p#} c (snd (CallAsync_bind rid p t c))"
proof -
  obtain b ws m where ba: "BindAsync rid p (t + recv_timeout (cl_options c)) (pending_calls c) = (b, ws, m)"
    by (metis prod_cases3)
  let ?c1 = "c\<lparr>pending_calls := m, log := log c @ ws\<rparr>"
  have 1: "uses_table A {#Promise p#} c ?c1"
    by (rule uses_table_op [where op = "OpBindAsync rid p (t + recv_timeout (cl_options c))"]) (simp_all add: ba)
  have 2: "uses_table A {#} ?c1 (on_pending (Remove rid) ?c1)"
    by (rule uses_table_on_pending [where op = "OpRemove rid"]) simp_all
  show ?thesis
    using 1 uses_table_trans [OF 1 2] by (cases b) (simp_all add: CallAsync_bind_def ba)
qed

lemma DirectCallCo_await_suspend_table:
  assumes "DirectCallCo_await_suspend rid dl h c = (suspended, fallback, c')"
  shows "uses_table A (if suspended then {#Handle h#} else {#}) c c'"
proof -
  obtain st m where b: "BindCoroutine rid h dl (pending_calls c) = (st, m)" by fastforce
  with assms have "suspended = (st = kBound)" "pending_calls c' = m" "log c' = log c"
    by (auto simp: DirectCallCo_await_suspend_def split: BindCoroutineStatus.splits)
  then show ?thesis using b by (intro uses_table_op [where op = "OpBindCoroutine rid h dl"]) auto
qed

lemma DirectCallCo_await_resume_table: "uses_table A {#} c (snd (DirectCallCo_await_resume rid fallback c))"
proof (cases fallback)
  case None
  obtain r ws m where "TryPop rid (pending_calls c) = (r, ws, m)" by (metis prod_cases3)
  then show ?thesis
    by (intro uses_table_op [where op = "OpTryPop rid"])
      (auto simp: DirectCallCo_await_resume_def None split: option.splits)
qed (auto simp: DirectCallCo_await_resume_def)

section \<open>Runs\<close>

datatype client_op =
    ClSend connect_outcome string string string
  | ClBindAsync string nat time_point
  | ClAwaitSuspend string time_point nat
  | ClAwaitResume string "RpcCallResult option"
  | ClDispatcherStart bool bool time_point
  | ClRound WaitResult time_point rx_script
  | ClDispatcherEnd
  | ClClose

fun client_exec ::
    "RpcRequest message_ops \<Rightarrow> RpcResponse message_ops \<Rightarrow> client_op \<Rightarrow> rpc_client \<Rightarrow> waiter multiset \<times> rpc_client" where
  "client_exec qpb rpb (ClSend oc service meth body) c = ({#}, snd (call_send oc qpb service meth body c))"
| "client_exec qpb rpb (ClBindAsync rid p t) c = ({#Promise p#}, snd (CallAsync_bind rid p t c))"
| "client_exec qpb rpb (ClAwaitSuspend rid dl h) c =
     (case DirectCallCo_await_suspend rid dl h c of (suspended, _, c') \<Rightarrow> (if suspended then {#Handle h#} else {#}, c'))"
| "client_exec qpb rpb (ClAwaitResume rid fallback) c = ({#}, snd (DirectCallCo_await_resume rid fallback c))"
| "client_exec qpb rpb (ClDispatcherStart i a t) c = ({#}, snd (DispatcherLoop_start i a t c))"
| "client_exec qpb rpb (ClRound w t rx) c = ({#}, snd (dispatcher_round qpb rpb w t rx c))"
| "client_exec qpb rpb ClDispatcherEnd c = ({#}, DispatcherLoop_end c)"
| "client_exec qpb rpb ClClose c = ({#}, Close c)"

fun client_run ::
    "RpcRequest message_ops \<Rightarrow> RpcResponse message_ops \<Rightarrow> client_op list \<Rightarrow> rpc_client \<Rightarrow> waiter multiset \<times> rpc_client" where
  "client_run qpb rpb [] c = ({#}, c)"
| "client_run qpb rpb (op # ops) c =
     (case client_exec qpb rpb op c of (i, c1) \<Rightarrow> (case client_run qpb rpb ops c1 of (j, c2) \<Rightarrow> (i + j, c2)))"

lemma DispatcherLoop_end_table: "uses_table A {#} c (DispatcherLoop_end c)"
  by (auto simp: DispatcherLoop_end_def)

lemma client_exec_table: "client_exec qpb rpb op c = (i, c') \<Longrightarrow> uses_table True i c c'"
  using DirectCallCo_await_suspend_table
  by (cases op) (auto simp: call_send_table CallAsync_bind_table DirectCallCo_await_resume_table
      DispatcherLoop_start_table dispatcher_round_table DispatcherLoop_end_table Close_table split: prod.splits simp del: if_split)

lemma client_run_table: "client_run qpb rpb ops c = (i, c') \<Longrightarrow> uses_table True i c c'"
  by (induction ops arbitrary: c i) (auto split: prod.splits intro: uses_table_trans client_exec_table)

lemma RpcClient_make_table [simp]: "pending_calls (RpcClient_make opts tx) = []" "log (RpcClient_make opts tx) = []"
  "next_id (RpcClient_make opts tx) = 0"
  by (simp_all add: RpcClient_make_def)

text \<open>The pending table of a client that started empty, through the contract of the table.\<close>

lemma client_table_ok:
  assumes "uses_table A i c c'" and "slots_ok (pending_calls c)"
  shows "slots_ok (pending_calls c')"
    and "table_waiters (pending_calls c') + woken (log c') = i + table_waiters (pending_calls c) + woken (log c)"
proof -
  obtain ops ws where r: "pc_run ops (pending_calls c) = (i, ws, pending_calls c')" "log c' = log c @ ws"
    using assms(1) by (auto simp: uses_table_def)
  from pt.run_conserves [OF assms(2) r(1)] r(2)
  show "slots_ok (pending_calls c')"
    and "table_waiters (pending_calls c') + woken (log c') = i + table_waiters (pending_calls c) + woken (log c)"
    by (simp_all add: slot_simps add.assoc add.commute add.left_commute)
qed

lemma client_run_table_ok:
  assumes "client_run qpb rpb ops (RpcClient_make opts tx) = (i, c)"
  shows "slots_ok (pending_calls c)" "table_waiters (pending_calls c) + woken (log c) = i"
  using client_table_ok [OF client_run_table [OF assms]] slots_ok_Nil by (simp_all add: slot_simps)

text \<open>Failing all calls leaves nobody waiting.\<close>

lemma fail_all_nobody: "slots_ok (pending_calls c) \<Longrightarrow> table_waiters (pending_calls (fail_all e msg c)) = {#}"
  using FailAll_conserves [of "pending_calls c" "failure e msg"] by (auto simp: on_pending_def split: prod.split)

lemma Close_nobody: "slots_ok (pending_calls c) \<Longrightarrow> table_waiters (pending_calls (Close c)) = {#}"
  unfolding Close_def by (rule fail_all_nobody) simp

lemma handle_bodies_nobody:
  "slots_ok m \<Longrightarrow> handle_bodies pb bodies m = (False, ws, m') \<Longrightarrow> table_waiters m' = {#}"
proof (induction bodies arbitrary: m ws)
  case (Cons b bs)
  show ?case
  proof (cases "ParseFromArray pb b")
    case None
    with Cons.prems(2) have "FailAll (failure kParseError ''failed to parse RpcResponse'') m = (ws, m')" by simp
    with FailAll_conserves [OF Cons.prems(1)] show ?thesis by blast
  next
    case (Some r)
    obtain vs m1 where hr: "handle_response r m = (vs, m1)" by fastforce
    obtain us where "handle_bodies pb bs m1 = (False, us, m')"
      using Cons.prems(2) Some hr by (auto split: prod.splits)
    moreover obtain ops where "pc_run ops m = ({#}, vs, m1)" using handle_response_table [of m r] hr by auto
    ultimately show ?thesis using Cons.IH pt.run_conserves [OF Cons.prems(1)] by blast
  qed
qed simp

lemma HandleReadableFrames_nobody:
  assumes "slots_ok (pending_calls c)" and "HandleReadableFrames pb t c = (False, c')"
  shows "table_waiters (pending_calls c') = {#}"
proof -
  let ?bad = "failure kInternalError ''invalid response frame length''"
  obtain bodies rest fok where fr: "frames (drop 0 (client_buffer c)) = (bodies, rest, fok)" by (metis prod_cases3)
  obtain hok vs m1 where hb: "handle_bodies pb bodies (pending_calls c) = (hok, vs, m1)" by (metis prod_cases3)
  let ?r = "if hok \<and> \<not> fok then (vs @ fst (FailAll ?bad m1), snd (FailAll ?bad m1)) else (vs, m1)"
  from frames_loop_frames [OF fr _ hb] obtain off where
    "frames_loop pb (client_buffer c) 0 (pending_calls c) = (hok \<and> fok, off, ?r)" by blast
  with assms(2) [symmetric] have "\<not> (hok \<and> fok)" "pending_calls c' = snd ?r"
    unfolding HandleReadableFrames_def Let_def by (simp_all add: case_prod_beta split: if_split_asm del: if_split)
  then have f: "\<not> (hok \<and> fok)" "pending_calls c' = (if hok \<and> \<not> fok then snd (FailAll ?bad m1) else m1)"
    by (simp_all add: if_distrib [of snd])
  obtain ops where "pc_run ops (pending_calls c) = ({#}, vs, m1)"
    using handle_bodies_table [of "pending_calls c" pb bodies] hb by auto
  then have "slots_ok m1" using pt.run_conserves [OF assms(1)] by blast
  then have "table_waiters (snd (FailAll ?bad m1)) = {#}"
    using FailAll_conserves [OF _ prod.collapse [symmetric], of m1 ?bad] by blast
  then show ?thesis using f handle_bodies_nobody [OF assms(1)] hb by (cases hok) auto
qed

lemma HandleReadableFrames_running:
  "HandleReadableFrames pb t c = (ok, c') \<Longrightarrow> dispatcher_running c' = dispatcher_running c"
  by (auto simp: HandleReadableFrames_def Let_def split: prod.splits if_splits)

lemma on_pending_running [simp]: "dispatcher_running (on_pending f c) = dispatcher_running c"
  by (simp add: on_pending_def split: prod.split)

lemma table_waiters_Size_0: "\<not> 0 < Size m \<Longrightarrow> table_waiters m = {#}"
  by (simp add: Size_def slot_simps)

lemma dispatcher_round_nobody:
  assumes "slots_ok (pending_calls c)" and "dispatcher_running c"
    and "dispatcher_round qpb rpb w t rx c = (rx', c')" and "\<not> dispatcher_running c'"
  shows "table_waiters (pending_calls c') = {#}"
proof (cases w)
  case kWaitError
  with assms fail_all_nobody [OF assms(1)] show ?thesis by (auto simp: dispatcher_round_def)
next
  case kTimeout
  let ?c1 = "on_pending (FailTimedOut t (failure kInternalError ''call timeout'')) c"
  have "slots_ok (pending_calls ?c1)"
    using FailTimedOut_conserves [OF assms(1)] by (auto simp: on_pending_def split: prod.split)
  from fail_all_nobody [OF this] assms kTimeout show ?thesis
    by (auto simp: dispatcher_round_def dispatcher_tick_def Let_def SendHeartbeatRequest_frame split: if_splits)
next
  case kReadable
  then have rd: "dispatcher_readable rpb t rx c = (rx', c')" using assms(2,3) by (simp add: dispatcher_round_def)
  obtain dr rx1 c1 where d: "drain_socket t rx c = (dr, rx1, c1)" by (metis prod_cases3)
  have c1: "slots_ok (pending_calls c1)" "dispatcher_running c1" using drain_socket_stream [OF d] assms(1,2) by auto
  obtain ok c2 where h: "HandleReadableFrames rpb t c1 = (ok, c2)" by fastforce
  have c2: "slots_ok (pending_calls c2)" "dispatcher_running c2"
    using client_table_ok(1) [OF HandleReadableFrames_table c1(1), of rpb t] h HandleReadableFrames_running [OF h] c1 by auto
  show ?thesis
    using rd d h c2 assms(4) fail_all_nobody [OF c1(1)] fail_all_nobody [OF c2(1)] table_waiters_Size_0
      HandleReadableFrames_nobody [OF c1(1)]
    by (cases dr; cases ok) (auto simp: dispatcher_readable_def split: if_splits)
qed (use assms in \<open>auto simp: dispatcher_round_def\<close>)

section \<open>Request ids\<close>

lemma pc_exec_keys:
  "pc_exec op m = (i, ws, m') \<Longrightarrow> \<forall>k. op \<noteq> OpAdd k \<Longrightarrow> slots_ok m \<Longrightarrow> set (keys m') \<subseteq> set (keys m)"
proof (induction op)
  case (OpFailAll r)
  with FailAll_conserves [of m r ws m'] show ?case by auto
next
  case (OpFailTimedOut t r)
  with FailTimedOut_conserves [of m t r ws m'] show ?case by auto
qed (auto simp: BindAsync_def BindCoroutine_def Complete_def Let_def WaitAndPop_enter_def WaitAndPop_wake_def pop_slot_def
      TryPop_def Remove_def intro: keys_of_Some split: option.splits if_splits)

lemma pc_run_keys:
  "pc_run ops m = (i, ws, m') \<Longrightarrow> \<forall>k. OpAdd k \<notin> set ops \<Longrightarrow> slots_ok m \<Longrightarrow> set (keys m') \<subseteq> set (keys m)"
proof (induction ops arbitrary: m i ws)
  case (Cons op ops)
  obtain j vs m1 where x: "pc_exec op m = (j, vs, m1)" by (metis prod_cases3)
  obtain j' vs' where r: "pc_run ops m1 = (j', vs', m')" using Cons.prems(1) x by (auto split: prod.splits)
  have "set (keys m1) \<subseteq> set (keys m)" using pc_exec_keys [OF x _ Cons.prems(3)] Cons.prems(2) by auto
  moreover have "slots_ok m1" using pc_exec_conserves [OF Cons.prems(3) x] by blast
  ultimately show ?case using Cons.IH [OF r] Cons.prems(2) by auto
qed simp

lemma uses_table_keys:
  "uses_table False i c c' \<Longrightarrow> slots_ok (pending_calls c) \<Longrightarrow> set (keys (pending_calls c')) \<subseteq> set (keys (pending_calls c))"
  unfolding uses_table_def using pc_run_keys by (elim exE conjE) blast

text \<open>
  The ids in the table are numbers that the counter has passed; \<open>n\<close> bounds the counter while it has not
  wrapped.
\<close>

definition ids_issued :: "nat \<Rightarrow> rpc_client \<Rightarrow> bool" where
  "ids_issued n c \<longleftrightarrow> unat (next_id c) \<le> n \<and> slots_ok (pending_calls c)
     \<and> (\<forall>k \<in> set (keys (pending_calls c)). \<exists>j. 0 < j \<and> j \<le> unat (next_id c) \<and> k = to_string j)"

lemma ids_issued_step:
  assumes "ids_issued n c" and "uses_table False i c c'" and "next_id c' = next_id c \<or> next_id c' = next_id c + 1"
    and "Suc n < 2 ^ 64"
  shows "ids_issued (Suc n) c'"
proof -
  have "unat (next_id c) < 2 ^ 64 - 1" using assms(1,4) by (auto simp: ids_issued_def)
  then have "unat (next_id c + 1) = Suc (unat (next_id c))" by (rule unat_Suc64)
  with assms(3) have "unat (next_id c) \<le> unat (next_id c')" "unat (next_id c') \<le> Suc (unat (next_id c))" by auto
  moreover have "slots_ok (pending_calls c')" using client_table_ok(1) [OF assms(2)] assms(1) by (simp add: ids_issued_def)
  ultimately show ?thesis
    using assms(1) uses_table_keys [OF assms(2)] unfolding ids_issued_def by (meson le_trans Suc_le_mono subsetD)
qed

lemma on_pending_frame [simp]:
  "next_id (on_pending f c) = next_id c" "sock (on_pending f c) = sock c" "cl_options (on_pending f c) = cl_options c"
  "last_activity_time (on_pending f c) = last_activity_time c" "last_heartbeat_time (on_pending f c) = last_heartbeat_time c"
  by (simp_all add: on_pending_def split: prod.split)

lemma SendHeartbeatRequest_next_id: "next_id (SendHeartbeatRequest pb c) = next_id c + 1"
  by (cases "write_request pb \<lparr>request_id = ''hb_'' @ to_string (unat (next_id c + 1)), service_name = ''__Heartbeat__'',
        method_name = ''Ping'', payload = []\<rparr> (c\<lparr>next_id := next_id c + 1\<rparr>)")
    (simp add: SendHeartbeatRequest_def Let_def write_request_frame)

lemma dispatcher_round_next_id:
  "next_id (snd (dispatcher_round qpb rpb w t rx c)) \<in> {next_id c, next_id c + 1}"
proof (cases w)
  case kReadable
  obtain dr rx1 c1 where d: "drain_socket t rx c = (dr, rx1, c1)" by (metis prod_cases3)
  obtain ok c2 where h: "HandleReadableFrames rpb t c1 = (ok, c2)" by fastforce
  have "next_id c1 = next_id c" using drain_socket_stream [OF d] by auto
  moreover have "next_id c2 = next_id c1"
    using h by (auto simp: HandleReadableFrames_def Let_def split: prod.splits if_splits)
  ultimately show ?thesis using d h kReadable
    by (cases dr; cases ok) (simp_all add: dispatcher_round_def dispatcher_readable_def)
qed (simp_all add: dispatcher_round_def dispatcher_tick_def Let_def SendHeartbeatRequest_next_id)

lemma Close_next_id [simp]: "next_id (Close c) = next_id c"
  by (simp add: Close_def)

lemma Add_True: "Add k m = (True, m') \<Longrightarrow> k \<notin> set (keys m) \<and> m' = m @ [(k, Slot_init)] \<and> map_of m' k = Some Slot_init"
  by (auto simp: Add_def map_add_def split: if_splits option.split dest: keys_of_Some)

lemma Complete_new_then_TryPop:
  assumes "map_of m k = Some Slot_init"
  shows "fst (TryPop k (snd (snd (Complete k r m)))) = Some r"
  using assms by (simp add: Complete_def TryPop_def Slot_init_def Let_def)

lemma ids_issued_sent:
  assumes "ids_issued n c1" and "Suc n < 2 ^ 64" and "Add (to_string (unat (next_id c1 + 1))) (pending_calls c1) = (True, m)"
    and "pending_calls c3 = m" and "next_id c3 = next_id c1 + 1"
  shows "ids_issued (Suc n) c3 \<and> to_string (unat (next_id c1 + 1)) = to_string (Suc (unat (next_id c1)))
    \<and> to_string (unat (next_id c1 + 1)) \<notin> set (keys (pending_calls c1))"
proof -
  have u: "unat (next_id c1 + 1) = Suc (unat (next_id c1))"
    using assms(1,2) by (intro unat_Suc64) (auto simp: ids_issued_def)
  have "slots_ok m" using Add_conserves [OF _ assms(3)] assms(1) by (simp add: ids_issued_def)
  then show ?thesis
    using assms(1,4,5) Add_True [OF assms(3)] u unfolding ids_issued_def keys_def by (auto simp: le_Suc_eq)
qed

lemma ids_issued_absent:
  "ids_issued n c \<Longrightarrow> Suc n < 2 ^ 64 \<Longrightarrow> fst (Add (to_string (unat (next_id c + 1))) (pending_calls c))"
  using unat_Suc64 [of "next_id c"] by (fastforce simp: Add_def ids_issued_def)

lemma call_send_issued:
  assumes "ids_issued n c" and "Suc n < 2 ^ 64" and "call_send oc pb service meth body c = (p, c')"
  shows "ids_issued (Suc n) c'
    \<and> p \<noteq> Ready (failure kInternalError ''duplicate request_id in pending table'')
    \<and> (p = Written rid \<longrightarrow> rid = to_string (Suc (unat (next_id c))) \<and> rid \<notin> set (keys (pending_calls c))
          \<and> rid \<in> set (keys (pending_calls c')))"
proof (cases rule: call_send_cases [of oc c pb service meth body])
  case (no_connection c1)
  have "ids_issued (Suc n) c'" using assms no_connection Connect_frame [OF no_connection(1)]
    by (auto intro!: ids_issued_step)
  then show ?thesis using assms(3) no_connection(2) by (auto simp: failure_def)
next
  case (duplicate c1)
  with assms(1,2) Connect_frame [OF duplicate(1)] ids_issued_absent [of n c] show ?thesis by simp
next
  case (sent c1 m r c3)
  note c1 = Connect_frame [OF sent(1)] and w = write_request_frame(1,3) [OF sent(3)]
  let ?rid = "to_string (unat (next_id c1 + 1))"
  have "ids_issued n c1" using assms(1) c1 by (simp add: ids_issued_def)
  from ids_issued_sent [OF this assms(2) sent(2), of c3] w
  have i: "ids_issued (Suc n) c3" "?rid = to_string (Suc (unat (next_id c)))" "?rid \<notin> set (keys (pending_calls c))"
    using c1 by auto
  note ad = Add_True [OF sent(2)]
  show ?thesis
  proof (cases "\<exists>e. r = Some (Inl e)")
    case False
    then have "c' = c3" "p = WriteBlocked \<or> p = Written ?rid"
      using assms(3) unfolding sent(4) by (cases r; auto split: sum.splits)+
    with i ad w show ?thesis by (auto simp: keys_def)
  next
    case True
    then obtain e where r: "r = Some (Inl e)" by blast
    define res where "res = failure kInternalError (''send request failed: '' @ (if e = [] then ''connection closed'' else e))"
    define c4 where "c4 = on_pending (\<lambda>m. snd (Complete ?rid res m)) c3"
    obtain popped ws m' where tp: "TryPop ?rid (pending_calls c4) = (popped, ws, m')" by (metis prod_cases3)
    have "popped = Some res"
      using tp Complete_new_then_TryPop [of "pending_calls c3" ?rid res] ad w
      by (simp add: c4_def on_pending_def split: prod.splits)
    then have p: "p = Ready res" and c': "c' = Close (c4\<lparr>pending_calls := m', log := log c4 @ ws\<rparr>)"
      using tp assms(3) unfolding sent(4) r c4_def res_def by (simp_all add: Let_def)
    have 2: "uses_table False {#} c3 c4"
      by (rule uses_table_on_pending [where op = "OpComplete ?rid res"]) (simp_all add: c4_def)
    have 3: "uses_table False {#} c4 (c4\<lparr>pending_calls := m', log := log c4 @ ws\<rparr>)"
      by (rule uses_table_op [where op = "OpTryPop ?rid"]) (simp_all add: tp)
    have ut: "uses_table False {#} c3 c'"
      using uses_table_trans0 [OF 2 uses_table_trans0 [OF 3 Close_table]] c' by simp
    have "next_id c' = next_id c3" by (simp add: c' c4_def)
    then have "ids_issued (Suc n) c'"
      using i(1) uses_table_keys [OF ut] client_table_ok(1) [OF ut] unfolding ids_issued_def by auto
    then show ?thesis by (simp add: p res_def failure_def)
  qed
qed

lemma client_exec_issued:
  assumes "ids_issued n c" and "Suc n < 2 ^ 64" and "client_exec qpb rpb op c = (i, c')"
  shows "ids_issued (Suc n) c'"
proof (cases op)
  case (ClSend oc service meth body)
  then show ?thesis using call_send_issued [OF assms(1,2) prod.collapse [symmetric]] assms(3) by auto
next
  case (ClRound w t rx)
  then show ?thesis using ids_issued_step [OF assms(1) dispatcher_round_table _ assms(2)] assms(3)
      dispatcher_round_next_id by (metis client_exec.simps(6) insert_iff singletonD snd_conv)
next
  case (ClBindAsync rid p t)
  have "next_id (snd (CallAsync_bind rid p t c)) = next_id c"
    by (auto simp: CallAsync_bind_def split: prod.splits bool.splits)
  then show ?thesis using ids_issued_step [OF assms(1) CallAsync_bind_table _ assms(2)] assms(3) ClBindAsync by auto
next
  case (ClAwaitSuspend rid dl h)
  obtain s f c1 where d: "DirectCallCo_await_suspend rid dl h c = (s, f, c1)" by (metis prod_cases3)
  then have "next_id c1 = next_id c"
    by (auto simp: DirectCallCo_await_suspend_def split: prod.splits BindCoroutineStatus.splits)
  with d show ?thesis
    using ids_issued_step [OF assms(1) DirectCallCo_await_suspend_table [OF d] _ assms(2)] assms(3) ClAwaitSuspend by simp
next
  case (ClAwaitResume rid f)
  have "next_id (snd (DirectCallCo_await_resume rid f c)) = next_id c"
    by (auto simp: DirectCallCo_await_resume_def split: option.splits prod.splits)
  then show ?thesis
    using ids_issued_step [OF assms(1) DirectCallCo_await_resume_table _ assms(2)] assms(3) ClAwaitResume by auto
next
  case (ClDispatcherStart ini add t)
  have "next_id (snd (DispatcherLoop_start ini add t c)) = next_id c" by (simp add: DispatcherLoop_start_def)
  then show ?thesis
    using ids_issued_step [OF assms(1) DispatcherLoop_start_table _ assms(2)] assms(3) ClDispatcherStart by auto
next
  case ClDispatcherEnd
  then show ?thesis using ids_issued_step [OF assms(1) DispatcherLoop_end_table _ assms(2)] assms(3)
    by (auto simp: DispatcherLoop_end_def)
next
  case ClClose
  then show ?thesis using ids_issued_step [OF assms(1) Close_table _ assms(2)] assms(3) by auto
qed

lemma client_run_issued:
  "ids_issued n c \<Longrightarrow> n + length ops < 2 ^ 64 \<Longrightarrow> client_run qpb rpb ops c = (i, c') \<Longrightarrow> ids_issued (n + length ops) c'"
proof (induction ops arbitrary: n c i)
  case (Cons op ops)
  obtain j c1 where x: "client_exec qpb rpb op c = (j, c1)" by fastforce
  then obtain j' where "client_run qpb rpb ops c1 = (j', c')" using Cons.prems(3) by (auto split: prod.splits)
  with Cons.IH [of "Suc n" c1] client_exec_issued [OF Cons.prems(1) _ x] Cons.prems(2) show ?case by simp
qed simp

section \<open>A small concrete client\<close>

text \<open>Concrete message classes: a request body is its id and payload, a response body an id letter and a payload.\<close>

definition client_req :: "RpcRequest message_ops" where
  "client_req =
     \<lparr>ByteSizeLong = (\<lambda>q. length (request_id q @ payload q)),
      SerializeToArray = (\<lambda>q. Some (request_id q @ payload q)), ParseFromArray = (\<lambda>b. None)\<rparr>"

definition client_rsp :: "RpcResponse message_ops" where
  "client_rsp =
     \<lparr>ByteSizeLong = (\<lambda>r. length (rsp_request_id r @ rsp_payload r)),
      SerializeToArray = (\<lambda>r. Some (rsp_request_id r @ rsp_payload r)),
      ParseFromArray = (\<lambda>b. case b of
         i # p \<Rightarrow> Some \<lparr>rsp_request_id = [i], rsp_error_code = proto_OK, rsp_error_msg = [], rsp_payload = p\<rparr>
       | [] \<Rightarrow> None)\<rparr>"

definition all_ok :: connect_outcome where
  "all_ok = \<lparr>socket_ok = True, addr_ok = True, connect_ok = True, sndtimeo_ok = True, rcvtimeo_ok = True\<rparr>"

definition sample_client :: rpc_client where
  "sample_client = RpcClient_make RpcClientOptions_default [Accept 4, Accept 9, Accept 4, Accept 9]"

text \<open>A call that has been sent and whose promise, number 7, is bound.\<close>

definition one_call :: "client_op list" where
  "one_call = [ClSend all_ok ''E'' ''M'' ''x'', ClDispatcherStart True True 0, ClBindAsync ''1'' 7 0]"

definition called :: rpc_client where
  "called = snd (client_run client_req client_rsp one_call sample_client)"

lemma to_string_1 [simp]: "to_string (Suc 0) = ''1''"
  by code_simp

lemma to_string_2 [simp]: "to_string 2 = ''2''"
  by code_simp

lemma called_eq:
  "called = \<lparr>cl_options = RpcClientOptions_default, sock = True, dispatcher_running = True, dispatcher_thread = True,
     cl_event_loop = True, next_id = 1,
     pending_calls = [(''1'', Slot_init\<lparr>async_promise := Some 7, async_bound := True, slot_deadline := ms 2000\<rparr>)],
     last_activity_time = 0, last_heartbeat_time = 0, client_buffer = [], cl_tx = [Accept 4, Accept 9],
     wire = encode ''1x'', log = []\<rparr>"
  by (simp add: called_def one_call_def sample_client_def RpcClient_make_def call_send_def Connect_def all_ok_def
      NextRequestId_def Let_def Add_def write_request_def WriteMessage_def client_req_def kMaxFrameSize_def WriteN.simps
      DispatcherLoop_start_def CallAsync_bind_def BindAsync_def Slot_init_def RpcClientOptions_default_def encode_def htonl_bytes_def)

section \<open>Properties\<close>


lemma called_run: "client_run client_req client_rsp one_call (RpcClient_make RpcClientOptions_default [Accept 4, Accept 9, Accept 4, Accept 9])
    = ({#Promise 7#}, called)"
proof -
  have "fst (client_run client_req client_rsp one_call sample_client) = {#Promise 7#}"
    by (simp add: one_call_def split: prod.split)
  then show ?thesis unfolding called_def sample_client_def by (metis prod.collapse)
qed




text \<open>
  Request ids do not repeat. As long as the 64-bit counter has not wrapped, a call never finds its
  id taken: it is the next number, no call in the table has it, and it is not mistaken for a heartbeat.
\<close>

lemma request_ids_fresh:
  assumes "client_run qpb rpb ops (RpcClient_make opts tx) = (introduced, c)" and "Suc (length ops) < 2 ^ 64"
    and "call_send oc qpb service meth body c = (p, c')"
  shows "p \<noteq> Ready (failure kInternalError ''duplicate request_id in pending table'')
    \<and> (\<forall>rid. p = Written rid \<longrightarrow> rid = to_string (Suc (unat (next_id c))) \<and> rid \<notin> set (keys (pending_calls c))
          \<and> rid \<in> set (keys (pending_calls c')) \<and> \<not> starts_with rid ''hb_'')"
proof -
  have "ids_issued 0 (RpcClient_make opts tx)" using slots_ok_Nil by (simp add: ids_issued_def)
  from client_run_issued [OF this _ assms(1)] assms(2) have i: "ids_issued (length ops) c" by simp
  have "CHR ''h'' \<noteq> digit d" if "d < 10" for d
    using that of_char_digit [OF that] by (auto dest: arg_cong [where f = "of_char :: char \<Rightarrow> nat"])
  from to_string_not_starts_with [OF this] call_send_issued [OF i assms(2,3)] show ?thesis by blast
qed

end
