(* ===== verification/Rpc_Client_Dispatch.thy ===== *)
theory Rpc_Client_Dispatch
  imports Rpc_Client_Contract
begin

text \<open>
  What one round of the dispatcher means for a call: the first response with the call's id is its
  result, however TCP cut the stream; calls without a response are untouched; silence is answered with
  heartbeats and, in the end, with the failure of all calls. The last property is about calls that are
  made after the dispatcher has stopped.
\<close>

section \<open>Responses in order\<close>

fun handle_responses :: "RpcResponse list \<Rightarrow> slots \<Rightarrow> wakeup list \<times> slots" where
  "handle_responses [] m = ([], m)"
| "handle_responses (r # rs) m =
     (case handle_response r m of (ws, m1) \<Rightarrow> (case handle_responses rs m1 of (vs, m2) \<Rightarrow> (ws @ vs, m2)))"

lemma handle_bodies_responses:
  "map (ParseFromArray pb) bodies = map Some rs \<Longrightarrow> handle_bodies pb bodies m = (True, handle_responses rs m)"
proof (induction bodies arbitrary: rs m)
  case (Cons b bs)
  then obtain r rs' where "rs = r # rs'" "ParseFromArray pb b = Some r" "map (ParseFromArray pb) bs = map Some rs'"
    by (cases rs) auto
  with Cons.IH show ?case by (simp split: prod.split)
qed simp

lemma handle_response_other: "rsp_request_id r \<noteq> k \<Longrightarrow> map_of (snd (handle_response r m)) k = map_of m k"
  by (auto simp: handle_response_def Complete_def Let_def split: option.split)

lemma handle_response_settled:
  "map_of m k = None \<or> (\<exists>s. map_of m k = Some s \<and> slot_done s) \<Longrightarrow> map_of (snd (handle_response r m)) k = map_of m k"
  by (cases "rsp_request_id r = k") (auto simp: handle_response_other, auto simp: handle_response_def Complete_def)

lemma handle_responses_settled:
  "map_of m k = None \<or> (\<exists>s. map_of m k = Some s \<and> slot_done s) \<Longrightarrow> map_of (snd (handle_responses rs m)) k = map_of m k"
proof (induction rs arbitrary: m)
  case (Cons r rs)
  obtain ws m1 where h: "handle_response r m = (ws, m1)" by fastforce
  with handle_response_settled [OF Cons.prems, of r] have "map_of m1 k = map_of m k" by simp
  with Cons.IH [of m1] Cons.prems h show ?case by (cases "handle_responses rs m1") simp
qed simp

text \<open>What the caller of \<open>k\<close> sees of the result: its promise or its coroutine, and the slot that is left.\<close>

definition settled_with :: "RpcCallResult \<Rightarrow> string \<Rightarrow> Slot \<Rightarrow> wakeup list \<Rightarrow> slots \<Rightarrow> bool" where
  "settled_with v k s ws m \<longleftrightarrow>
     (case async_promise s of
        Some p \<Rightarrow> SetValue p v \<in> set ws \<and> map_of m k = None
      | None \<Rightarrow> fst (TryPop k m) = Some v \<and> (\<forall>h. coroutine_handle s = Some h \<longrightarrow> Resume h \<in> set ws))"

lemma handle_response_hit:
  assumes "slot_ok s" and "map_of m k = Some s" and "\<not> slot_done s" and "rsp_request_id r = k" and "\<not> starts_with k ''hb_''"
    and "handle_response r m = (ws, m1)"
  shows "settled_with (mapped_result r) k s ws m1
    \<and> (map_of m1 k = None \<or> (\<exists>s'. map_of m1 k = Some s' \<and> slot_done s'))"
proof -
  have c: "snd (Complete k (mapped_result r) m) = (ws, m1)" using assms(4,5,6) by (simp add: handle_response_def)
  show ?thesis
  proof (cases "async_promise s")
    case (Some p)
    with c assms(2,3) show ?thesis by (auto simp: Complete_def Let_def settled_with_def)
  next
    case None
    have "coroutine_bound s \<longleftrightarrow> coroutine_handle s \<noteq> None" using assms(1) by (simp add: slot_ok_def)
    with None c assms(2,3) show ?thesis
      by (cases "coroutine_handle s") (auto simp: Complete_def Let_def settled_with_def TryPop_def)
  qed
qed

lemma settled_with_later:
  assumes "settled_with v k s ws m" and "map_of m' k = map_of m k" and "set ws \<subseteq> set ws'"
  shows "settled_with v k s ws' m'"
proof -
  have "fst (TryPop k m') = fst (TryPop k m)" using assms(2) by (simp add: TryPop_def split: option.split)
  with assms show ?thesis by (auto simp: settled_with_def split: option.splits)
qed

lemma handle_responses_first:
  assumes "slot_ok s" and "map_of m k = Some s" and "\<not> slot_done s" and "\<not> starts_with k ''hb_''"
    and "handle_responses rs m = (ws, m')"
  shows "case find (\<lambda>r. rsp_request_id r = k) rs of
           None \<Rightarrow> map_of m' k = Some s
         | Some r \<Rightarrow> settled_with (mapped_result r) k s ws m'"
  using assms(2,5)
proof (induction rs arbitrary: m ws)
  case (Cons r rs)
  obtain ws1 m1 where h: "handle_response r m = (ws1, m1)" by fastforce
  obtain ws2 where hs: "handle_responses rs m1 = (ws2, m')" "ws = ws1 @ ws2"
    using Cons.prems(2) h by (auto split: prod.splits)
  show ?case
  proof (cases "rsp_request_id r = k")
    case True
    note hit = handle_response_hit [OF assms(1) Cons.prems(1) assms(3) True assms(4) h]
    from handle_responses_settled [of m1 k rs] hit hs have "map_of m' k = map_of m1 k" by simp
    with hit settled_with_later [of "mapped_result r" k s ws1 m1 m' ws] hs(2) True show ?thesis by simp
  next
    case False
    with handle_response_other [of r k m] h Cons.prems(1) have "map_of m1 k = Some s" by simp
    from Cons.IH [OF this hs(1)] show ?thesis
      using False hs(2) settled_with_later [of _ k s ws2 m' m' ws] by (auto split: option.splits)
  qed
qed simp

lemma HandleReadableFrames_ok:
  assumes "frames (client_buffer c) = (bodies, rest, True)" and "map (ParseFromArray pb) bodies = map Some rs"
    and "handle_responses rs (pending_calls c) = (ws, m)"
  shows "\<exists>u. HandleReadableFrames pb t c =
    (True, c\<lparr>pending_calls := m, log := log c @ ws, client_buffer := rest, last_activity_time := u\<rparr>)"
proof -
  have "handle_bodies pb bodies (pending_calls c) = (True, ws, m)"
    using handle_bodies_responses [OF assms(2)] assms(3) by simp
  from frames_loop_frames [OF _ _ this, of 0 "client_buffer c" rest True] assms(1)
  obtain off where off: "off + length rest = length (client_buffer c)"
    and fl: "frames_loop pb (client_buffer c) 0 (pending_calls c) = (True, off, ws, m)" by auto
  have suffix: "drop off (client_buffer c) = rest"
    using frames_suffix [of "client_buffer c"] assms(1) off by auto
  show ?thesis
  proof (cases "off > 0")
    case True
    then show ?thesis using fl suffix by (intro exI [of _ t]) (simp add: HandleReadableFrames_def Let_def erase_front_def)
  next
    case False
    then have "client_buffer c = rest" using suffix by simp
    then show ?thesis using fl False by (intro exI [of _ "last_activity_time c"]) (simp add: HandleReadableFrames_def Let_def)
  qed
qed

lemma fail_all_keeps_settled:
  assumes "settled_with v k s ws m" and "FailAll r m = (vs, m')" and "slots_ok m" and "set ws \<subseteq> set ws'"
  shows "settled_with v k s ws' m'"
proof -
  have "map_of m' k = map_option (released r) (map_of m k)" by (rule map_of_FailAll [OF assms(3,2)])
  then have "map_of m k = None \<Longrightarrow> map_of m' k = None" "fst (TryPop k m) = Some v \<Longrightarrow> fst (TryPop k m') = Some v"
    by (auto simp: TryPop_def released_def split: option.splits if_splits)
  with assms(1,4) show ?thesis by (auto simp: settled_with_def split: option.splits)
qed

lemma handle_responses_table: "\<exists>ops. pc_run ops m = ({#}, handle_responses rs m)"
proof (induction rs arbitrary: m)
  case (Cons r rs)
  obtain ws m1 where h: "handle_response r m = (ws, m1)" by fastforce
  obtain o1 where "pc_run o1 m = ({#}, ws, m1)" using handle_response_table [of m r] h by auto
  moreover obtain vs m2 where hs: "handle_responses rs m1 = (vs, m2)" by fastforce
  moreover from this obtain o2 where "pc_run o2 m1 = ({#}, vs, m2)" using Cons.IH [of m1] by auto
  ultimately have "pc_run (o1 @ o2) m = ({#}, ws @ vs, m2)" using pc_run_join by blast
  then show ?case using h hs by auto
qed (rule exI [of _ "[]"], simp)

section \<open>Heartbeats\<close>

text \<open>Whether a step of the client sends a heartbeat, and when the steps of a run do.\<close>

definition heartbeat_sent :: "client_op \<Rightarrow> rpc_client \<Rightarrow> rpc_client \<Rightarrow> time_point list" where
  "heartbeat_sent op c c' = (case op of ClRound w t rx \<Rightarrow> if next_id c' = next_id c then [] else [t] | _ \<Rightarrow> [])"

fun heartbeat_times ::
    "RpcRequest message_ops \<Rightarrow> RpcResponse message_ops \<Rightarrow> client_op list \<Rightarrow> rpc_client \<Rightarrow> time_point list" where
  "heartbeat_times qpb rpb [] c = []"
| "heartbeat_times qpb rpb (op # ops) c =
     (let c' = snd (client_exec qpb rpb op c) in heartbeat_sent op c c' @ heartbeat_times qpb rpb ops c')"

fun spaced :: "duration \<Rightarrow> time_point \<Rightarrow> time_point list \<Rightarrow> bool" where
  "spaced d x [] \<longleftrightarrow> True"
| "spaced d x (y # ys) \<longleftrightarrow> y - x \<ge> d \<and> spaced d y ys"

lemma SendHeartbeatRequest_options: "cl_options (SendHeartbeatRequest pb c) = cl_options c"
  by (cases "write_request pb \<lparr>request_id = ''hb_'' @ to_string (unat (next_id c + 1)), service_name = ''__Heartbeat__'',
        method_name = ''Ping'', payload = []\<rparr> (c\<lparr>next_id := next_id c + 1\<rparr>)")
    (simp add: SendHeartbeatRequest_def Let_def write_request_frame)

lemma dispatcher_readable_clock:
  assumes "dispatcher_readable pb t rx c = (rx', c')"
  shows "next_id c' = next_id c \<and> last_heartbeat_time c' = last_heartbeat_time c \<and> cl_options c' = cl_options c"
proof -
  obtain dr rx1 c1 where d: "drain_socket t rx c = (dr, rx1, c1)" by (metis prod_cases3)
  obtain ok c2 where h: "HandleReadableFrames pb t c1 = (ok, c2)" by fastforce
  have 1: "next_id c1 = next_id c" "last_heartbeat_time c1 = last_heartbeat_time c" "cl_options c1 = cl_options c"
    using drain_socket_stream [OF d] by auto
  have 2: "next_id c2 = next_id c1" "last_heartbeat_time c2 = last_heartbeat_time c1" "cl_options c2 = cl_options c1"
    using h by (auto simp: HandleReadableFrames_def Let_def split: prod.splits if_splits)
  show ?thesis using assms d h 1 2
    by (cases dr; cases ok) (auto simp: dispatcher_readable_def)
qed

lemma dispatcher_round_clock:
  assumes "dispatcher_round qpb rpb w t rx c = (rx', c')"
  shows "cl_options c' = cl_options c
    \<and> (next_id c' = next_id c \<and> last_heartbeat_time c' = last_heartbeat_time c
     \<or> next_id c' = next_id c + 1 \<and> last_heartbeat_time c' = t
       \<and> t - last_heartbeat_time c \<ge> heartbeat_interval (cl_options c))"
proof (cases w)
  case kReadable
  then show ?thesis using assms dispatcher_readable_clock [of rpb t rx c rx' c'] by (cases "dispatcher_running c") (auto simp: dispatcher_round_def)
qed (use assms in \<open>auto simp: dispatcher_round_def dispatcher_tick_def Let_def SendHeartbeatRequest_next_id
      SendHeartbeatRequest_options split: if_splits\<close>)

lemma call_send_clock:
  "last_heartbeat_time (snd (call_send oc pb service meth body c)) = last_heartbeat_time c
   \<and> cl_options (snd (call_send oc pb service meth body c)) = cl_options c"
proof (cases rule: call_send_cases [of oc c pb service meth body])
  case (sent c1 m r c3)
  have "last_heartbeat_time c1 = last_heartbeat_time c" "cl_options c1 = cl_options c"
    using sent(1) by (auto simp: Connect_def split: if_splits)
  with write_request_frame(6,8) [OF sent(3)] show ?thesis unfolding sent(4)
    by (cases r) (auto simp: Let_def Close_def split: sum.splits prod.splits)
qed (auto simp: Connect_def split: if_splits)

lemma client_exec_clock:
  assumes "client_exec qpb rpb op c = (i, c')" and "\<forall>ini add t. op \<noteq> ClDispatcherStart ini add t"
  shows "cl_options c' = cl_options c
    \<and> (heartbeat_sent op c c' = [] \<and> last_heartbeat_time c' = last_heartbeat_time c
     \<or> heartbeat_sent op c c' = [last_heartbeat_time c']
       \<and> last_heartbeat_time c' - last_heartbeat_time c \<ge> heartbeat_interval (cl_options c))"
proof (cases op)
  case (ClRound w t rx)
  then show ?thesis
    using assms(1) dispatcher_round_clock [of qpb rpb w t rx c, OF prod.collapse [symmetric]] by (auto simp: heartbeat_sent_def)
next
  case (ClSend oc service meth body)
  then show ?thesis using assms(1) call_send_clock [of oc qpb service meth body c] by (auto simp: heartbeat_sent_def)
next
  case (ClBindAsync rid p t)
  then show ?thesis using assms(1) by (auto simp: heartbeat_sent_def CallAsync_bind_def split: prod.splits bool.splits)
next
  case (ClAwaitSuspend rid dl h)
  then show ?thesis using assms(1)
    by (auto simp: heartbeat_sent_def DirectCallCo_await_suspend_def split: prod.splits BindCoroutineStatus.splits)
next
  case (ClAwaitResume rid f)
  then show ?thesis using assms(1)
    by (auto simp: heartbeat_sent_def DirectCallCo_await_resume_def split: prod.splits option.splits)
next
  case ClDispatcherEnd
  then show ?thesis using assms(1) by (auto simp: heartbeat_sent_def DispatcherLoop_end_def)
next
  case ClClose
  then show ?thesis using assms(1) by (auto simp: heartbeat_sent_def Close_def)
qed (use assms(2) in auto)

section \<open>Properties\<close>

text \<open>
  C13: the first response with a call's id is its result, and it reaches that call and no other. However the
  bytes arrive, when the dispatcher has drained the socket the complete response frames so far have been
  handled in order: a waiting call whose id occurs gets the result of the first such response (through its
  promise, or in its slot with its coroutine resumed), even if the peer closes right after; a call whose
  id does not occur keeps its slot as it was; and the bytes of an incomplete frame stay in the buffer.
\<close>

theorem first_response_wins:
  assumes "slots_ok (pending_calls c)" and "dispatcher_running c"
    and "rx_verdict rx \<in> {RecvFail EAGAIN, RecvFail EWOULDBLOCK, Eof}"
    and "frames (client_buffer c @ rx_stream rx) = (bodies, rest, True)"
    and "map (ParseFromArray rpb) bodies = map Some rs"
    and "map_of (pending_calls c) k = Some s" and "\<not> slot_done s" and "\<not> starts_with k ''hb_''"
    and "dispatcher_round qpb rpb kReadable t rx c = (rx', c')"
  shows "client_buffer c' = rest
    \<and> (case find (\<lambda>r. rsp_request_id r = k) rs of
         Some r \<Rightarrow> settled_with (mapped_result r) k s (drop (length (log c)) (log c')) (pending_calls c')
       | None \<Rightarrow> rx_verdict rx \<noteq> Eof \<longrightarrow> map_of (pending_calls c') k = Some s)"
proof -
  obtain dr rx1 c1 where d: "drain_socket t rx c = (dr, rx1, c1)" by (metis prod_cases3)
  note ds = drain_socket_stream [OF d]
  then have dr: "dr = (if rx_verdict rx = Eof then PeerClosed else Drained)" using assms(3) by (cases "rx_verdict rx = Eof") auto
  have c1: "client_buffer c1 = client_buffer c @ rx_stream rx" "pending_calls c1 = pending_calls c" "log c1 = log c"
    using ds by auto
  obtain ws m where hs: "handle_responses rs (pending_calls c) = (ws, m)" by fastforce
  then obtain u where "HandleReadableFrames rpb t c1 =
      (True, c1\<lparr>pending_calls := m, log := log c1 @ ws, client_buffer := rest, last_activity_time := u\<rparr>)"
    using HandleReadableFrames_ok [of c1 bodies rest rpb rs ws m t] assms(4,5) c1 by auto
  moreover define c2 where "c2 = c1\<lparr>pending_calls := m, log := log c1 @ ws, client_buffer := rest, last_activity_time := u\<rparr>"
  ultimately have c': "c' = (if dr = PeerClosed
      then (if Size m > 0 then fail_all kInternalError ''dispatcher stopped: peer closed connection'' c2 else c2)\<lparr>dispatcher_running := False\<rparr>
      else c2)"
    using assms(2,9) d dr by (auto simp: dispatcher_round_def dispatcher_readable_def)
  have first: "case find (\<lambda>r. rsp_request_id r = k) rs of None \<Rightarrow> map_of m k = Some s
      | Some r \<Rightarrow> settled_with (mapped_result r) k s ws m"
    by (rule handle_responses_first [OF slots_ok_lookup [OF assms(1,6)] assms(6,7,8) hs])
  obtain ops where "pc_run ops (pending_calls c) = ({#}, ws, m)"
    using handle_responses_table [of "pending_calls c" rs] hs by auto
  then have m_ok: "slots_ok m" using pt.run_conserves [OF assms(1)] by blast
  show ?thesis
  proof (cases "rx_verdict rx = Eof \<and> Size m > 0")
    case False
    then have "client_buffer c' = rest" "pending_calls c' = m" "log c' = log c @ ws" by (auto simp: c' dr c2_def c1)
    with first show ?thesis by (auto split: option.splits)
  next
    case True
    obtain vs m' where fa: "FailAll (failure kInternalError ''dispatcher stopped: peer closed connection'') m = (vs, m')" by fastforce
    with True have "client_buffer c' = rest" "pending_calls c' = m'" "log c' = log c @ (ws @ vs)"
      by (simp_all add: c' dr c2_def c1 on_pending_def)
    moreover have "settled_with v k s (ws @ vs) m'" if "settled_with v k s ws m" for v
      by (rule fail_all_keeps_settled [OF that fa m_ok]) simp
    ultimately show ?thesis using first True by (auto split: option.splits)
  qed
qed

theorem first_response_wins_witness:
  "let c' = snd (dispatcher_round client_req client_rsp kReadable 5
        [Arrive (take 3 (encode ''1a'')), RecvError EINTR, Arrive (drop 3 (encode ''1a'') @ encode ''1b'' @ ''?''), PeerClose] called)
   in client_buffer c' = ''?'' \<and> SetValue 7 (failure kOk []\<lparr>response_payload := ''a''\<rparr>) \<in> set (log c')
      \<and> map_of (pending_calls c') ''1'' = None"
proof -
  let ?rx = "[Arrive (take 3 (encode ''1a'')), RecvError EINTR, Arrive (drop 3 (encode ''1a'') @ encode ''1b'' @ ''?''), PeerClose]"
  let ?s = "Slot_init\<lparr>async_promise := Some 7, async_bound := True, slot_deadline := ms 2000\<rparr>"
  let ?r = "\<lambda>p. \<lparr>rsp_request_id = ''1'', rsp_error_code = proto_OK, rsp_error_msg = [], rsp_payload = p\<rparr>"
  obtain rx' c' where dr: "dispatcher_round client_req client_rsp kReadable 5 ?rx called = (rx', c')" by fastforce
  have ok: "slots_ok (pending_calls called)" by (rule client_run_table_ok(1) [OF called_run])
  have run: "dispatcher_running called" "map_of (pending_calls called) ''1'' = Some ?s" "log called = []"
    by (simp_all add: called_eq)
  have "rx_stream ?rx = encode ''1a'' @ encode ''1b'' @ ''?''" by simp
  moreover have "client_buffer called = []" by (simp add: called_eq)
  moreover have "frames ''?'' = ([], ''?'', True)" by (simp add: frames_cases(1) next_frame_def kFrameHeaderBytes_def)
  moreover have "frame_body_ok ''1a''" "frame_body_ok ''1b''" by (simp_all add: frame_body_ok_def kMaxFrameSize_def)
  ultimately have fr: "frames (client_buffer called @ rx_stream ?rx) = ([''1a'', ''1b''], ''?'', True)"
    by (simp only: append_Nil frames_encode_Cons fst_conv snd_conv)
  have pa: "map (ParseFromArray client_rsp) [''1a'', ''1b''] = map Some [?r ''a'', ?r ''b'']" by (simp add: client_rsp_def)
  have vd: "rx_verdict ?rx \<in> {RecvFail EAGAIN, RecvFail EWOULDBLOCK, Eof}" by simp
  have "client_buffer c' = ''?'' \<and> settled_with (mapped_result (?r ''a'')) ''1'' ?s (log c') (pending_calls c')"
    using first_response_wins [OF ok run(1) vd fr pa run(2) _ _ dr] by (simp add: Slot_init_def starts_with_def run(3))
  moreover have "mapped_result (?r ''a'') = failure kOk []\<lparr>response_payload := ''a''\<rparr>"
    by (simp add: mapped_result_def failure_def FromProtoErrorCode_def)
  ultimately show ?thesis using dr by (simp add: Let_def settled_with_def)
qed

text \<open>
  Heartbeats keep their distance. While one dispatcher runs, in any interleaving with calls and
  other rounds, two heartbeats are at least the heartbeat interval apart, and the first comes no earlier
  than one interval after the start of the dispatcher.
\<close>

lemma heartbeats_spaced:
  assumes "\<forall>ini add t. ClDispatcherStart ini add t \<notin> set ops"
  shows "spaced (heartbeat_interval (cl_options c)) (last_heartbeat_time c) (heartbeat_times qpb rpb ops c)"
  using assms
proof (induction ops arbitrary: c)
  case (Cons op ops)
  obtain i c' where x: "client_exec qpb rpb op c = (i, c')" by fastforce
  have "spaced (heartbeat_interval (cl_options c')) (last_heartbeat_time c') (heartbeat_times qpb rpb ops c')"
    using Cons.IH [of c'] Cons.prems by simp
  moreover have "\<forall>ini add t. op \<noteq> ClDispatcherStart ini add t" using Cons.prems by auto
  ultimately show ?case using client_exec_clock [OF x] x by (auto simp: Let_def)
qed simp

text \<open>
  A silent peer is detected. A tick of a running dispatcher stops it exactly if heartbeats are
  supervised and nothing has arrived for the heartbeat timeout; then all calls are failed. Otherwise it
  goes on.
\<close>

lemma silent_peer_detected:
  assumes "slots_ok (pending_calls c)" and "dispatcher_running c" and "dispatcher_round qpb rpb kTimeout t rx c = (rx', c')"
  shows "(\<not> dispatcher_running c' \<longleftrightarrow>
      heartbeat_timeout (cl_options c) > 0 \<and> t - last_activity_time c \<ge> heartbeat_timeout (cl_options c))
    \<and> (\<not> dispatcher_running c' \<longrightarrow> table_waiters (pending_calls c') = {#})"
proof -
  have "c' = dispatcher_tick qpb t c" using assms(2,3) by (simp add: dispatcher_round_def)
  then have "\<not> dispatcher_running c' \<longleftrightarrow>
      heartbeat_timeout (cl_options c) > 0 \<and> t - last_activity_time c \<ge> heartbeat_timeout (cl_options c)"
    using assms(2) by (simp add: dispatcher_tick_def Let_def SendHeartbeatRequest_frame)
  with dispatcher_round_nobody [OF assms] show ?thesis by blast
qed

text \<open>
  C15: a call made after the dispatcher has stopped by itself is never settled. Nothing resets the socket
  when the dispatcher stops, so the next call takes the connection for a live one, its request is
  written and its promise bound, but no further round does anything: the future stays unresolved, its
  timeout included, until \<open>Close\<close> is called.
\<close>

theorem call_after_stop_never_settles:
  assumes "slots_ok (pending_calls c)" and "sock c" and "\<not> dispatcher_running c"
    and "call_send oc qpb service meth body c = (Written rid, c1)"
    and "CallAsync_bind rid p t c1 = (r, c2)"
  shows "r = Inr p \<and> Connect oc c2 = (True, c2)
    \<and> (\<forall>rounds. foldl (\<lambda>c (w, t, rx). snd (dispatcher_round qpb rpb w t rx c)) c2 rounds = c2)
    \<and> Promise p \<in># table_waiters (pending_calls c2) \<and> table_waiters (pending_calls (Close c2)) = {#}"
proof -
  have con: "Connect oc c = (True, c)" using assms(2) by (simp add: Connect_def)
  obtain m where ad: "Add rid (pending_calls c) = (True, m)" and c1: "pending_calls c1 = m" "log c1 = log c" "sock c1"
      "\<not> dispatcher_running c1" "cl_options c1 = cl_options c"
  proof (cases rule: call_send_cases [of oc c qpb service meth body])
    case (sent d m r c3)
    have d: "d = c" using sent(1) con by simp
    have r: "r = Some (Inr ())"
      using assms(4) unfolding sent(4) by (auto simp: Let_def split: option.splits sum.splits prod.splits)
    then have "c1 = c3" "rid = to_string (unat (next_id d + 1))" using assms(4) unfolding sent(4) by auto
    with that sent(2) write_request_frame(1,2,4,5,6) [OF sent(3)] assms(2,3) d show thesis by simp
  qed (use assms(4) con in auto)
  have new: "map_of m rid = Some Slot_init" using Add_True [OF ad] by blast
  let ?s = "Slot_init\<lparr>async_promise := Some p, async_bound := True, slot_deadline := t + recv_timeout (cl_options c)\<rparr>"
  have ba: "BindAsync rid p (t + recv_timeout (cl_options c1)) (pending_calls c1) = (True, [], put_key rid ?s m)"
    unfolding c1(1,5) BindAsync_def new by (simp add: Slot_init_def)
  then have c2: "r = Inr p" "c2 = c1\<lparr>pending_calls := put_key rid ?s m\<rparr>"
    using assms(5) by (simp_all add: CallAsync_bind_def)
  have m_ok: "slots_ok m" using Add_conserves [OF assms(1) ad] by blast
  have w: "slots_ok (pending_calls c2)" "table_waiters (pending_calls c2) = add_mset (Promise p) (table_waiters m)"
    using BindAsync_conserves [OF m_ok, of rid p _ True "[]"] ba c1 c2 by (auto simp: slot_simps)
  have "foldl (\<lambda>c (w, t, rx). snd (dispatcher_round qpb rpb w t rx c)) c2 rounds = c2" for rounds
    using c1(4) c2(2) by (induction rounds) (auto simp: dispatcher_round_def)
  then show ?thesis using w c1 c2 Close_nobody [OF w(1)] by (simp add: Connect_def)
qed

theorem call_after_stop_never_settles_witness:
  "let stopped = snd (dispatcher_round client_req client_rsp kWaitError 0 [] called);
       c1 = snd (call_send all_ok client_req ''E'' ''M'' ''y'' stopped);
       c2 = snd (CallAsync_bind ''2'' 8 0 c1)
   in Promise 8 \<in># table_waiters (pending_calls (snd (dispatcher_round client_req client_rsp kTimeout (secs 100) [] c2)))"
proof -
  define st where "st = snd (dispatcher_round client_req client_rsp kWaitError 0 [] called)"
  have st: "sock st" "\<not> dispatcher_running st" by (simp_all add: st_def dispatcher_round_def called_eq)
  have ok: "slots_ok (pending_calls st)"
    using client_table_ok(1) [OF dispatcher_round_table client_run_table_ok(1) [OF called_run]] by (simp add: st_def)
  have cs: "fst (call_send all_ok client_req ''E'' ''M'' ''y'' st) = Written ''2''"
    by (simp add: st_def dispatcher_round_def called_eq on_pending_def FailAll_def wake_all_def take_promise_def take_handle_def
        Let_def Slot_init_def call_send_def Connect_def NextRequestId_def Add_def write_request_def WriteMessage_def
        client_req_def kMaxFrameSize_def WriteN.simps htonl_bytes_def)
  obtain c1 where c1: "call_send all_ok client_req ''E'' ''M'' ''y'' st = (Written ''2'', c1)" using cs by (metis prod.collapse)
  obtain r c2 where c2: "CallAsync_bind ''2'' 8 0 c1 = (r, c2)" by fastforce
  note never = call_after_stop_never_settles [OF ok st c1 c2, of client_rsp]
  then have "snd (dispatcher_round client_req client_rsp kTimeout (secs 100) [] c2) = c2"
    by (metis (no_types, lifting) case_prod_conv foldl_Cons foldl_Nil)
  with never show ?thesis unfolding Let_def st_def [symmetric] c1 c2 snd_conv by simp
qed

lemma uses_table_subset:
  "uses_table A {#} c c' \<Longrightarrow> slots_ok (pending_calls c) \<Longrightarrow> table_waiters (pending_calls c') \<subseteq># table_waiters (pending_calls c)"
  unfolding uses_table_def using pt.run_conserves by (elim exE conjE) (metis add.left_neutral mset_subset_eq_add_left)

lemma call_send_progress:
  assumes "slots_ok (pending_calls c)" and "call_send oc pb service meth body c = (p, c')"
  shows "case p of
      Ready r \<Rightarrow> st_code (status r) = make_error_code kInternalError \<and> table_waiters (pending_calls c') \<subseteq># table_waiters (pending_calls c)
    | WriteBlocked \<Rightarrow> table_waiters (pending_calls c') = table_waiters (pending_calls c)
    | Written rid \<Rightarrow> slots_ok (pending_calls c') \<and> map_of (pending_calls c') rid = Some Slot_init
        \<and> table_waiters (pending_calls c') = table_waiters (pending_calls c)"
proof -
  have sub: "table_waiters (pending_calls c') \<subseteq># table_waiters (pending_calls c)"
    using uses_table_subset [OF call_send_table assms(1), of oc pb service meth body] assms(2) by simp
  show ?thesis
  proof (cases rule: call_send_cases [of oc c pb service meth body])
    case (sent c1 m r c3)
    let ?rid = "to_string (unat (next_id c1 + 1))"
    have ad: "map_of m ?rid = Some Slot_init" using Add_True [OF sent(2)] by blast
    have w: "pending_calls c3 = m" using write_request_frame(1) [OF sent(3)] by simp
    have m: "slots_ok m" "table_waiters m = table_waiters (pending_calls c)"
      using Add_conserves [OF _ sent(2)] Connect_frame [OF sent(1)] assms(1) by auto
    show ?thesis
    proof (cases "\<exists>e. r = Some (Inl e)")
      case False
      then show ?thesis using assms(2) m ad w unfolding sent(4) by (cases r) (auto split: sum.splits)
    next
      case True
      then obtain e where r: "r = Some (Inl e)" by blast
      define res where "res = failure kInternalError (''send request failed: '' @ (if e = [] then ''connection closed'' else e))"
      define c4 where "c4 = on_pending (\<lambda>m. snd (Complete ?rid res m)) c3"
      obtain popped ws m' where tp: "TryPop ?rid (pending_calls c4) = (popped, ws, m')" by (metis prod_cases3)
      have "popped = Some res"
        using tp Complete_new_then_TryPop [of "pending_calls c3" ?rid res] ad w
        by (simp add: c4_def on_pending_def split: prod.splits)
      then have "p = Ready res" using tp assms(2) unfolding sent(4) r c4_def res_def by (simp add: Let_def)
      with sub show ?thesis by (simp add: res_def failure_def)
    qed
  qed (use assms(2) sub in \<open>auto simp: failure_def\<close>)
qed

text \<open>
  What a caller gets. A call that is not disturbed by other threads either returns a future whose
  promise waits in the table (or suspends its coroutine, whose handle waits there), or it reports an
  internal error at once and leaves no waiter of its own behind; a result is never made up.
\<close>

lemma call_outcomes:
  assumes "slots_ok (pending_calls c)"
  shows "(case CallAsync oc qpb service meth body p t c of
        (Some (Inr q), c') \<Rightarrow> q = p \<and> table_waiters (pending_calls c') = add_mset (Promise p) (table_waiters (pending_calls c))
      | (Some (Inl r), c') \<Rightarrow> st_code (status r) = make_error_code kInternalError
          \<and> table_waiters (pending_calls c') \<subseteq># table_waiters (pending_calls c)
      | (None, c') \<Rightarrow> table_waiters (pending_calls c') = table_waiters (pending_calls c))
    \<and> (case CallCo oc qpb service meth body h t c of
        (Some (Inr rid), c') \<Rightarrow> table_waiters (pending_calls c') = add_mset (Handle h) (table_waiters (pending_calls c))
      | (Some (Inl r), c') \<Rightarrow> st_code (status r) = make_error_code kInternalError
          \<and> table_waiters (pending_calls c') \<subseteq># table_waiters (pending_calls c)
      | (None, c') \<Rightarrow> table_waiters (pending_calls c') = table_waiters (pending_calls c))"
proof -
  obtain pr c1 where cs: "call_send oc qpb service meth body c = (pr, c1)" by fastforce
  note progress = call_send_progress [OF assms cs]
  show ?thesis
  proof (cases pr)
    case (Written rid)
    with progress have w: "slots_ok (pending_calls c1)" "map_of (pending_calls c1) rid = Some Slot_init"
        "table_waiters (pending_calls c1) = table_waiters (pending_calls c)" by auto
    obtain m where ba: "BindAsync rid p (t + recv_timeout (cl_options c1)) (pending_calls c1) = (True, [], m)"
      unfolding BindAsync_def w(2) by (simp add: Slot_init_def)
    obtain m2 where bc: "BindCoroutine rid h (t + recv_timeout (cl_options c1)) (pending_calls c1) = (kBound, m2)"
      unfolding BindCoroutine_def w(2) by (simp add: Slot_init_def)
    show ?thesis
      using BindAsync_conserves [OF w(1) ba] BindCoroutine_conserves [OF w(1) bc] w(3) Written
      by (simp add: CallAsync_def CallCo_def cs CallAsync_bind_def DirectCallCo_await_suspend_def ba bc slot_simps)
  qed (use progress in \<open>simp_all add: CallAsync_def CallCo_def cs\<close>)
qed

end
