(* ===== verification/Load_Balancer.thy ===== *)
theory Load_Balancer
  imports Rpc_Prelude
begin

text \<open>
  The load-balancing strategies of the client pool (\<open>src/client/load_balancer.{h,cpp}\<close>). A strategy
  sees the candidates only through their number and their in-flight counts. Other threads change
  those counts while \<open>Select\<close> runs, so the count that the \<open>p\<close>-th pass over the candidates reads for
  candidate \<open>i\<close> is the value \<open>rd p i\<close> of an arbitrary function. The counters are 64-bit and wrap;
  \<open>fetch_add\<close> is one atomic step, so concurrent calls draw different values and a sequence of calls
  is all that has to be looked at. \<open>None\<close> is the remainder by zero that \<open>Select\<close> would compute for
  an empty list of candidates.
\<close>

type_synonym readings = "nat \<Rightarrow> nat \<Rightarrow> u64"

section \<open>Round robin\<close>

record RoundRobinBalancer =
  next_index :: u64

definition RoundRobin_make :: RoundRobinBalancer where
  "RoundRobin_make = \<lparr>next_index = 0\<rparr>"

definition RoundRobin_Select :: "nat \<Rightarrow> RoundRobinBalancer \<Rightarrow> (nat \<times> RoundRobinBalancer) option" where
  "RoundRobin_Select n b =
     (if n = 0 then None
      else Some (unat (next_index b) mod n, b\<lparr>next_index := next_index b + 1\<rparr>))"

section \<open>Least in flight\<close>

record LeastInflightBalancer =
  tie_breaker :: u64

definition LeastInflight_make :: LeastInflightBalancer where
  "LeastInflight_make = \<lparr>tie_breaker = 0\<rparr>"

definition size_max :: u64 where
  "size_max = - 1"

text \<open>The first pass finds the minimum, the second collects the candidates that have it.\<close>

definition min_inflight :: "(nat \<Rightarrow> u64) \<Rightarrow> nat \<Rightarrow> u64" where
  "min_inflight r n = foldl (\<lambda>m i. if r i < m then r i else m) size_max [0..<n]"

definition tie_indices :: "(nat \<Rightarrow> u64) \<Rightarrow> u64 \<Rightarrow> nat \<Rightarrow> nat list" where
  "tie_indices r m n = filter (\<lambda>i. r i = m) [0..<n]"

text \<open>The third pass, used if the counts moved between the first two: minimum and ties at once.\<close>

definition recount_step :: "(nat \<Rightarrow> u64) \<Rightarrow> u64 \<times> nat list \<Rightarrow> nat \<Rightarrow> u64 \<times> nat list" where
  "recount_step r s i =
     (case s of (m, ties) \<Rightarrow>
        if r i < m then (r i, [i]) else if r i = m then (m, ties @ [i]) else (m, ties))"

definition recount :: "(nat \<Rightarrow> u64) \<Rightarrow> nat \<Rightarrow> nat list" where
  "recount r n =
     (let ties = snd (foldl (recount_step r) (size_max, []) [0..<n]) in
      if ties = [] \<and> n \<noteq> 0 then [0] else ties)"

definition candidate_ties :: "readings \<Rightarrow> nat \<Rightarrow> nat list" where
  "candidate_ties rd n =
     (let ties = tie_indices (rd 1) (min_inflight (rd 0) n) n in
      if ties = [] then recount (rd 2) n else ties)"

definition LeastInflight_Select ::
    "nat \<Rightarrow> readings \<Rightarrow> LeastInflightBalancer \<Rightarrow> (nat \<times> LeastInflightBalancer) option" where
  "LeastInflight_Select n rd b =
     (let ties = candidate_ties rd n in
      if ties = [] then None
      else Some (ties ! (unat (tie_breaker b) mod length ties), b\<lparr>tie_breaker := tie_breaker b + 1\<rparr>))"

section \<open>The strategy object\<close>

datatype LoadBalancer = RoundRobin RoundRobinBalancer | LeastInflight LeastInflightBalancer

fun Select :: "nat \<Rightarrow> readings \<Rightarrow> LoadBalancer \<Rightarrow> (nat \<times> LoadBalancer) option" where
  "Select n rd (RoundRobin b) = map_option (\<lambda>(i, b'). (i, RoundRobin b')) (RoundRobin_Select n b)"
| "Select n rd (LeastInflight b) = map_option (\<lambda>(i, b'). (i, LeastInflight b')) (LeastInflight_Select n rd b)"

fun Name :: "LoadBalancer \<Rightarrow> string" where
  "Name (RoundRobin b) = ''RoundRobin''"
| "Name (LeastInflight b) = ''LeastInflight''"

section \<open>The passes\<close>

lemma min_fold: "foldl (\<lambda>m i. if r i < m then r i else (m::'a::linorder)) z xs = Min (insert z (r ` set xs))"
proof (induction xs arbitrary: z)
  case (Cons x xs)
  have "Min (insert (if r x < z then r x else z) (r ` set xs)) = Min (insert z (insert (r x) (r ` set xs)))"
    by (cases "r ` set xs = {}") (auto simp: min_def)
  with Cons show ?case by simp
qed simp

lemma min_inflight_Min: "min_inflight r n = Min (insert size_max (r ` {..<n}))"
  unfolding min_inflight_def by (simp add: min_fold lessThan_atLeast0)

lemma size_max_top [simp]: "x \<le> size_max"
  by (simp add: size_max_def)

lemma min_inflight_le: "i < n \<Longrightarrow> min_inflight r n \<le> r i"
  by (simp add: min_inflight_Min)

lemma min_inflight_attained:
  assumes "0 < n"
  shows "\<exists>i<n. r i = min_inflight r n"
proof -
  have "min_inflight r n \<in> insert size_max (r ` {..<n})"
    unfolding min_inflight_Min by (rule Min_in) auto
  moreover have "r 0 = size_max" if "min_inflight r n = size_max"
    using that min_inflight_le [of 0 n r] assms size_max_top [of "r 0"] by simp
  ultimately show ?thesis using assms by auto
qed

text \<open>The third pass computes what the first two compute when nothing moves.\<close>

lemma recount_fold:
  "foldl (recount_step r) (size_max, []) [0..<n] = (min_inflight r n, tie_indices r (min_inflight r n) n)"
proof (induction n)
  case 0
  then show ?case by (simp add: min_inflight_def tie_indices_def)
next
  case (Suc n)
  have m: "min_inflight r (Suc n) = (if r n < min_inflight r n then r n else min_inflight r n)"
    by (simp add: min_inflight_def)
  have "tie_indices r (r n) n = []" if "r n < min_inflight r n"
    using that by (auto simp: tie_indices_def filter_empty_conv dest!: leD [OF min_inflight_le [of _ _ r]])
  with Suc m show ?case
    by (auto simp: recount_step_def tie_indices_def)
qed

lemma tie_indices_ok:
  "distinct (tie_indices r m n)" "i \<in> set (tie_indices r m n) \<longleftrightarrow> i < n \<and> r i = m"
  by (auto simp: tie_indices_def)

lemma tie_indices_min_not_Nil: "0 < n \<Longrightarrow> tie_indices r (min_inflight r n) n \<noteq> []"
  using min_inflight_attained [of n r] by (auto simp: tie_indices_def filter_empty_conv)

lemma recount_eq: "recount r n = tie_indices r (min_inflight r n) n"
  using tie_indices_min_not_Nil [of n r] by (cases "n = 0") (simp_all add: recount_def recount_fold tie_indices_def)

text \<open>The ties are the candidates with the least count of some pass, so there is always one.\<close>

lemma candidate_ties_cases:
  "(candidate_ties rd n = tie_indices (rd 1) (min_inflight (rd 0) n) n \<and> candidate_ties rd n \<noteq> [])
   \<or> candidate_ties rd n = tie_indices (rd 2) (min_inflight (rd 2) n) n"
  by (simp add: candidate_ties_def Let_def recount_eq)

lemma candidate_ties_stable:
  "candidate_ties (\<lambda>p. r) n = tie_indices r (min_inflight r n) n"
  by (simp add: candidate_ties_def recount_eq Let_def)

lemma candidate_ties_range: "i \<in> set (candidate_ties rd n) \<Longrightarrow> i < n"
  using candidate_ties_cases [of rd n] tie_indices_ok(2) by metis

lemma candidate_ties_Nil [simp]: "candidate_ties rd n = [] \<longleftrightarrow> n = 0"
proof
  show "n = 0" if "candidate_ties rd n = []"
    using that candidate_ties_cases [of rd n] tie_indices_min_not_Nil [of n "rd 2"] by auto
qed (simp add: candidate_ties_def recount_eq tie_indices_def)

section \<open>The contract of a strategy\<close>

text \<open>
  What the pool relies on: an answer for every non-empty list of candidates, and an answer that is
  the position of a candidate.
\<close>

locale balancer =
  fixes select :: "nat \<Rightarrow> readings \<Rightarrow> 'b \<Rightarrow> (nat \<times> 'b) option"
  assumes select_none: "select n rd b = None \<longleftrightarrow> n = 0"
    and select_range: "select n rd b = Some (i, b') \<Longrightarrow> i < n"
begin

text \<open>Selecting from a list gives an element of the list.\<close>

lemma select_member:
  assumes "xs \<noteq> []"
  obtains i b' where "select (length xs) rd b = Some (i, b')" and "xs ! i \<in> set xs"
proof -
  from assms obtain i b' where s: "select (length xs) rd b = Some (i, b')"
    using select_none [of "length xs" rd b] by (cases "select (length xs) rd b") auto
  with select_range [OF s] show thesis by (auto intro: that)
qed

end

text \<open>
  A strategy that rotates: while the counts do not move it goes round the candidates it prefers, in
  steps of one.
\<close>

fun selections :: "(nat \<Rightarrow> readings \<Rightarrow> 'b \<Rightarrow> (nat \<times> 'b) option) \<Rightarrow> nat \<Rightarrow> (nat \<Rightarrow> u64) \<Rightarrow> nat \<Rightarrow> 'b \<Rightarrow> nat list" where
  "selections select n r 0 b = []"
| "selections select n r (Suc k) b =
     (case select n (\<lambda>p. r) b of None \<Rightarrow> [] | Some (i, b') \<Rightarrow> i # selections select n r k b')"

locale rotating_balancer = balancer select
  for select :: "nat \<Rightarrow> readings \<Rightarrow> 'b \<Rightarrow> (nat \<times> 'b) option" +
  fixes prefers :: "'b \<Rightarrow> nat \<Rightarrow> (nat \<Rightarrow> u64) \<Rightarrow> nat list" and counter :: "'b \<Rightarrow> u64"
  assumes select_rotates: "select n (\<lambda>p. r) b = Some (i, b') \<Longrightarrow>
          i = prefers b n r ! (unat (counter b) mod length (prefers b n r))
          \<and> counter b' = counter b + 1 \<and> prefers b' n r = prefers b n r"
begin

lemma selections_nth:
  assumes "0 < n" and "unat (counter b) + k < 2 ^ 64"
  shows "selections select n r k b =
    map (\<lambda>j. prefers b n r ! ((unat (counter b) + j) mod length (prefers b n r))) [0..<k]"
  using assms(2)
proof (induction k arbitrary: b)
  case (Suc k)
  obtain i b' where s: "select n (\<lambda>p. r) b = Some (i, b')"
    using select_none [of n "\<lambda>p. r" b] assms(1) by (cases "select n (\<lambda>p. r) b") auto
  note i = select_rotates [OF s]
  have u: "unat (counter b') = Suc (unat (counter b))"
    using i Suc.prems by (simp add: unat_word_ariths)
  with Suc i have "selections select n r k b' =
      map (\<lambda>j. prefers b n r ! ((unat (counter b) + Suc j) mod length (prefers b n r))) [0..<k]"
    by simp
  with s i show ?case
    by (simp add: upt_conv_Cons map_Suc_upt [symmetric] del: upt_Suc)
qed simp

text \<open>One round of selections is the list of preferred candidates, rotated.\<close>

lemma selections_round:
  assumes "0 < n" and "unat (counter b) + length (prefers b n r) < 2 ^ 64"
  shows "selections select n r (length (prefers b n r)) b = rotate (unat (counter b)) (prefers b n r)"
  unfolding selections_nth [OF assms]
  by (rule nth_equalityI) (simp_all add: nth_rotate)

end

text \<open>Both strategies keep the contract.\<close>

fun preferred :: "LoadBalancer \<Rightarrow> nat \<Rightarrow> (nat \<Rightarrow> u64) \<Rightarrow> nat list" where
  "preferred (RoundRobin b) n r = [0..<n]"
| "preferred (LeastInflight b) n r = filter (\<lambda>i. \<forall>j<n. r i \<le> r j) [0..<n]"

fun ticket :: "LoadBalancer \<Rightarrow> u64" where
  "ticket (RoundRobin b) = next_index b"
| "ticket (LeastInflight b) = tie_breaker b"

lemma preferred_ties: "preferred (LeastInflight b) n r = tie_indices r (min_inflight r n) n"
proof -
  have "(\<forall>j<n. r i \<le> r j) \<longleftrightarrow> r i = min_inflight r n" if "i < n" for i
    using min_inflight_le [of _ n r] min_inflight_attained [of n r] that
    by (metis antisym gr_implies_not0 gr0I)
  then show ?thesis unfolding tie_indices_def preferred.simps by (intro filter_cong) auto
qed

lemma LeastInflight_Select_Some:
  "LeastInflight_Select n rd b = Some (i, b') \<longleftrightarrow>
     n \<noteq> 0 \<and> i = candidate_ties rd n ! (unat (tie_breaker b) mod length (candidate_ties rd n))
     \<and> b' = b\<lparr>tie_breaker := tie_breaker b + 1\<rparr>"
  by (auto simp: LeastInflight_Select_def Let_def)

interpretation lb: rotating_balancer Select preferred ticket
proof
  fix n rd b i b'
  show "Select n rd b = None \<longleftrightarrow> n = 0"
    by (cases b) (simp_all add: RoundRobin_Select_def LeastInflight_Select_def Let_def)
  show "i < n" if "Select n rd b = Some (i, b')"
    using that candidate_ties_range [of i rd n]
    by (cases b) (auto simp: RoundRobin_Select_def LeastInflight_Select_Some intro: candidate_ties_range split: if_splits)
next
  fix n r b i b'
  assume "Select n (\<lambda>p. r) b = Some (i, b')"
  then show "i = preferred b n r ! (unat (ticket b) mod length (preferred b n r))
      \<and> ticket b' = ticket b + 1 \<and> preferred b' n r = preferred b n r"
    by (cases b) (auto simp: RoundRobin_Select_def LeastInflight_Select_Some preferred_ties
        candidate_ties_stable simp del: preferred.simps(2) split: if_splits)
qed

section \<open>Fairness\<close>

text \<open>
  C24: a strategy shares the load evenly. Whatever the counts do while it runs, it picks one of the
  candidates; while the counts stand still, the candidates it picks in one round of consecutive
  selections are all candidates (round robin) or all candidates with the least count (least in
  flight), each exactly once and in a fixed cyclic order, wherever the counter stands, as long as it
  does not wrap in this round.
\<close>

theorem balancer_fair:
  assumes "0 < n"
  shows "(\<exists>i b'. Select n rd b = Some (i, b') \<and> i < n)
    \<and> (\<forall>i. i \<in> set (preferred b n r) \<longleftrightarrow> i < n \<and> (\<forall>c. b = LeastInflight c \<longrightarrow> (\<forall>j<n. r i \<le> r j)))
    \<and> distinct (preferred b n r) \<and> preferred b n r \<noteq> []
    \<and> (unat (ticket b) + length (preferred b n r) < 2 ^ 64 \<longrightarrow>
        selections Select n r (length (preferred b n r)) b = rotate (unat (ticket b)) (preferred b n r))"
proof (intro conjI impI allI)
  show "\<exists>i b'. Select n rd b = Some (i, b') \<and> i < n"
    using lb.select_member [of "[0..<n]" rd b] lb.select_range [of n rd b] assms by (metis length_upt minus_nat.diff_0 upt_eq_Nil_conv neq0_conv)
  show "preferred b n r \<noteq> []"
    using assms tie_indices_min_not_Nil [OF assms] by (cases b) (simp_all add: preferred_ties del: preferred.simps(2))
  show "i \<in> set (preferred b n r) \<longleftrightarrow> i < n \<and> (\<forall>c. b = LeastInflight c \<longrightarrow> (\<forall>j<n. r i \<le> r j))" for i
    by (cases b) auto
  show "distinct (preferred b n r)"
    by (cases b) auto
qed (rule lb.selections_round [OF assms])

theorem balancer_fair_witness:
  "selections Select 4 (\<lambda>i. [3, 1, 2, 1] ! i) 2 (LeastInflight \<lparr>tie_breaker = 7\<rparr>) = [3, 1]"
proof -
  let ?b = "LeastInflight \<lparr>tie_breaker = 7\<rparr>" and ?r = "\<lambda>i. [3, 1, 2, 1] ! i :: u64"
  have all: "(\<forall>j<4. P j) \<longleftrightarrow> P 0 \<and> P 1 \<and> P 2 \<and> P (3::nat)" for P
    by (auto simp: less_Suc_eq eval_nat_numeral)
  have p: "preferred ?b 4 ?r = [1, 3]"
    by (simp add: upt_rec all word_le_nat_alt)
  have l: "length [1::nat, 3] = 2" "rotate 7 [1::nat, 3] = [3, 1]"
    by (simp_all add: rotate_def numeral_eq_Suc)
  have "selections Select 4 ?r 2 ?b = rotate (unat (ticket ?b)) [1, 3]"
    using balancer_fair [of 4 "\<lambda>p i. 0" ?b ?r] unfolding p l(1) by simp
  moreover have "unat (ticket ?b) = 7" by simp
  ultimately show ?thesis by (simp only: l(2))
qed

end
