(* ===== verification/Client_Pool.thy ===== *)
theory Client_Pool
  imports Load_Balancer Rpc_Client
begin

text \<open>
  The client pool (\<open>src/client/rpc_client_pool.{h,cpp}\<close>): one channel per endpoint, a strategy that
  chooses among the healthy ones, and a synchronous call that tries another channel after a
  connection error.

  A pool uses the clients of its channels only through the values their functions return. The result
  of \<open>RpcClient::Call\<close> depends on the peer and on the dispatcher thread of that client, so the result
  of the \<open>k\<close>-th attempt of a call, made on channel \<open>i\<close>, is the value \<open>rpc k i\<close> of an arbitrary function;
  so are the outcomes of \<open>Connect\<close> and the in-flight counts. Channels are named by their position.
\<close>

section \<open>Data\<close>

record Endpoint =
  ep_host :: string
  ep_port :: u16

datatype LoadBalanceStrategy = kRoundRobin | kLeastInflight

record RpcClientPoolOptions =
  client_options :: RpcClientOptions
  strategy :: LoadBalanceStrategy
  max_consecutive_failures :: u64

definition RpcClientPoolOptions_default :: RpcClientPoolOptions where
  "RpcClientPoolOptions_default =
     \<lparr>client_options = RpcClientOptions_default, strategy = kRoundRobin, max_consecutive_failures = 3\<rparr>"

record Channel =
  ch_host :: string
  ch_port :: u16
  success_count :: u64
  fail_count :: u64
  select_count :: u64
  consecutive_failures :: u64
  healthy :: bool

definition Channel_make :: "Endpoint \<Rightarrow> Channel" where
  "Channel_make ep =
     \<lparr>ch_host = ep_host ep, ch_port = ep_port ep, success_count = 0, fail_count = 0, select_count = 0,
      consecutive_failures = 0, healthy = True\<rparr>"

definition EndpointString :: "Channel \<Rightarrow> string" where
  "EndpointString ch = ch_host ch @ '':'' @ to_string (unat (ch_port ch))"

record RpcClientPool =
  channels :: "Channel list"
  balancer_ptr :: "LoadBalancer option"
  pool_options :: RpcClientPoolOptions

definition RpcClientPool_make :: "Endpoint list \<Rightarrow> RpcClientPoolOptions \<Rightarrow> RpcClientPool" where
  "RpcClientPool_make endpoints options =
     (if endpoints = [] then \<lparr>channels = [], balancer_ptr = None, pool_options = options\<rparr>
      else \<lparr>channels = map Channel_make endpoints,
            balancer_ptr = Some (case strategy options of
                                   kLeastInflight \<Rightarrow> LeastInflight LeastInflight_make
                                 | kRoundRobin \<Rightarrow> RoundRobin RoundRobin_make),
            pool_options = options\<rparr>)"

text \<open>Updating one channel.\<close>

definition on_channel :: "nat \<Rightarrow> (Channel \<Rightarrow> Channel) \<Rightarrow> RpcClientPool \<Rightarrow> RpcClientPool" where
  "on_channel i f p = p\<lparr>channels := (channels p)[i := f (channels p ! i)]\<rparr>"

section \<open>Warm-up\<close>

definition warmup_channel :: "u64 \<Rightarrow> bool \<Rightarrow> Channel \<Rightarrow> Channel" where
  "warmup_channel max_failures connected ch =
     (if connected then ch\<lparr>consecutive_failures := 0, healthy := True\<rparr>
      else ch\<lparr>consecutive_failures := max_failures, healthy := False\<rparr>)"

definition Warmup :: "(nat \<Rightarrow> bool) \<Rightarrow> RpcClientPool \<Rightarrow> bool \<times> RpcClientPool" where
  "Warmup connects p =
     (let n = length (channels p) in
      (length (filter connects [0..<n]) > 0,
       p\<lparr>channels := map (\<lambda>i. warmup_channel (max_consecutive_failures (pool_options p)) (connects i) (channels p ! i))
                         [0..<n]\<rparr>))"

section \<open>Selection\<close>

text \<open>
  \<open>Crash\<close> stands for the use of the null strategy pointer or a position outside the candidates; it is
  shown not to happen.
\<close>

datatype select_result = Selected nat | NoChannel | Crash

definition healthy_candidates :: "nat list \<Rightarrow> RpcClientPool \<Rightarrow> nat list" where
  "healthy_candidates excluded p =
     filter (\<lambda>i. healthy (channels p ! i) \<and> i \<notin> set excluded) [0..<length (channels p)]"

lemma distinct_candidates [simp]: "distinct (healthy_candidates excluded p)"
  by (simp add: healthy_candidates_def)

definition SelectChannel :: "readings \<Rightarrow> nat list \<Rightarrow> RpcClientPool \<Rightarrow> select_result \<times> RpcClientPool" where
  "SelectChannel rd excluded p =
     (let cands = healthy_candidates excluded p in
      if cands = [] then (if channels p \<noteq> [] then (Selected 0, p) else (NoChannel, p))
      else (case balancer_ptr p of
              None \<Rightarrow> (Crash, p)
            | Some b \<Rightarrow>
                (case Select (length cands) rd b of
                   None \<Rightarrow> (Crash, p)
                 | Some (k, b') \<Rightarrow>
                     if k < length cands
                     then (Selected (cands ! k),
                           on_channel (cands ! k) (\<lambda>ch. ch\<lparr>select_count := select_count ch + 1\<rparr>)
                             (p\<lparr>balancer_ptr := Some b'\<rparr>))
                     else (Crash, p))))"

section \<open>Health and statistics\<close>

definition reach_channel :: "u64 \<Rightarrow> bool \<Rightarrow> Channel \<Rightarrow> Channel" where
  "reach_channel max_failures reachable ch =
     (if reachable then ch\<lparr>consecutive_failures := 0, healthy := True\<rparr>
      else let failures = consecutive_failures ch + 1;
               ch1 = ch\<lparr>consecutive_failures := failures\<rparr>
           in if failures \<ge> max_failures then ch1\<lparr>healthy := False\<rparr> else ch1)"

definition RecordReachability :: "nat \<Rightarrow> bool \<Rightarrow> RpcClientPool \<Rightarrow> RpcClientPool" where
  "RecordReachability i reachable p =
     on_channel i (reach_channel (max_consecutive_failures (pool_options p)) reachable) p"

definition count_result :: "RpcCallResult \<Rightarrow> Channel \<Rightarrow> Channel" where
  "count_result res ch =
     (if result_ok res then ch\<lparr>success_count := success_count ch + 1\<rparr>
      else ch\<lparr>fail_count := fail_count ch + 1\<rparr>)"

definition RecordCallResult :: "nat \<Rightarrow> RpcCallResult \<Rightarrow> RpcClientPool \<Rightarrow> RpcClientPool" where
  "RecordCallResult i res p = on_channel i (count_result res) p"

definition IsConnectionError :: "RpcCallResult \<Rightarrow> bool" where
  "IsConnectionError res =
     (if result_ok res then False
      else let msg = st_message (status res) in
           str_find msg ''connect failed'' \<or> str_find msg ''send request failed''
           \<or> str_find msg ''connection closed'' \<or> str_find msg ''connection inactive''
           \<or> str_find msg ''dispatcher stopped'' \<or> str_find msg ''call timeout'')"

section \<open>The synchronous call\<close>

text \<open>
  The loop over the attempts. The result is \<^term>\<open>None\<close> for a crash; the second component is the
  list of channels tried.
\<close>

definition all_failed :: "nat \<Rightarrow> RpcCallResult" where
  "all_failed max_attempts =
     failure kInternalError (''all channels failed after '' @ to_string max_attempts @ '' attempts'')"

fun call_attempts :: "nat \<Rightarrow> (nat \<Rightarrow> readings) \<Rightarrow> (nat \<Rightarrow> nat \<Rightarrow> RpcCallResult) \<Rightarrow> nat list \<Rightarrow> RpcClientPool
    \<Rightarrow> RpcCallResult option \<times> nat list \<times> RpcClientPool" where
  "call_attempts 0 rds rpc attempted p =
     (Some (all_failed (length (channels p))), attempted, p)"
| "call_attempts (Suc n) rds rpc attempted p =
     (case SelectChannel (rds (length attempted)) attempted p of
        (Crash, p1) \<Rightarrow> (None, attempted, p1)
      | (NoChannel, p1) \<Rightarrow> (Some (failure kInternalError ''no channel available''), attempted, p1)
      | (Selected i, p1) \<Rightarrow>
          (let res = rpc (length attempted) i;
               p2 = RecordCallResult i res p1
           in if result_ok res then (Some res, attempted @ [i], RecordReachability i True p2)
              else if IsConnectionError res
              then call_attempts n rds rpc (attempted @ [i]) (RecordReachability i False p2)
              else (Some res, attempted @ [i], RecordReachability i True p2)))"

definition Pool_Call :: "(nat \<Rightarrow> readings) \<Rightarrow> (nat \<Rightarrow> nat \<Rightarrow> RpcCallResult) \<Rightarrow> RpcClientPool
    \<Rightarrow> RpcCallResult option \<times> nat list \<times> RpcClientPool" where
  "Pool_Call rds rpc p =
     (if channels p = [] then (Some (failure kInternalError ''no endpoints configured''), [], p)
      else call_attempts (length (channels p)) rds rpc [] p)"

section \<open>The asynchronous calls\<close>

text \<open>
  \<open>CallAsync\<close> and \<open>CallCo\<close> select a channel and forward the call; if there is no channel the future
  or task is complete at once. What happens when the inner call is over is a second step: in a
  detached thread for \<open>CallAsync\<close>, which has its own copy of the code and of the failure limit
  (an exception of the inner future is only passed on), and in the resumed coroutine for \<open>CallCo\<close>.
\<close>

definition Pool_CallAsync :: "readings \<Rightarrow> RpcClientPool \<Rightarrow> (RpcCallResult + nat) option \<times> RpcClientPool" where
  "Pool_CallAsync rd p =
     (case SelectChannel rd [] p of
        (Crash, p1) \<Rightarrow> (None, p1)
      | (NoChannel, p1) \<Rightarrow> (Some (Inl (failure kInternalError ''no channel available'')), p1)
      | (Selected i, p1) \<Rightarrow> (Some (Inr i), p1))"

definition CallAsync_done :: "u64 \<Rightarrow> nat \<Rightarrow> RpcCallResult option \<Rightarrow> RpcClientPool \<Rightarrow> RpcCallResult option \<times> RpcClientPool" where
  "CallAsync_done max_failures i inner p =
     (case inner of
        None \<Rightarrow> (None, p)
      | Some res \<Rightarrow>
          (let p1 = (if result_ok res
                     then on_channel i (\<lambda>ch. ch\<lparr>success_count := success_count ch + 1\<rparr>) p
                     else on_channel i (\<lambda>ch. ch\<lparr>fail_count := fail_count ch + 1\<rparr>) p);
               msg = st_message (status res);
               is_connection_err = (if \<not> result_ok res
                 then str_find msg ''connect failed'' \<or> str_find msg ''send request failed''
                   \<or> str_find msg ''connection closed'' \<or> str_find msg ''connection inactive''
                   \<or> str_find msg ''dispatcher stopped'' \<or> str_find msg ''call timeout''
                 else False);
               p2 = (if \<not> is_connection_err
                     then on_channel i (\<lambda>ch. ch\<lparr>consecutive_failures := 0, healthy := True\<rparr>) p1
                     else on_channel i (\<lambda>ch.
                            let failures = consecutive_failures ch + 1;
                                ch1 = ch\<lparr>consecutive_failures := failures\<rparr>
                            in if failures \<ge> max_failures then ch1\<lparr>healthy := False\<rparr> else ch1) p1)
           in (Some res, p2)))"

definition Pool_CallCo :: "readings \<Rightarrow> RpcClientPool \<Rightarrow> (RpcCallResult + nat) option \<times> RpcClientPool" where
  "Pool_CallCo rd p =
     (case SelectChannel rd [] p of
        (Crash, p1) \<Rightarrow> (None, p1)
      | (NoChannel, p1) \<Rightarrow> (Some (Inl (failure kInternalError ''no channel available'')), p1)
      | (Selected i, p1) \<Rightarrow> (Some (Inr i), p1))"

definition CallCo_done :: "nat \<Rightarrow> RpcCallResult \<Rightarrow> RpcClientPool \<Rightarrow> RpcCallResult \<times> RpcClientPool" where
  "CallCo_done i res p =
     (res, RecordReachability i (\<not> IsConnectionError res) (RecordCallResult i res p))"

section \<open>Statistics\<close>

record EndpointStats =
  es_endpoint :: string
  es_inflight :: u64
  es_success_count :: u64
  es_fail_count :: u64
  es_select_count :: u64
  es_healthy :: bool
  es_connected :: bool

definition GetStats :: "(nat \<Rightarrow> u64) \<Rightarrow> (nat \<Rightarrow> bool) \<Rightarrow> RpcClientPool \<Rightarrow> EndpointStats list" where
  "GetStats inflight connected p =
     map (\<lambda>i. let ch = channels p ! i in
            \<lparr>es_endpoint = EndpointString ch, es_inflight = inflight i, es_success_count = success_count ch,
             es_fail_count = fail_count ch, es_select_count = select_count ch, es_healthy = healthy ch,
             es_connected = connected i\<rparr>) [0..<length (channels p)]"

definition StrategyName :: "RpcClientPool \<Rightarrow> string" where
  "StrategyName p = (case balancer_ptr p of Some b \<Rightarrow> Name b | None \<Rightarrow> ''none'')"

section \<open>Selection and recording\<close>

text \<open>A pool with channels has a strategy, and a channel over the failure limit is not healthy.\<close>

definition pool_ok :: "RpcClientPool \<Rightarrow> bool" where
  "pool_ok p \<longleftrightarrow>
     (channels p \<noteq> [] \<longrightarrow> balancer_ptr p \<noteq> None)
     \<and> (\<forall>ch \<in> set (channels p). healthy ch \<and> 0 < max_consecutive_failures (pool_options p) \<longrightarrow>
          consecutive_failures ch < max_consecutive_failures (pool_options p))"

text \<open>Two pools with the same channels, options and health marks, up to channel \<open>i\<close>.\<close>

definition same_health :: "nat set \<Rightarrow> RpcClientPool \<Rightarrow> RpcClientPool \<Rightarrow> bool" where
  "same_health I p q \<longleftrightarrow>
     length (channels q) = length (channels p) \<and> pool_options q = pool_options p
     \<and> (\<forall>j<length (channels p). j \<notin> I \<longrightarrow> healthy (channels q ! j) = healthy (channels p ! j))"

lemma same_health_refl [simp]: "same_health I p p"
  by (simp add: same_health_def)

lemma same_health_trans: "same_health I p q \<Longrightarrow> same_health I q r \<Longrightarrow> same_health I p r"
  by (simp add: same_health_def)

lemma same_health_mono: "same_health I p q \<Longrightarrow> I \<subseteq> J \<Longrightarrow> same_health J p q"
  by (auto simp: same_health_def)

lemma channels_on_channel [simp]: "channels (on_channel i f p) = (channels p)[i := f (channels p ! i)]"
  by (simp add: on_channel_def)

lemma on_channel_fields [simp]:
  "pool_options (on_channel i f p) = pool_options p" "balancer_ptr (on_channel i f p) = balancer_ptr p"
  by (simp_all add: on_channel_def)

lemma same_health_on_channel: "same_health {i} p (on_channel i f p)"
  by (simp add: same_health_def)

lemma on_channel_on_channel [simp]: "on_channel i f (on_channel i g p) = on_channel i (f \<circ> g) p"
proof (cases "i < length (channels p)")
  case False
  then have "(channels p)[i := x] = channels p" for x by (simp add: list_update_beyond)
  then show ?thesis by (simp add: on_channel_def)
qed (simp add: on_channel_def)

text \<open>An update that keeps the channel within its failure limit keeps the pool well formed.\<close>

definition channel_ok :: "u64 \<Rightarrow> Channel \<Rightarrow> bool" where
  "channel_ok m ch \<longleftrightarrow> (healthy ch \<and> 0 < m \<longrightarrow> consecutive_failures ch < m)"

lemma pool_ok_channels:
  "pool_ok p \<longleftrightarrow> (channels p \<noteq> [] \<longrightarrow> balancer_ptr p \<noteq> None)
     \<and> (\<forall>ch \<in> set (channels p). channel_ok (max_consecutive_failures (pool_options p)) ch)"
  by (simp add: pool_ok_def channel_ok_def)

lemma pool_ok_on_channel:
  assumes "pool_ok p" and "\<And>ch. channel_ok (max_consecutive_failures (pool_options p)) ch \<Longrightarrow>
      channel_ok (max_consecutive_failures (pool_options p)) (f ch)"
  shows "pool_ok (on_channel i f p)"
proof (cases "i < length (channels p)")
  case True
  with assms show ?thesis
    by (auto simp: pool_ok_channels dest!: subsetD [OF set_update_subset_insert])
next
  case False
  with assms show ?thesis by (simp add: pool_ok_channels list_update_beyond)
qed

lemma channel_ok_reach: "channel_ok m ch \<Longrightarrow> channel_ok m (reach_channel m b ch)"
  by (auto simp: channel_ok_def reach_channel_def Let_def)

lemma channel_ok_count [simp]: "channel_ok m (count_result res ch) = channel_ok m ch"
  by (simp add: channel_ok_def count_result_def)

lemma record_keeps:
  "pool_ok p \<Longrightarrow> pool_ok (RecordReachability i b (RecordCallResult i res p))"
  unfolding RecordReachability_def RecordCallResult_def
  by (intro pool_ok_on_channel) (simp_all add: channel_ok_reach)

text \<open>\<open>SelectChannel\<close> always finds a channel; among the candidates if there is one, else the first.\<close>

lemma SelectChannel_cases:
  assumes "pool_ok p" and "channels p \<noteq> []"
  obtains i p' where "SelectChannel rd excluded p = (Selected i, p')" and "i < length (channels p)"
    and "healthy_candidates excluded p \<noteq> [] \<Longrightarrow> i \<in> set (healthy_candidates excluded p)"
    and "healthy_candidates excluded p = [] \<Longrightarrow> i = 0"
    and "pool_ok p'" and "same_health {} p p'"
proof (cases "healthy_candidates excluded p = []")
  case True
  with assms show thesis by (intro that [of 0 p]) (simp_all add: SelectChannel_def)
next
  case False
  let ?c = "healthy_candidates excluded p"
  from assms obtain b where b: "balancer_ptr p = Some b" by (auto simp: pool_ok_def)
  from lb.select_member [OF False] obtain k b' where
    k: "Select (length ?c) rd b = Some (k, b')" "?c ! k \<in> set ?c" by blast
  let ?p = "on_channel (?c ! k) (\<lambda>ch. ch\<lparr>select_count := select_count ch + 1\<rparr>) (p\<lparr>balancer_ptr := Some b'\<rparr>)"
  have "SelectChannel rd excluded p = (Selected (?c ! k), ?p)"
    using lb.select_range [OF k(1)] k b False by (simp add: SelectChannel_def Let_def)
  moreover have in_range: "?c ! k < length (channels p)"
    using k(2) by (simp add: healthy_candidates_def)
  moreover have "pool_ok ?p"
    by (rule pool_ok_on_channel) (use assms in \<open>simp_all add: pool_ok_def channel_ok_def\<close>)
  moreover have "same_health {} p ?p"
    using in_range by (simp add: same_health_def nth_list_update)
  ultimately show thesis using that k(2) False by blast
qed

text \<open>After an attempt on channel \<open>i\<close> the candidates are the others.\<close>

lemma healthy_candidates_next:
  assumes "same_health {i} p q"
  shows "healthy_candidates (excluded @ [i]) q = filter (\<lambda>j. j \<noteq> i) (healthy_candidates excluded p)"
proof -
  have "healthy_candidates (excluded @ [i]) q =
      filter (\<lambda>j. healthy (channels q ! j) \<and> j \<notin> set excluded \<and> j \<noteq> i) [0..<length (channels p)]"
    using assms by (auto simp: healthy_candidates_def same_health_def intro: filter_cong)
  also have "\<dots> = filter (\<lambda>j. j \<noteq> i \<and> healthy (channels p ! j) \<and> j \<notin> set excluded) [0..<length (channels p)]"
    using assms by (intro filter_cong) (auto simp: same_health_def)
  finally show ?thesis unfolding healthy_candidates_def filter_filter by (simp add: conj_ac)
qed

lemma same_health_record:
  "same_health {} p p1 \<Longrightarrow> same_health {i} p (RecordReachability i b (RecordCallResult i res p1))"
  unfolding RecordReachability_def RecordCallResult_def
  by (meson empty_subsetI same_health_mono same_health_on_channel same_health_trans)

section \<open>Failover\<close>

text \<open>
  The channels tried from attempt \<open>k\<close> on, when \<open>cands\<close> are the healthy channels not tried before: the
  first ones are candidates, each once, and all but the last attempt ended in a connection error.
\<close>

definition attempts_ok :: "(nat \<Rightarrow> nat \<Rightarrow> RpcCallResult) \<Rightarrow> nat \<Rightarrow> nat list \<Rightarrow> nat list \<Rightarrow> bool" where
  "attempts_ok rpc k cands tried \<longleftrightarrow>
     set (take (length cands) tried) \<subseteq> set cands \<and> distinct (take (length cands) tried)
     \<and> (\<forall>j. Suc j < length tried \<longrightarrow> IsConnectionError (rpc (k + j) (tried ! j)))"

text \<open>How a call ends: with the last result, or with every attempt failed.\<close>

definition call_ends :: "(nat \<Rightarrow> nat \<Rightarrow> RpcCallResult) \<Rightarrow> nat \<Rightarrow> nat \<Rightarrow> nat list \<Rightarrow> nat \<Rightarrow> RpcCallResult option \<Rightarrow> bool" where
  "call_ends rpc k n tried chans out \<longleftrightarrow>
     (tried \<noteq> [] \<and> out = Some (rpc (k + (length tried - 1)) (last tried))
        \<and> \<not> IsConnectionError (rpc (k + (length tried - 1)) (last tried)))
     \<or> (length tried = n \<and> (\<forall>j<n. IsConnectionError (rpc (k + j) (tried ! j)))
        \<and> out = Some (all_failed chans))"

lemma attempts_ok_one: "(cands \<noteq> [] \<Longrightarrow> i \<in> set cands) \<Longrightarrow> attempts_ok rpc k cands [i]"
  by (cases cands) (auto simp: attempts_ok_def)

lemma attempts_ok_Cons:
  assumes "cands \<noteq> [] \<Longrightarrow> i \<in> set cands" and "distinct cands" and "IsConnectionError (rpc k i)"
    and rest: "attempts_ok rpc (Suc k) (filter (\<lambda>j. j \<noteq> i) cands) tried"
  shows "attempts_ok rpc k cands (i # tried)"
proof -
  have err: "IsConnectionError (rpc (k + j) ((i # tried) ! j))" if "Suc j < length (i # tried)" for j
    using that assms(3) rest by (cases j) (auto simp: attempts_ok_def)
  show ?thesis
  proof (cases "cands = []")
    case True
    with err show ?thesis by (simp add: attempts_ok_def)
  next
    case False
    with assms(1) have i: "i \<in> set cands" by simp
    have "length (filter (\<lambda>j. j \<noteq> i) cands) = length cands - 1"
      using length_remove1 [of i cands] i assms(2) by (simp add: distinct_remove1_removeAll removeAll_filter_not_eq conj_commute eq_commute)
    moreover have "take (length cands) (i # tried) = i # take (length cands - 1) tried"
      using False by (cases cands) auto
    ultimately show ?thesis using rest err i by (auto simp: attempts_ok_def)
  qed
qed

lemma call_ends_Cons:
  assumes "IsConnectionError (rpc k i)" and "call_ends rpc (Suc k) n tried chans out"
  shows "call_ends rpc k (Suc n) (i # tried) chans out"
proof (cases "length tried = n \<and> (\<forall>j<n. IsConnectionError (rpc (Suc k + j) (tried ! j))) \<and> out = Some (all_failed chans)")
  case True
  with assms(1) have "IsConnectionError (rpc (k + j) ((i # tried) ! j))" if "j < Suc n" for j
    using that by (cases j) auto
  with True show ?thesis by (simp add: call_ends_def)
next
  case False
  with assms(2) have "tried \<noteq> []" "out = Some (rpc (Suc k + (length tried - 1)) (last tried))"
      "\<not> IsConnectionError (rpc (Suc k + (length tried - 1)) (last tried))"
    unfolding call_ends_def by blast+
  then show ?thesis by (cases tried) (simp_all add: call_ends_def last_ConsR del: last.simps)
qed

lemma call_attempts_spec:
  assumes "pool_ok p" and "channels p \<noteq> []" and "call_attempts n rds rpc attempted p = (out, att, p')"
  shows "\<exists>tried. att = attempted @ tried \<and> length tried \<le> n \<and> (0 < n \<longrightarrow> tried \<noteq> [])
    \<and> attempts_ok rpc (length attempted) (healthy_candidates attempted p) tried
    \<and> call_ends rpc (length attempted) n tried (length (channels p)) out
    \<and> (\<forall>i \<in> set tried. i < length (channels p) \<and> (i = 0 \<or> healthy (channels p ! i)))
    \<and> pool_ok p' \<and> same_health (set tried) p p'"
  using assms
proof (induction n arbitrary: attempted p)
  case 0
  then show ?case by (intro exI [of _ "[]"]) (auto simp: attempts_ok_def call_ends_def)
next
  case (Suc n)
  let ?k = "length attempted" and ?c = "healthy_candidates attempted p"
  obtain i p1 where sel: "SelectChannel (rds ?k) attempted p = (Selected i, p1)" "i < length (channels p)"
    "?c \<noteq> [] \<Longrightarrow> i \<in> set ?c" "?c = [] \<Longrightarrow> i = 0" "pool_ok p1" "same_health {} p p1"
    using SelectChannel_cases [OF Suc.prems(1,2)] by blast
  let ?res = "rpc ?k i" and ?rec = "\<lambda>b. RecordReachability i b (RecordCallResult i (rpc ?k i) p1)"
  have rec: "pool_ok (?rec b)" "same_health {i} p (?rec b)" for b
    using sel by (simp_all add: record_keeps same_health_record)
  have i: "i = 0 \<or> healthy (channels p ! i)"
    using sel(3,4) by (cases "?c = []") (auto simp: healthy_candidates_def)
  show ?case
  proof (cases "IsConnectionError ?res")
    case False
    with Suc.prems(3) sel(1) have "out = Some ?res" "att = attempted @ [i]" "p' = ?rec True"
      by (auto simp: Let_def split: if_splits)
    with False rec sel(2,3) i show ?thesis
      by (intro exI [of _ "[i]"]) (simp add: attempts_ok_one call_ends_def)
  next
    case True
    then have "\<not> result_ok ?res" by (auto simp: IsConnectionError_def)
    with True Suc.prems(3) sel(1) have call: "call_attempts n rds rpc (attempted @ [i]) (?rec False) = (out, att, p')"
      by (simp add: Let_def)
    have chans: "channels (?rec False) \<noteq> []" "length (channels (?rec False)) = length (channels p)"
      using rec(2) [of False] Suc.prems(2) by (auto simp: same_health_def)
    obtain tried where t: "att = (attempted @ [i]) @ tried" "length tried \<le> n"
        "attempts_ok rpc (Suc ?k) (filter (\<lambda>j. j \<noteq> i) ?c) tried"
        "call_ends rpc (Suc ?k) n tried (length (channels p)) out"
        "\<forall>j \<in> set tried. j < length (channels p) \<and> (j = 0 \<or> healthy (channels (?rec False) ! j))"
        "pool_ok p'" "same_health (set tried) (?rec False) p'"
      using Suc.IH [OF rec(1) chans(1) call] healthy_candidates_next [OF rec(2) [of False], of attempted] chans(2)
      by auto
    have "attempts_ok rpc ?k ?c (i # tried)"
      by (rule attempts_ok_Cons [OF _ _ True t(3)]) (simp_all add: sel(3))
    moreover have "call_ends rpc ?k (Suc n) (i # tried) (length (channels p)) out"
      by (rule call_ends_Cons [OF True t(4)])
    moreover have "same_health (set (i # tried)) p p'"
      by (rule same_health_trans [OF same_health_mono [OF rec(2)] same_health_mono [OF t(7)]]) auto
    moreover have "j < length (channels p) \<and> (j = 0 \<or> healthy (channels p ! j))" if "j \<in> set (i # tried)" for j
      using that i sel(2) t(5) rec(2) [of False] by (cases "j = i") (auto simp: same_health_def)
    ultimately show ?thesis using t by (intro exI [of _ "i # tried"]) auto
  qed
qed

text \<open>Once every attempt of a full round failed, every healthy channel has been tried.\<close>

lemma healthy_all_tried:
  assumes "attempts_ok rpc k cands tried" and "length cands \<le> length tried" and "distinct cands" and "i \<in> set cands"
  shows "i \<in> set tried"
proof -
  have "card (set (take (length cands) tried)) = card (set cands)"
    using assms by (simp add: attempts_ok_def distinct_card)
  then have "set (take (length cands) tried) = set cands"
    using assms(1) by (intro card_subset_eq) (auto simp: attempts_ok_def)
  with assms(4) show ?thesis by (auto dest: in_set_takeD)
qed

text \<open>
  C25: a synchronous call fails over. It makes between one attempt and one attempt per channel; every
  attempt but the last ended in a connection error; the attempts go to the healthy channels first,
  each once; the call returns the last result if that is not a connection error, and the ``all
  channels failed'' error exactly if every attempt failed. In particular a call succeeds in reaching a
  server whenever some healthy channel does, however the strategy chooses and whatever the other
  channels do. It never crashes on the pool's own data.
\<close>

theorem pool_call_fails_over:
  assumes "pool_ok p" and "channels p \<noteq> []" and "Pool_Call rds rpc p = (out, att, p')"
  shows "att \<noteq> [] \<and> length att \<le> length (channels p)
    \<and> (let h = healthy_candidates [] p in set (take (length h) att) \<subseteq> set h \<and> distinct (take (length h) att))
    \<and> (\<forall>j. Suc j < length att \<longrightarrow> IsConnectionError (rpc j (att ! j)))
    \<and> (\<exists>r. out = Some r
         \<and> (if \<forall>j<length att. IsConnectionError (rpc j (att ! j))
            then length att = length (channels p) \<and> r = all_failed (length (channels p))
            else r = rpc (length att - 1) (last att) \<and> \<not> IsConnectionError r))
    \<and> ((\<exists>i<length (channels p). healthy (channels p ! i) \<and> (\<forall>k. \<not> IsConnectionError (rpc k i))) \<longrightarrow>
        (\<exists>r. out = Some r \<and> r = rpc (length att - 1) (last att) \<and> \<not> IsConnectionError r))"
proof -
  let ?n = "length (channels p)" and ?h = "healthy_candidates [] p"
  from assms have "call_attempts ?n rds rpc [] p = (out, att, p')"
    by (simp add: Pool_Call_def)
  from call_attempts_spec [OF assms(1,2) this] assms(2)
  have t: "att \<noteq> []" "length att \<le> ?n" "attempts_ok rpc 0 ?h att" "call_ends rpc 0 ?n att ?n out"
    by auto
  have last: "last att = att ! (length att - 1)" using t(1) by (rule last_conv_nth)
  consider (all) "\<forall>j<length att. IsConnectionError (rpc j (att ! j))" "length att = ?n" "out = Some (all_failed ?n)"
    | (last) "out = Some (rpc (length att - 1) (last att))" "\<not> IsConnectionError (rpc (length att - 1) (last att))"
    using t(4) unfolding call_ends_def by auto
  then have end_ok: "\<exists>r. out = Some r \<and> (if \<forall>j<length att. IsConnectionError (rpc j (att ! j))
      then length att = ?n \<and> r = all_failed ?n else r = rpc (length att - 1) (last att) \<and> \<not> IsConnectionError r)"
  proof cases
    case last
    with t(1) \<open>last att = _\<close> have "\<not> (\<forall>j<length att. IsConnectionError (rpc j (att ! j)))"
      by (metis diff_less length_greater_0_conv zero_less_one)
    with last show ?thesis by auto
  qed auto
  have reached: "\<not> (\<forall>j<length att. IsConnectionError (rpc j (att ! j)))"
    if "i < ?n" "healthy (channels p ! i)" "\<forall>k. \<not> IsConnectionError (rpc k i)" for i
  proof
    assume all: "\<forall>j<length att. IsConnectionError (rpc j (att ! j))"
    with end_ok have "length att = ?n" by auto
    moreover have "length ?h \<le> ?n"
      unfolding healthy_candidates_def by (metis length_filter_le length_upt minus_nat.diff_0)
    ultimately have "i \<in> set att"
      using healthy_all_tried [OF t(3)] that(1,2) by (auto simp: healthy_candidates_def)
    with all that(3) show False by (metis in_set_conv_nth)
  qed
  have "\<exists>r. out = Some r \<and> r = rpc (length att - 1) (last att) \<and> \<not> IsConnectionError r"
    if ex: "\<exists>i<?n. healthy (channels p ! i) \<and> (\<forall>k. \<not> IsConnectionError (rpc k i))"
  proof -
    from ex reached have "\<not> (\<forall>j<length att. IsConnectionError (rpc j (att ! j)))" by blast
    with end_ok show ?thesis by (auto simp only: if_False)
  qed
  moreover from t(3) have "set (take (length ?h) att) \<subseteq> set ?h" "distinct (take (length ?h) att)"
      "\<forall>j. Suc j < length att \<longrightarrow> IsConnectionError (rpc j (att ! j))"
    by (simp_all add: attempts_ok_def)
  ultimately show ?thesis using end_ok t(1,2) unfolding Let_def by blast
qed

text \<open>Two endpoints, the first of which does not answer.\<close>

definition sample_pool :: RpcClientPool where
  "sample_pool = RpcClientPool_make
     [\<lparr>ep_host = ''10.0.0.1'', ep_port = 8080\<rparr>, \<lparr>ep_host = ''10.0.0.2'', ep_port = 8080\<rparr>]
     RpcClientPoolOptions_default"

definition sample_answer :: RpcCallResult where
  "sample_answer = \<lparr>status = Status_Ok, response_payload = ''42''\<rparr>"

definition sample_rpc :: "nat \<Rightarrow> nat \<Rightarrow> RpcCallResult" where
  "sample_rpc k i = (if i = 0 then failure kInternalError ''connect failed'' else sample_answer)"

lemma sample_answer_ok [simp]: "\<not> IsConnectionError sample_answer"
  by (simp add: IsConnectionError_def result_ok_def status_ok_def Status_Ok_def sample_answer_def)

lemma connect_failed_error [simp]: "IsConnectionError (failure kInternalError ''connect failed'')"
  by (simp add: IsConnectionError_def str_find_def)

lemma pool_ok_make [simp]: "pool_ok (RpcClientPool_make eps opts)"
  by (auto simp: pool_ok_def RpcClientPool_make_def Channel_make_def)

lemma length_channels_make [simp]: "length (channels (RpcClientPool_make eps opts)) = length eps"
  by (simp add: RpcClientPool_make_def)

theorem pool_call_fails_over_witness:
  "fst (Pool_Call (\<lambda>k p i. 0) sample_rpc sample_pool) = Some sample_answer"
proof -
  obtain out att p' where call: "Pool_Call (\<lambda>k p i. 0) sample_rpc sample_pool = (out, att, p')"
    by (cases "Pool_Call (\<lambda>k p i. 0) sample_rpc sample_pool") auto
  have ch: "channels sample_pool \<noteq> []" "1 < length (channels sample_pool)" "healthy (channels sample_pool ! 1)"
    by (simp_all add: sample_pool_def RpcClientPool_make_def Channel_make_def)
  moreover have "\<forall>k. \<not> IsConnectionError (sample_rpc k 1)"
    by (simp add: sample_rpc_def)
  ultimately obtain r where "out = Some r" "r = sample_rpc (length att - 1) (last att)" "\<not> IsConnectionError r"
    using pool_call_fails_over [OF _ ch(1) call] by (auto simp: sample_pool_def)
  then show ?thesis by (auto simp: call sample_rpc_def split: if_splits)
qed

section \<open>Health over the life of a pool\<close>

text \<open>
  What the users of a pool and the threads of its calls do to it, in any order. An asynchronous call
  is the selection of a channel and, at any later moment, the end of the inner call on it.
\<close>

datatype pool_event =
    EvWarmup "nat \<Rightarrow> bool"
  | EvCall "nat \<Rightarrow> readings" "nat \<Rightarrow> nat \<Rightarrow> RpcCallResult"
  | EvCallAsync readings
  | EvAsyncDone nat "RpcCallResult option"
  | EvCallCo readings
  | EvCoDone nat RpcCallResult

fun pool_exec :: "pool_event \<Rightarrow> RpcClientPool \<Rightarrow> RpcClientPool" where
  "pool_exec (EvWarmup c) p = snd (Warmup c p)"
| "pool_exec (EvCall rds rpc) p = snd (snd (Pool_Call rds rpc p))"
| "pool_exec (EvCallAsync rd) p = snd (Pool_CallAsync rd p)"
| "pool_exec (EvAsyncDone i inner) p =
     snd (CallAsync_done (max_consecutive_failures (pool_options p)) i inner p)"
| "pool_exec (EvCallCo rd) p = snd (Pool_CallCo rd p)"
| "pool_exec (EvCoDone i res) p = snd (CallCo_done i res p)"

text \<open>The events that mark a channel healthy: a warm-up that connects it, or a result that reached it.\<close>

fun revives :: "nat \<Rightarrow> pool_event \<Rightarrow> bool" where
  "revives i (EvWarmup c) = c i"
| "revives i (EvAsyncDone j inner) = (i = j \<and> (\<exists>res. inner = Some res \<and> \<not> IsConnectionError res))"
| "revives i (EvCoDone j res) = (i = j \<and> \<not> IsConnectionError res)"
| "revives i (EvCall rds rpc) = False"
| "revives i (EvCallAsync rd) = False"
| "revives i (EvCallCo rd) = False"

text \<open>The copy of the book-keeping in \<open>CallAsync\<close> does what the shared functions do.\<close>

lemma CallAsync_done_eq:
  "CallAsync_done (max_consecutive_failures (pool_options p)) i (Some res) p =
     (Some res, RecordReachability i (\<not> IsConnectionError res) (RecordCallResult i res p))"
proof -
  let ?m = "max_consecutive_failures (pool_options p)"
  have c: "count_result res = (if result_ok res then (\<lambda>ch. ch\<lparr>success_count := success_count ch + 1\<rparr>)
      else (\<lambda>ch. ch\<lparr>fail_count := fail_count ch + 1\<rparr>))"
    by (auto simp: count_result_def)
  have r: "reach_channel ?m True = (\<lambda>ch. ch\<lparr>consecutive_failures := 0, healthy := True\<rparr>)"
    "reach_channel ?m False = (\<lambda>ch. let failures = consecutive_failures ch + 1;
       ch1 = ch\<lparr>consecutive_failures := failures\<rparr> in if failures \<ge> ?m then ch1\<lparr>healthy := False\<rparr> else ch1)"
    by (auto simp: reach_channel_def)
  have e: "(if \<not> result_ok res then str_find (st_message (status res)) ''connect failed''
        \<or> str_find (st_message (status res)) ''send request failed''
        \<or> str_find (st_message (status res)) ''connection closed''
        \<or> str_find (st_message (status res)) ''connection inactive''
        \<or> str_find (st_message (status res)) ''dispatcher stopped''
        \<or> str_find (st_message (status res)) ''call timeout'' else False) = IsConnectionError res"
    by (simp add: IsConnectionError_def Let_def)
  show ?thesis
    unfolding CallAsync_done_def option.case Let_def e RecordReachability_def RecordCallResult_def
    by (cases "result_ok res"; cases "IsConnectionError res") (simp_all only: c r Let_def if_True if_False not_True_eq_False not_False_eq_True on_channel_fields)
qed

text \<open>One event keeps the pool well formed and revives no channel but the first by accident.\<close>

definition no_revival :: "nat \<Rightarrow> RpcClientPool \<Rightarrow> RpcClientPool \<Rightarrow> bool" where
  "no_revival i p q \<longleftrightarrow>
     length (channels q) = length (channels p) \<and> pool_options q = pool_options p
     \<and> (i < length (channels p) \<and> \<not> healthy (channels p ! i) \<longrightarrow> \<not> healthy (channels q ! i))"

lemma no_revival_same: "same_health I p q \<Longrightarrow> i \<notin> I \<or> healthy (channels p ! i) \<Longrightarrow> no_revival i p q"
  by (auto simp: no_revival_def same_health_def)

lemma select_keeps:
  assumes "pool_ok p"
  shows "pool_ok (snd (SelectChannel rd ex p)) \<and> same_health {} p (snd (SelectChannel rd ex p))"
proof (cases "channels p = []")
  case True
  with assms show ?thesis by (simp add: SelectChannel_def healthy_candidates_def)
next
  case False
  from SelectChannel_cases [OF assms False, of rd ex] show ?thesis by (metis snd_conv)
qed

lemma snd_async: "snd (Pool_CallAsync rd p) = snd (SelectChannel rd [] p)" "snd (Pool_CallCo rd p) = snd (SelectChannel rd [] p)"
  by (simp_all add: Pool_CallAsync_def Pool_CallCo_def split: prod.split select_result.split)

lemma call_keeps:
  assumes "pool_ok p" and "Pool_Call rds rpc p = (out, att, p')"
  shows "pool_ok p' \<and> same_health (set att) p p' \<and> (\<forall>i \<in> set att. i = 0 \<or> healthy (channels p ! i))"
proof (cases "channels p = []")
  case True
  with assms show ?thesis by (simp add: Pool_Call_def)
next
  case False
  with assms(2) have "call_attempts (length (channels p)) rds rpc [] p = (out, att, p')"
    by (simp add: Pool_Call_def)
  from call_attempts_spec [OF assms(1) False this] show ?thesis by auto
qed

lemma record_no_revival:
  assumes "i = j \<Longrightarrow> \<not> b"
  shows "no_revival i p (RecordReachability j b (RecordCallResult j res p))"
proof (cases "i = j")
  case True
  with assms show ?thesis
    by (cases "j < length (channels p)")
      (auto simp: no_revival_def RecordReachability_def RecordCallResult_def reach_channel_def count_result_def Let_def)
next
  case False
  then show ?thesis using same_health_record [OF same_health_refl, of j p b res] by (auto intro: no_revival_same)
qed

lemma CallAsync_done_None [simp]: "CallAsync_done m i None p = (None, p)"
  by (simp add: CallAsync_done_def)

lemma length_record [simp]:
  "length (channels (RecordReachability j b (RecordCallResult j res p))) = length (channels p)"
  by (simp add: RecordReachability_def RecordCallResult_def)

lemma pool_exec_keeps:
  assumes "pool_ok p"
  shows "pool_ok (pool_exec e p)" and "i \<noteq> 0 \<Longrightarrow> \<not> revives i e \<Longrightarrow> no_revival i p (pool_exec e p)"
    and "length (channels (pool_exec e p)) = length (channels p)"
proof -
  have "pool_ok (pool_exec e p) \<and> (i \<noteq> 0 \<and> \<not> revives i e \<longrightarrow> no_revival i p (pool_exec e p))
    \<and> length (channels (pool_exec e p)) = length (channels p)" for i
  proof (cases e)
    case (EvWarmup c)
    with assms show ?thesis
      by (auto simp: Warmup_def Let_def pool_ok_channels channel_ok_def warmup_channel_def no_revival_def)
  next
    case (EvCall rds rpc)
    obtain out att p' where c: "Pool_Call rds rpc p = (out, att, p')" by (cases "Pool_Call rds rpc p") auto
    from call_keeps [OF assms c] EvCall c show ?thesis
      by (auto intro!: no_revival_same simp: same_health_def)
  next
    case (EvAsyncDone j inner)
    show ?thesis
    proof (cases inner)
      case (Some res)
      with EvAsyncDone assms show ?thesis
        using record_no_revival [of i j "\<not> IsConnectionError res" p res] by (simp add: CallAsync_done_eq record_keeps)
    qed (use EvAsyncDone assms in \<open>simp add: no_revival_def\<close>)
  next
    case (EvCoDone j res)
    with assms show ?thesis
      using record_no_revival [of i j "\<not> IsConnectionError res" p res] by (simp add: CallCo_done_def record_keeps)
  qed (use select_keeps [OF assms] in \<open>auto simp: snd_async same_health_def no_revival_def\<close>)
  then show "pool_ok (pool_exec e p)" and "i \<noteq> 0 \<Longrightarrow> \<not> revives i e \<Longrightarrow> no_revival i p (pool_exec e p)"
    and "length (channels (pool_exec e p)) = length (channels p)" by blast+
qed

lemma pool_run_ok:
  "pool_ok p \<Longrightarrow> pool_ok (fold pool_exec evs p) \<and> length (channels (fold pool_exec evs p)) = length (channels p)"
  by (induction evs arbitrary: p) (simp_all add: pool_exec_keeps)

lemma pool_run_no_revival:
  assumes "pool_ok p" and "i \<noteq> 0" and "\<forall>e \<in> set evs. \<not> revives i e"
    and "i < length (channels p)" and "\<not> healthy (channels p ! i)"
  shows "\<not> healthy (channels (fold pool_exec evs p) ! i)"
  using assms
proof (induction evs arbitrary: p)
  case (Cons e evs)
  then have "no_revival i p (pool_exec e p)" by (simp add: pool_exec_keeps)
  with Cons show ?case by (auto simp: no_revival_def pool_exec_keeps)
qed simp

text \<open>
  The health marks over the life of a pool, under every order of its operations. The pool stays
  well formed, so that its calls fail over as stated above; a channel that is marked healthy has
  fewer consecutive failures than the limit (for a limit of at least one); and an unhealthy channel
  other than the first is not tried again by later calls: it stays unhealthy until a warm-up connects
  it or a call that had chosen it earlier reports that it was reached.
\<close>

lemma pool_health:
  assumes "p = fold pool_exec evs (RpcClientPool_make eps opts)"
  shows "pool_ok p \<and> length (channels p) = length eps
    \<and> (\<forall>ch \<in> set (channels p). healthy ch \<and> 0 < max_consecutive_failures (pool_options p) \<longrightarrow>
         consecutive_failures ch < max_consecutive_failures (pool_options p))
    \<and> (0 < i \<and> i < length eps \<and> \<not> healthy (channels p ! i) \<and> (\<forall>e \<in> set later. \<not> revives i e) \<longrightarrow>
         \<not> healthy (channels (fold pool_exec later p) ! i))"
proof -
  have "pool_ok p" "length (channels p) = length eps"
    using assms pool_run_ok [OF pool_ok_make, of evs eps opts] by simp_all
  then show ?thesis
    using pool_run_no_revival [of p i later] by (auto simp: pool_ok_def)
qed

end
