(* ===== verification/Mpsc_Ring.thy ===== *)
theory Mpsc_Ring
  imports Rpc_Prelude "HOL-Library.Multiset"
begin

unbundle bit_operations_syntax

text \<open>
  \<open>src/common/mpsc_ring_queue.h\<close>: the bounded queue of the thread pool and of the logger, with many
  producers and one consumer. The atomic accesses of \<open>TryPush\<close> are steps of their own, so that any
  number of producers can be interleaved; the consumer side touches only slots that no producer
  touches, and each of its operations is one step. Positions and sequence numbers are 64-bit words and
  the differences are taken on their signed values, as in the code; every theorem is for fewer than
  \<open>2\<^sup>63\<close> pushes, beyond which the signed difference of the code overflows.
\<close>

section \<open>The queue\<close>

record 'a ring_slot =
  sequence :: u64
  storage :: "'a option"

text \<open>\<open>cap_bits\<close> is the binary logarithm of the template parameter \<open>Capacity\<close>, a power of two.\<close>

record 'a ring =
  cap_bits :: nat
  ring_slots :: "'a ring_slot list"
  enqueue_pos :: u64
  dequeue_pos :: u64

definition Capacity :: "'a ring \<Rightarrow> nat" where
  "Capacity r = 2 ^ cap_bits r"

definition kMask :: "'a ring \<Rightarrow> u64" where
  "kMask r = word_of_nat (Capacity r) - 1"

definition MpscRingQueue_make :: "nat \<Rightarrow> 'a ring" where
  "MpscRingQueue_make k =
     \<lparr>cap_bits = k, ring_slots = map (\<lambda>i. \<lparr>sequence = word_of_nat i, storage = None\<rparr>) [0..<2 ^ k],
      enqueue_pos = 0, dequeue_pos = 0\<rparr>"

definition slot_index :: "u64 \<Rightarrow> 'a ring \<Rightarrow> nat" where
  "slot_index pos r = unat (pos AND kMask r)"

definition load_sequence :: "u64 \<Rightarrow> 'a ring \<Rightarrow> u64" where
  "load_sequence pos r = sequence (ring_slots r ! slot_index pos r)"

definition store_slot :: "u64 \<Rightarrow> ('a ring_slot \<Rightarrow> 'a ring_slot) \<Rightarrow> 'a ring \<Rightarrow> 'a ring" where
  "store_slot pos f r = r\<lparr>ring_slots := (ring_slots r)[slot_index pos r := f (ring_slots r ! slot_index pos r)]\<rparr>"

text \<open>\<open>static_cast<intptr_t>(seq) - static_cast<intptr_t>(pos)\<close>.\<close>

definition seq_diff :: "u64 \<Rightarrow> u64 \<Rightarrow> int" where
  "seq_diff seq pos = sint seq - sint pos"

section \<open>Producers\<close>

text \<open>
  Where a call of \<open>TryPush\<close> is: before the first load of the position, before the load of the
  sequence number of its slot, before the exchange, before the construction of the element, before
  the publication, or finished with its result.
\<close>

datatype 'a push_pc =
    PushStart 'a
  | AtSlot 'a u64
  | AtCas 'a u64
  | AtConstruct 'a u64
  | AtPublish 'a u64
  | PushDone bool

text \<open>One atomic step; \<open>spurious\<close> is a failure that \<open>compare_exchange_weak\<close> may report without a reason.\<close>

fun push_step :: "bool \<Rightarrow> 'a push_pc \<Rightarrow> 'a ring \<Rightarrow> 'a push_pc \<times> 'a ring" where
  "push_step spurious (PushStart v) r = (AtSlot v (enqueue_pos r), r)"
| "push_step spurious (AtSlot v pos) r =
     (let diff = seq_diff (load_sequence pos r) pos in
      if diff = 0 then (AtCas v pos, r)
      else if diff < 0 then (PushDone False, r)
      else (AtSlot v (enqueue_pos r), r))"
| "push_step spurious (AtCas v pos) r =
     (if enqueue_pos r = pos \<and> \<not> spurious then (AtConstruct v pos, r\<lparr>enqueue_pos := pos + 1\<rparr>)
      else (AtSlot v (enqueue_pos r), r))"
| "push_step spurious (AtConstruct v pos) r = (AtPublish v pos, store_slot pos (\<lambda>s. s\<lparr>storage := Some v\<rparr>) r)"
| "push_step spurious (AtPublish v pos) r = (PushDone True, store_slot pos (\<lambda>s. s\<lparr>sequence := pos + 1\<rparr>) r)"
| "push_step spurious (PushDone b) r = (PushDone b, r)"

text \<open>\<open>TryPush\<close> without interference; \<^const>\<open>None\<close> if its loop never ends.\<close>

partial_function (option) run_push :: "'a push_pc \<Rightarrow> 'a ring \<Rightarrow> (bool \<times> 'a ring) option" where
  "run_push pc r =
     (case pc of
        PushDone b \<Rightarrow> Some (b, r)
      | _ \<Rightarrow> (case push_step False pc r of (pc', r') \<Rightarrow> run_push pc' r'))"

definition TryPush :: "'a \<Rightarrow> 'a ring \<Rightarrow> (bool \<times> 'a ring) option" where
  "TryPush v r = run_push (PushStart v) r"

section \<open>The consumer\<close>

definition TryPopOne :: "'a ring \<Rightarrow> 'a option \<times> 'a ring" where
  "TryPopOne r =
     (let pos = dequeue_pos r in
      if seq_diff (load_sequence pos r) (pos + 1) < 0 then (None, r)
      else (storage (ring_slots r ! slot_index pos r),
            (store_slot pos (\<lambda>s. s\<lparr>storage := None, sequence := pos + word_of_nat (Capacity r)\<rparr>) r)
              \<lparr>dequeue_pos := pos + 1\<rparr>))"

text \<open>\<open>PopBatch\<close> into a span of \<open>n\<close> elements: the elements written, in order.\<close>

primrec PopBatch :: "nat \<Rightarrow> 'a ring \<Rightarrow> 'a list \<times> 'a ring" where
  "PopBatch 0 r = ([], r)"
| "PopBatch (Suc n) r =
     (case TryPopOne r of
        (None, r') \<Rightarrow> ([], r')
      | (Some v, r') \<Rightarrow> (case PopBatch n r' of (vs, r'') \<Rightarrow> (v # vs, r'')))"

definition Empty :: "'a ring \<Rightarrow> bool" where
  "Empty r \<longleftrightarrow> seq_diff (load_sequence (dequeue_pos r) r) (dequeue_pos r + 1) < 0"

text \<open>\<open>DrainAll\<close> of the destructor: the elements it destroys, or \<^const>\<open>None\<close> if it never ends.\<close>

partial_function (option) DrainAll :: "'a ring \<Rightarrow> ('a list \<times> 'a ring) option" where
  "DrainAll r =
     (case TryPopOne r of
        (None, r') \<Rightarrow> Some ([], r')
      | (Some v, r') \<Rightarrow> Option.bind (DrainAll r') (\<lambda>(vs, r''). Some (v # vs, r'')))"

section \<open>Words and positions\<close>

declare of_nat_Suc [simp del]

lemma seq_diff_nat:
  assumes "m < 2 ^ 63" and "n < 2 ^ 63"
  shows "seq_diff (word_of_nat m) (word_of_nat n) = int m - int n"
  using assms by (simp add: seq_diff_def signed_of_nat signed_take_bit_int_eq_self)

lemma word_of_nat_eq_small: "m < 2 ^ 64 \<Longrightarrow> n < 2 ^ 64 \<Longrightarrow> (word_of_nat m :: u64) = word_of_nat n \<longleftrightarrow> m = n"
  by (simp add: word_of_nat_eq_iff take_bit_nat_eq_self)

lemma slot_index_nat:
  assumes "cap_bits r = k" and "k < 63"
  shows "slot_index (word_of_nat n) r = n mod 2 ^ k"
proof -
  have "kMask r = mask k" using assms(1) by (simp add: kMask_def Capacity_def mask_eq_exp_minus_1)
  then have "slot_index (word_of_nat n) r = unat (take_bit k (word_of_nat n :: u64))"
    by (simp add: slot_index_def take_bit_eq_mask)
  also have "\<dots> = take_bit k (take_bit 64 n)" by (simp add: unsigned_take_bit_eq unsigned_of_nat)
  also have "\<dots> = take_bit k n" using assms(2) unfolding take_bit_take_bit by (simp add: min_def)
  also have "\<dots> = n mod 2 ^ k" by (simp add: take_bit_eq_mod)
  finally show ?thesis .
qed

section \<open>Invariant\<close>

text \<open>
  Logical positions are natural numbers: \<open>E\<close> positions have been claimed by producers, in this order
  with the values of the list \<open>claimed\<close>, and \<open>D\<close> have been taken by the consumer. Position \<open>p\<close> lives in
  the cell \<open>p mod Capacity\<close>.
\<close>

definition cell :: "'a ring \<Rightarrow> nat \<Rightarrow> 'a ring_slot" where
  "cell r p = ring_slots r ! (p mod Capacity r)"

fun writes :: "'a push_pc \<Rightarrow> u64 option" where
  "writes (AtConstruct v pos) = Some pos"
| "writes (AtPublish v pos) = Some pos"
| "writes _ = None"

fun pc_ok :: "'a list \<Rightarrow> nat \<Rightarrow> 'a ring \<Rightarrow> 'a push_pc \<Rightarrow> bool" where
  "pc_ok claimed D r (AtSlot v pos) \<longleftrightarrow> (\<exists>p \<le> length claimed. pos = word_of_nat p)"
| "pc_ok claimed D r (AtCas v pos) \<longleftrightarrow>
     (\<exists>p \<le> length claimed. pos = word_of_nat p \<and> (p = length claimed \<longrightarrow> p < D + Capacity r))"
| "pc_ok claimed D r (AtConstruct v pos) \<longleftrightarrow>
     (\<exists>p. pos = word_of_nat p \<and> D \<le> p \<and> p < length claimed \<and> claimed ! p = v \<and> sequence (cell r p) = word_of_nat p)"
| "pc_ok claimed D r (AtPublish v pos) \<longleftrightarrow>
     (\<exists>p. pos = word_of_nat p \<and> D \<le> p \<and> p < length claimed \<and> claimed ! p = v \<and> sequence (cell r p) = word_of_nat p
        \<and> storage (cell r p) = Some v)"
| "pc_ok claimed D r _ \<longleftrightarrow> True"

definition published :: "'a ring \<Rightarrow> nat \<Rightarrow> 'a \<Rightarrow> bool" where
  "published r p v \<longleftrightarrow> sequence (cell r p) = word_of_nat (Suc p) \<and> storage (cell r p) = Some v"

definition ring_ok :: "'a list \<Rightarrow> nat \<Rightarrow> 'a ring \<Rightarrow> bool" where
  "ring_ok claimed D r \<longleftrightarrow>
     0 < cap_bits r \<and> cap_bits r < 62 \<and> length (ring_slots r) = Capacity r \<and> length claimed + Capacity r < 2 ^ 63
   \<and> enqueue_pos r = word_of_nat (length claimed) \<and> dequeue_pos r = word_of_nat D
   \<and> D \<le> length claimed \<and> length claimed \<le> D + Capacity r
   \<and> (\<forall>p. length claimed \<le> p \<and> p < D + Capacity r \<longrightarrow> sequence (cell r p) = word_of_nat p)"

definition ring_inv :: "'a list \<Rightarrow> nat \<Rightarrow> 'a push_pc list \<Rightarrow> 'a ring \<Rightarrow> bool" where
  "ring_inv claimed D pcs r \<longleftrightarrow>
     ring_ok claimed D r
   \<and> (\<forall>p. D \<le> p \<and> p < length claimed \<longrightarrow> published r p (claimed ! p)
        \<or> sequence (cell r p) = word_of_nat p \<and> (\<exists>i < length pcs. writes (pcs ! i) = Some (word_of_nat p)))
   \<and> (\<forall>i < length pcs. pc_ok claimed D r (pcs ! i))
   \<and> (\<forall>i < length pcs. \<forall>j < length pcs. writes (pcs ! i) \<noteq> None \<and> writes (pcs ! i) = writes (pcs ! j) \<longrightarrow> i = j)"

lemma Capacity_pos [simp]: "0 < Capacity r"
  by (simp add: Capacity_def)

lemma ring_okD:
  assumes "ring_ok claimed D r"
  shows "length (ring_slots r) = Capacity r" "length claimed + Capacity r < 2 ^ 63"
    "enqueue_pos r = word_of_nat (length claimed)" "dequeue_pos r = word_of_nat D"
    "D \<le> length claimed" "length claimed \<le> D + Capacity r"
  using assms by (simp_all add: ring_ok_def)

lemma ring_ok_index: "ring_ok claimed D r \<Longrightarrow> slot_index (word_of_nat p) r = p mod Capacity r"
  by (simp add: ring_ok_def slot_index_nat Capacity_def)

lemma load_sequence_cell: "ring_ok claimed D r \<Longrightarrow> load_sequence (word_of_nat p) r = sequence (cell r p)"
  by (simp add: load_sequence_def ring_ok_index cell_def)

lemma store_slot_fields [simp]:
  "cap_bits (store_slot pos f r) = cap_bits r" "Capacity (store_slot pos f r) = Capacity r"
  "enqueue_pos (store_slot pos f r) = enqueue_pos r" "dequeue_pos (store_slot pos f r) = dequeue_pos r"
  "length (ring_slots (store_slot pos f r)) = length (ring_slots r)"
  by (simp_all add: store_slot_def Capacity_def)

lemma cell_store_slot:
  "ring_ok claimed D r \<Longrightarrow>
   cell (store_slot (word_of_nat p) f r) q = (if q mod Capacity r = p mod Capacity r then f (cell r q) else cell r q)"
  by (auto simp: cell_def store_slot_def ring_ok_index ring_okD(1) nth_list_update Capacity_def)

lemma cell_update [simp]: "cell (r\<lparr>enqueue_pos := x\<rparr>) p = cell r p" "cell (r\<lparr>dequeue_pos := x\<rparr>) p = cell r p"
  "Capacity (r\<lparr>enqueue_pos := x\<rparr>) = Capacity r" "Capacity (r\<lparr>dequeue_pos := x\<rparr>) = Capacity r"
  by (simp_all add: cell_def Capacity_def)

text \<open>Two positions of one window that share a cell are equal.\<close>

lemma mod_eq_close: "p mod C = q mod C \<Longrightarrow> p \<le> q \<Longrightarrow> q < p + C \<Longrightarrow> p = (q::nat)"
  using mod_eq_dvd_iff_nat [of p q C] by (auto dest: dvd_imp_le)

lemma window_inj: "D \<le> p \<Longrightarrow> p < D + C \<Longrightarrow> D \<le> q \<Longrightarrow> q < D + C \<Longrightarrow> p mod C = q mod C \<Longrightarrow> p = (q::nat)"
  using mod_eq_close [of p C q] mod_eq_close [of q C p] by (cases "p \<le> q") auto

text \<open>Every cell belongs to exactly one position of the current window.\<close>

lemma window_cell:
  assumes "0 < C"
  obtains q where "D \<le> q" "q < D + C" "q mod C = p mod (C::nat)"
proof
  let ?q = "D + (p + C * D - D) mod C"
  show "D \<le> ?q" "?q < D + C" using assms by auto
  have "?q mod C = (D + (p + C * D - D)) mod C" by (simp add: mod_add_right_eq)
  also have "D + (p + C * D - D) = p + C * D" using assms by (cases C) auto
  finally show "?q mod C = p mod C" by simp
qed

text \<open>The sequence number in a cell of the window is that of its position, or one more.\<close>

lemma ring_inv_sequence:
  assumes "ring_inv claimed D pcs r" and "D \<le> q" and "q < D + Capacity r"
  shows "sequence (cell r q) = word_of_nat q \<or> q < length claimed \<and> published r q (claimed ! q)"
  using assms by (cases "q < length claimed") (auto simp: ring_inv_def ring_ok_def)

lemma pcs_update:
  "i < length pcs \<Longrightarrow> (\<forall>j < length pcs. Q j (pcs ! j)) \<Longrightarrow> Q i pc \<Longrightarrow> (\<forall>j < length (pcs[i := pc]). Q j (pcs[i := pc] ! j))"
  by (auto simp: nth_list_update)

text \<open>A step that changes neither the ring nor which position its producer writes.\<close>

lemma ring_inv_pc:
  assumes "ring_inv claimed D pcs r" and "i < length pcs" and "pc_ok claimed D r pc"
    and "writes pc = writes (pcs ! i)"
  shows "ring_inv claimed D (pcs[i := pc]) r"
proof -
  have w: "writes (pcs[i := pc] ! j) = writes (pcs ! j)" if "j < length pcs" for j
    using that assms(2,4) by (cases "j = i") auto
  have "\<forall>j < length pcs. pc_ok claimed D r (pcs[i := pc] ! j)"
    using assms(1-3) by (auto simp: ring_inv_def nth_list_update)
  with assms(1) show ?thesis unfolding ring_inv_def length_list_update by (simp add: w cong: conj_cong) blast
qed

lemma full_when_behind:
  assumes "ring_inv claimed D pcs r" and "p \<le> length claimed" and "seq_diff (load_sequence (word_of_nat p) r) (word_of_nat p) < 0"
  shows "length claimed = D + Capacity r"
proof (rule ccontr)
  assume nf: "length claimed \<noteq> D + Capacity r"
  have ok: "ring_ok claimed D r" using assms(1) by (simp add: ring_inv_def)
  note b = ring_okD [OF ok]
  obtain q where q: "D \<le> q" "q < D + Capacity r" "q mod Capacity r = p mod Capacity r" by (rule window_cell [OF Capacity_pos])
  have "p < D + Capacity r" using assms(2) b(6) nf by simp
  then have "p \<le> q" using window_inj [of D p "Capacity r" q] q by (cases "D \<le> p") simp_all
  have "cell r p = cell r q" using q(3) by (simp add: cell_def)
  with ring_inv_sequence [OF assms(1) q(1,2)] obtain n where n: "sequence (cell r p) = word_of_nat n" "q \<le> n" "n \<le> Suc q"
    unfolding published_def by (metis le_refl le_SucI)
  then have "seq_diff (load_sequence (word_of_nat p) r) (word_of_nat p) = int n - int p"
    using seq_diff_nat [of n p] b(2,5) q(2) \<open>p \<le> q\<close> by (simp add: load_sequence_cell [OF ok])
  with assms(3) n(2) \<open>p \<le> q\<close> show False by simp
qed

lemma Capacity_two: "ring_ok claimed D r \<Longrightarrow> 2 \<le> Capacity r"
  using power_increasing [of 1 "cap_bits r" "2::nat"] by (simp add: ring_ok_def Capacity_def)

lemma seq_diff_0: "m < 2 ^ 63 \<Longrightarrow> n < 2 ^ 63 \<Longrightarrow> seq_diff (word_of_nat m) (word_of_nat n) = 0 \<longleftrightarrow> m = n"
  by (simp add: seq_diff_nat)

lemma not_full_when_equal:
  assumes "ring_inv claimed D pcs r"
    and "seq_diff (load_sequence (word_of_nat (length claimed)) r) (word_of_nat (length claimed)) = 0"
  shows "length claimed < D + Capacity r"
proof (rule ccontr)
  assume "\<not> ?thesis"
  have ok: "ring_ok claimed D r" using assms(1) by (simp add: ring_inv_def)
  note b = ring_okD [OF ok]
  with \<open>\<not> ?thesis\<close> have E: "length claimed = D + Capacity r" by simp
  then have "cell r (length claimed) = cell r D" by (simp add: cell_def)
  moreover obtain n where n: "sequence (cell r D) = word_of_nat n" "n \<le> Suc D"
    using ring_inv_sequence [OF assms(1), of D] unfolding published_def by (metis Capacity_pos le_refl le_SucI less_add_same_cancel1)
  moreover have "n < 2 ^ 63" "length claimed < 2 ^ 63" using n(2) E b(2) Capacity_two [OF ok] by simp_all
  ultimately have "n = length claimed" using assms(2) seq_diff_0 unfolding load_sequence_cell [OF ok] by simp
  with E n(2) Capacity_two [OF ok] show False by simp
qed

lemma ring_inv_claim:
  assumes "ring_inv claimed D pcs r" and "i < length pcs" and "pcs ! i = AtCas v (enqueue_pos r)"
    and "Suc (length claimed) + Capacity r < 2 ^ 63"
  shows "ring_inv (claimed @ [v]) D (pcs[i := AtConstruct v (enqueue_pos r)]) (r\<lparr>enqueue_pos := enqueue_pos r + 1\<rparr>)"
proof -
  let ?E = "length claimed" and ?pcs = "pcs[i := AtConstruct v (enqueue_pos r)]" and ?r = "r\<lparr>enqueue_pos := enqueue_pos r + 1\<rparr>"
  have ok: "ring_ok claimed D r" using assms(1) by (simp add: ring_inv_def)
  note b = ring_okD [OF ok]
  have pcs: "pc_ok claimed D r (pcs ! j)" if "j < length pcs" for j using assms(1) that by (simp add: ring_inv_def)
  have room: "?E < D + Capacity r"
    using pcs [OF assms(2)] assms(3,4) b(3) by (auto simp: word_of_nat_eq_small)
  then have free: "sequence (cell r ?E) = word_of_nat ?E" using ok by (simp add: ring_ok_def)
  have other: "writes (pcs ! j) \<noteq> Some (word_of_nat ?E)" if "j < length pcs" for j
    using pcs [OF that] b(2) by (cases "pcs ! j") (auto simp: word_of_nat_eq_small)
  have "ring_ok (claimed @ [v]) D ?r"
    using ok assms(4) room by (auto simp: ring_ok_def of_nat_Suc add.commute cell_def Capacity_def)
  moreover have "published ?r p ((claimed @ [v]) ! p)
      \<or> sequence (cell ?r p) = word_of_nat p \<and> (\<exists>j < length ?pcs. writes (?pcs ! j) = Some (word_of_nat p))"
    if p: "D \<le> p" "p < length (claimed @ [v])" for p
  proof (cases "p = ?E")
    case True
    with free b(3) assms(2) show ?thesis by (auto intro!: exI [of _ i])
  next
    case False
    then have "p < ?E" using p by simp
    with assms(1) p(1) consider "published r p (claimed ! p)"
      | j where "sequence (cell r p) = word_of_nat p" "j < length pcs" "writes (pcs ! j) = Some (word_of_nat p)"
      unfolding ring_inv_def by blast
    then show ?thesis
    proof cases
      case 2
      with assms(2,3) have "j \<noteq> i" by auto
      with 2 show ?thesis by (auto intro!: exI [of _ j])
    qed (use \<open>p < ?E\<close> in \<open>simp add: nth_append published_def\<close>)
  qed
  moreover have "pc_ok (claimed @ [v]) D ?r (?pcs ! j)" if "j < length ?pcs" for j
  proof (cases "j = i")
    case True
    with assms(2) b(3,5) free show ?thesis by (auto intro!: exI [of _ ?E])
  next
    case False
    note pj = pcs [of j]
    show ?thesis
    proof (cases "pcs ! j")
      case (AtSlot u pos)
      with False that pj show ?thesis by (auto intro: le_SucI)
    next
      case (AtCas u pos)
      with False that pj obtain p where "p \<le> ?E" "pos = word_of_nat p" by auto
      with AtCas False show ?thesis by (auto intro!: exI [of _ p])
    qed (use False that pj in \<open>auto simp: nth_append\<close>)
  qed
  moreover have "j = l" if "j < length ?pcs" "l < length ?pcs" "writes (?pcs ! j) \<noteq> None" "writes (?pcs ! j) = writes (?pcs ! l)" for j l
    using that assms(1,2) other b(3) by (cases "j = i"; cases "l = i") (auto simp: ring_inv_def)
  ultimately show ?thesis unfolding ring_inv_def by blast
qed

text \<open>Writing the cell of a claimed position leaves the other positions of the window alone.\<close>

lemma cell_store_other:
  assumes "ring_ok claimed D r" and "D \<le> p" and "p < D + Capacity r" and "D \<le> q" and "q < D + Capacity r"
  shows "cell (store_slot (word_of_nat p) f r) q = (if q = p then f (cell r q) else cell r q)"
  using assms window_inj [of D q "Capacity r" p] by (auto simp: cell_store_slot [OF assms(1)])

lemma ring_ok_store:
  assumes "ring_ok claimed D r" and "D \<le> p" and "p < length claimed"
  shows "ring_ok claimed D (store_slot (word_of_nat p) f r)"
proof -
  have "cell (store_slot (word_of_nat p) f r) q = cell r q" if "length claimed \<le> q" "q < D + Capacity r" for q
    using that assms ring_okD [OF assms(1)] cell_store_other [OF assms(1), of p q f] by auto
  with assms(1) show ?thesis unfolding ring_ok_def by simp
qed

text \<open>A step in which producer \<open>i\<close> writes its own cell.\<close>

lemma ring_inv_write:
  assumes "ring_inv claimed D pcs r" and "i < length pcs" and "writes (pcs ! i) = Some (word_of_nat p)"
    and "D \<le> p" and "p < length claimed" and "pc_ok claimed D (store_slot (word_of_nat p) f r) pc"
    and "writes pc = writes (pcs ! i) \<and> sequence (f (cell r p)) = word_of_nat p
      \<or> writes pc = None \<and> published (store_slot (word_of_nat p) f r) p (claimed ! p)"
  shows "ring_inv claimed D (pcs[i := pc]) (store_slot (word_of_nat p) f r)"
proof -
  let ?r = "store_slot (word_of_nat p) f r" and ?pcs = "pcs[i := pc]"
  have ok: "ring_ok claimed D r" using assms(1) by (simp add: ring_inv_def)
  note b = ring_okD [OF ok]
  have cell: "cell ?r q = (if q = p then f (cell r q) else cell r q)" if "D \<le> q" "q < length claimed" for q
    using cell_store_other [OF ok, of p q f] that assms(4,5) b(6) by auto
  have uniq: "j = i" if "j < length pcs" "writes (pcs ! j) = Some (word_of_nat p)" for j
    using assms(1-3) that by (auto simp: ring_inv_def)
  have "published ?r q (claimed ! q) \<or> sequence (cell ?r q) = word_of_nat q \<and> (\<exists>j < length ?pcs. writes (?pcs ! j) = Some (word_of_nat q))"
    if q: "D \<le> q" "q < length claimed" for q
  proof (cases "q = p")
    case True
    with assms(2,3,7) cell [OF q] show ?thesis by (auto intro!: exI [of _ i])
  next
    case False
    with assms(1) q consider "published r q (claimed ! q)"
      | j where "sequence (cell r q) = word_of_nat q" "j < length pcs" "writes (pcs ! j) = Some (word_of_nat q)"
      unfolding ring_inv_def by blast
    then show ?thesis
    proof cases
      case 2
      with False q assms(3,5) b(2) have "j \<noteq> i" by (auto simp: word_of_nat_eq_small)
      with 2 cell [OF q] False show ?thesis by (auto intro!: exI [of _ j])
    qed (use cell [OF q] False in \<open>simp add: published_def\<close>)
  qed
  moreover have "pc_ok claimed D ?r (?pcs ! j)" if "j < length ?pcs" for j
  proof (cases "j = i")
    case False
    have pj: "pc_ok claimed D r (pcs ! j)" using assms(1) that by (simp add: ring_inv_def)
    have "writes (pcs ! j) \<noteq> Some (word_of_nat p)" using uniq False that by auto
    with pj cell have "pc_ok claimed D ?r (pcs ! j)" by (cases "pcs ! j") auto
    with False show ?thesis by simp
  qed (use assms(2,6) in simp)
  moreover have "j = l" if "j < length ?pcs" "l < length ?pcs" "writes (?pcs ! j) \<noteq> None" "writes (?pcs ! j) = writes (?pcs ! l)" for j l
  proof -
    have same: "writes (?pcs ! x) = writes (pcs ! x)" if "writes (?pcs ! x) \<noteq> None" "x < length pcs" for x
      using that assms(2,7) by (cases "x = i") auto
    from that same [of j] same [of l] have "writes (pcs ! j) \<noteq> None" "writes (pcs ! j) = writes (pcs ! l)" by simp_all
    moreover have "j < length pcs" "l < length pcs" using that by simp_all
    ultimately show ?thesis using assms(1) unfolding ring_inv_def by blast
  qed
  ultimately show ?thesis using ring_ok_store [OF ok assms(4,5)] unfolding ring_inv_def by blast
qed

text \<open>Every step of a producer keeps the invariant; a successful exchange claims the next position.\<close>

definition claims :: "'a push_pc \<Rightarrow> 'a push_pc \<Rightarrow> 'a list" where
  "claims pc pc' = (case (pc, pc') of (AtCas v _, AtConstruct _ _) \<Rightarrow> [v] | _ \<Rightarrow> [])"

lemma push_step_inv:
  assumes "ring_inv claimed D pcs r" and "i < length pcs" and "push_step sp (pcs ! i) r = (pc, r')"
    and "claims (pcs ! i) pc \<noteq> [] \<longrightarrow> Suc (length claimed) + Capacity r < 2 ^ 63"
  shows "ring_inv (claimed @ claims (pcs ! i) pc) D (pcs[i := pc]) r'"
proof -
  have ok: "ring_ok claimed D r" and pci: "pc_ok claimed D r (pcs ! i)" using assms(1,2) by (auto simp: ring_inv_def)
  note b = ring_okD [OF ok]
  have reload: "ring_inv claimed D (pcs[i := AtSlot v (enqueue_pos r)]) r" if "writes (pcs ! i) = None" for v
    using that b(3) by (intro ring_inv_pc [OF assms(1,2)]) auto
  show ?thesis
  proof (cases "pcs ! i")
    case (PushStart v)
    with assms(3) reload [of v] show ?thesis by (auto simp: claims_def)
  next
    case (AtSlot v pos)
    with pci obtain p where p: "p \<le> length claimed" "pos = word_of_nat p" by auto
    have "ring_inv claimed D (pcs[i := AtCas v pos]) r" if "seq_diff (load_sequence pos r) pos = 0"
      using that p not_full_when_equal [OF assms(1)] AtSlot by (intro ring_inv_pc [OF assms(1,2)]) (auto intro!: exI [of _ p])
    moreover have "ring_inv claimed D (pcs[i := PushDone False]) r"
      using AtSlot by (intro ring_inv_pc [OF assms(1,2)]) auto
    ultimately show ?thesis using AtSlot assms(3) reload [of v] by (auto simp: Let_def claims_def split: if_splits)
  next
    case (AtCas v pos)
    show ?thesis
    proof (cases "enqueue_pos r = pos \<and> \<not> sp")
      case True
      with AtCas assms(3,4) ring_inv_claim [OF assms(1,2), of v] show ?thesis by (auto simp: claims_def)
    next
      case False
      then have "pc = AtSlot v (enqueue_pos r)" "r' = r" using AtCas assms(3) by auto
      with AtCas reload [of v] show ?thesis by (simp add: claims_def)
    qed
  next
    case (AtConstruct v pos)
    with pci obtain p where p: "pos = word_of_nat p" "D \<le> p" "p < length claimed" "claimed ! p = v"
        "sequence (cell r p) = word_of_nat p" by auto
    let ?f = "\<lambda>s. s\<lparr>storage := Some v\<rparr>"
    have eq: "pc = AtPublish v pos" "r' = store_slot (word_of_nat p) ?f r" using AtConstruct assms(3) p(1) by auto
    have "cell r' p = ?f (cell r p)" using cell_store_slot [OF ok, of p ?f p] eq(2) by simp
    with p eq have "pc_ok claimed D r' pc" by auto
    with p eq AtConstruct have "ring_inv claimed D (pcs[i := pc]) r'"
      unfolding eq(2) by (intro ring_inv_write [OF assms(1,2), of p]) auto
    with AtConstruct show ?thesis by (simp add: claims_def)
  next
    case (AtPublish v pos)
    with pci obtain p where p: "pos = word_of_nat p" "D \<le> p" "p < length claimed" "claimed ! p = v"
        "sequence (cell r p) = word_of_nat p" "storage (cell r p) = Some v" by auto
    let ?f = "\<lambda>s. s\<lparr>sequence := pos + 1\<rparr>"
    have eq: "pc = PushDone True" "r' = store_slot (word_of_nat p) ?f r" using AtPublish assms(3) p(1) by auto
    have "cell r' p = ?f (cell r p)" using cell_store_slot [OF ok, of p ?f p] eq(2) by simp
    with p have "published r' p (claimed ! p)" by (simp add: published_def of_nat_Suc add.commute)
    with p eq AtPublish have "ring_inv claimed D (pcs[i := pc]) r'"
      unfolding eq(2) by (intro ring_inv_write [OF assms(1,2), of p]) auto
    with AtPublish show ?thesis by (simp add: claims_def)
  next
    case (PushDone res)
    then have "pc = pcs ! i" "r' = r" using assms(3) by auto
    moreover have "claims (pcs ! i) pc = []" unfolding PushDone by (simp add: claims_def)
    ultimately have "claims (pcs ! i) pc = []" "pcs[i := pc] = pcs" "r' = r" by simp_all
    with assms(1) show ?thesis by simp
  qed
qed

text \<open>The consumer takes the oldest claimed position as soon as it is published, and nothing else.\<close>

lemma TryPopOne_inv:
  assumes "ring_inv claimed D pcs r"
  shows "if D < length claimed \<and> published r D (claimed ! D)
         then fst (TryPopOne r) = Some (claimed ! D) \<and> ring_inv claimed (Suc D) pcs (snd (TryPopOne r))
         else TryPopOne r = (None, r)"
proof -
  have ok: "ring_ok claimed D r" using assms by (simp add: ring_inv_def)
  note b = ring_okD [OF ok]
  have seq: "sequence (cell r D) = word_of_nat D \<or> D < length claimed \<and> published r D (claimed ! D)"
    using ring_inv_sequence [OF assms, of D] by simp
  have small: "Suc D < 2 ^ 63" using b(2,5) Capacity_two [OF ok] by simp
  have pos: "dequeue_pos r + 1 = word_of_nat (Suc D)" using b(4) by (simp add: of_nat_Suc add.commute)
  show ?thesis
  proof (cases "D < length claimed \<and> published r D (claimed ! D)")
    case False
    then have "sequence (cell r D) = word_of_nat D" using seq by blast
    then have "seq_diff (load_sequence (dequeue_pos r) r) (dequeue_pos r + 1) < 0"
      unfolding pos unfolding b(4) load_sequence_cell [OF ok] using small seq_diff_nat [of D "Suc D"] by simp
    with False show ?thesis by (simp add: TryPopOne_def Let_def)
  next
    case True
    let ?f = "\<lambda>s. s\<lparr>storage := None, sequence := dequeue_pos r + word_of_nat (Capacity r)\<rparr>"
    let ?r = "(store_slot (word_of_nat D) ?f r)\<lparr>dequeue_pos := dequeue_pos r + 1\<rparr>"
    have "\<not> seq_diff (load_sequence (dequeue_pos r) r) (dequeue_pos r + 1) < 0"
      unfolding pos unfolding b(4) load_sequence_cell [OF ok] using True small seq_diff_nat [of "Suc D" "Suc D"] by (simp add: published_def)
    then have pop: "TryPopOne r = (storage (cell r D), ?r)"
      using ring_ok_index [OF ok, of D] b(4) by (simp add: TryPopOne_def Let_def cell_def)
    have cell: "cell ?r q = (if q mod Capacity r = D mod Capacity r then ?f (cell r q) else cell r q)" for q
      using cell_store_slot [OF ok, of D ?f q] by simp
    have later: "cell ?r q = cell r q" if "D < q" "q < D + Capacity r" for q
      using cell [of q] mod_eq_close [of D "Capacity r" q] that by auto
    have "ring_ok claimed (Suc D) ?r"
    proof -
      have "sequence (cell ?r q) = word_of_nat q" if q: "length claimed \<le> q" "q < Suc D + Capacity r" for q
      proof (cases "q = D + Capacity r")
        case True
        then show ?thesis using cell [of q] b(4) by simp
      next
        case False
        then have "q < D + Capacity r" "D < q" using q True by auto
        with later q(1) ok show ?thesis by (simp add: ring_ok_def)
      qed
      with ok True b show ?thesis by (simp add: ring_ok_def of_nat_Suc add.commute Capacity_def)
    qed
    moreover have "published ?r q v \<longleftrightarrow> published r q v" "sequence (cell ?r q) = sequence (cell r q)"
      if "Suc D \<le> q" "q < length claimed" for q v
      using later [of q] that b(6) by (simp_all add: published_def)
    moreover have "pc_ok claimed (Suc D) ?r pc" if "pc_ok claimed D r pc" for pc
    proof (cases pc)
      case (AtConstruct v pos)
      with that obtain p where p: "pos = word_of_nat p" "D \<le> p" "p < length claimed" "claimed ! p = v"
          "sequence (cell r p) = word_of_nat p" by auto
      moreover have "p \<noteq> D" using p(5) True small by (auto simp: published_def word_of_nat_eq_small)
      ultimately show ?thesis using AtConstruct later [of p] b(6) by (auto intro!: exI [of _ p])
    next
      case (AtPublish v pos)
      with that obtain p where p: "pos = word_of_nat p" "D \<le> p" "p < length claimed" "claimed ! p = v"
          "sequence (cell r p) = word_of_nat p" "storage (cell r p) = Some v" by auto
      moreover have "p \<noteq> D" using p(5) True small by (auto simp: published_def word_of_nat_eq_small)
      ultimately show ?thesis using AtPublish later [of p] b(6) by (auto intro!: exI [of _ p])
    qed (use that in \<open>auto simp: Capacity_def\<close>)
    ultimately have "ring_inv claimed (Suc D) pcs ?r"
      using assms Suc_leD unfolding ring_inv_def by (intro conjI) (blast, metis, blast, blast)
    with True pop show ?thesis by (simp add: published_def)
  qed
qed

section \<open>The queue without interference\<close>

text \<open>The ring \<open>r\<close> of \<open>2\<^sup>k\<close> cells holds the elements \<open>xs\<close>, after \<open>n\<close> successful pushes in all.\<close>

definition queue_of :: "nat \<Rightarrow> 'a ring \<Rightarrow> nat \<Rightarrow> 'a list \<Rightarrow> bool" where
  "queue_of k r n xs \<longleftrightarrow>
     cap_bits r = k \<and> (\<exists>taken. ring_inv (taken @ xs) (length taken) [] r \<and> n = length taken + length xs)"

lemma ring_inv_idle: "ring_inv claimed D [] r \<Longrightarrow> pc_ok claimed D r pc \<Longrightarrow> writes pc = None \<Longrightarrow> ring_inv claimed D [pc] r"
  by (auto simp: ring_inv_def)

lemma ring_inv_idle_end: "ring_inv claimed D [PushDone b] r \<Longrightarrow> ring_inv claimed D [] r"
  by (auto simp: ring_inv_def)

lemma queue_of_make:
  assumes "0 < k" and "k < 62"
  shows "queue_of k (MpscRingQueue_make k) 0 []"
proof -
  have "(2::nat) ^ k < 2 ^ 63" using assms(2) by (intro power_strict_increasing) auto
  then show ?thesis
    using assms by (auto simp: queue_of_def ring_inv_def ring_ok_def MpscRingQueue_make_def Capacity_def cell_def)
qed

lemma cap_bits_push_step [simp]: "cap_bits (snd (push_step sp pc r)) = cap_bits r"
  by (cases pc) (auto simp: Let_def)

lemma run_push_step:
  "run_push (PushDone b) r = Some (b, r)"
  "\<nexists>b. pc = PushDone b \<Longrightarrow> push_step False pc r = (pc', r') \<Longrightarrow> run_push pc r = run_push pc' r'"
  by (simp add: run_push.simps [of "PushDone b"])
    (subst run_push.simps, cases pc, simp_all del: push_step.simps)

lemma TryPush_room:
  assumes "queue_of k r n xs" and "length xs < 2 ^ k" and "Suc n + 2 ^ k < 2 ^ 63"
  shows "\<exists>r'. TryPush v r = Some (True, r') \<and> queue_of k r' (Suc n) (xs @ [v])"
proof -
  obtain taken where inv: "ring_inv (taken @ xs) (length taken) [] r" and n: "n = length taken + length xs"
    and k: "cap_bits r = k" using assms(1) by (auto simp: queue_of_def)
  let ?cl = "taken @ xs" and ?D = "length taken" and ?pos = "enqueue_pos r"
  have ok: "ring_ok ?cl ?D r" using inv by (simp add: ring_inv_def)
  note b = ring_okD [OF ok]
  have C: "Capacity r = 2 ^ k" using k by (simp add: Capacity_def)
  have bound: "Suc (length ?cl) + Capacity r < 2 ^ 63" using assms(3) n C by simp
  have free: "seq_diff (load_sequence ?pos r) ?pos = 0"
  proof -
    have "sequence (cell r (length ?cl)) = word_of_nat (length ?cl)"
      using ok assms(2) C by (simp add: ring_ok_def)
    then show ?thesis unfolding b(3) load_sequence_cell [OF ok] by (simp add: seq_diff_def)
  qed
  define r1 where "r1 = r\<lparr>enqueue_pos := ?pos + 1\<rparr>"
  define r2 where "r2 = store_slot ?pos (\<lambda>s. s\<lparr>storage := Some v\<rparr>) r1"
  define r3 where "r3 = store_slot ?pos (\<lambda>s. s\<lparr>sequence := ?pos + 1\<rparr>) r2"
  have "run_push (PushStart v) r = run_push (AtSlot v ?pos) r" by (rule run_push_step(2)) auto
  also have "\<dots> = run_push (AtCas v ?pos) r" using free by (intro run_push_step(2)) auto
  also have "\<dots> = run_push (AtConstruct v ?pos) r1" by (intro run_push_step(2)) (auto simp: r1_def)
  also have "\<dots> = run_push (AtPublish v ?pos) r2" by (intro run_push_step(2)) (auto simp: r2_def)
  also have "\<dots> = run_push (PushDone True) r3" by (intro run_push_step(2)) (auto simp: r3_def)
  finally have push: "TryPush v r = Some (True, r3)" by (simp add: TryPush_def run_push_step(1))
  have "pc_ok ?cl ?D r (AtCas v ?pos)" using b(3) assms(2) C by (auto intro!: exI [of _ "length ?cl"])
  then have 0: "ring_inv ?cl ?D [AtCas v ?pos] r" by (intro ring_inv_idle [OF inv]) auto
  have 1: "ring_inv (?cl @ [v]) ?D [AtConstruct v ?pos] r1"
    using push_step_inv [OF 0, of 0 False "AtConstruct v ?pos" r1] bound by (simp add: r1_def claims_def)
  have 2: "ring_inv (?cl @ [v]) ?D [AtPublish v ?pos] r2"
    using push_step_inv [OF 1, of 0 False "AtPublish v ?pos" r2] by (simp add: r2_def claims_def)
  have "ring_inv (?cl @ [v]) ?D [PushDone True] r3"
    using push_step_inv [OF 2, of 0 False "PushDone True" r3] by (simp add: r3_def claims_def)
  then have "ring_inv (taken @ (xs @ [v])) ?D [] r3" using ring_inv_idle_end by fastforce
  moreover have "cap_bits r3 = k" using k by (simp add: r1_def r2_def r3_def)
  ultimately show ?thesis using push n by (auto simp: queue_of_def intro!: exI [of _ taken])
qed

lemma TryPush_full:
  assumes "queue_of k r n xs" and "\<not> length xs < 2 ^ k"
  shows "TryPush v r = Some (False, r)"
proof -
  obtain taken where inv: "ring_inv (taken @ xs) (length taken) [] r" and k: "cap_bits r = k"
    using assms(1) by (auto simp: queue_of_def)
  let ?E = "length (taken @ xs)" and ?D = "length taken"
  have ok: "ring_ok (taken @ xs) ?D r" using inv by (simp add: ring_inv_def)
  note b = ring_okD [OF ok]
  have E: "?E = ?D + Capacity r" using assms(2) b(6) k by (simp add: Capacity_def)
  have "seq_diff (load_sequence (enqueue_pos r) r) (enqueue_pos r) \<noteq> 0"
    using not_full_when_equal [OF inv] E b(3) by auto
  moreover have "\<not> seq_diff (load_sequence (enqueue_pos r) r) (enqueue_pos r) > 0"
  proof -
    have "cell r ?E = cell r ?D" using E by (simp add: cell_def)
    moreover obtain n where n: "sequence (cell r ?D) = word_of_nat n" "n \<le> Suc ?D"
      using ring_inv_sequence [OF inv, of ?D] unfolding published_def by (metis Capacity_pos le_refl le_SucI less_add_same_cancel1)
    moreover have "n < 2 ^ 63" "?E < 2 ^ 63" "n \<le> ?E" using n(2) E b(2) Capacity_two [OF ok] by simp_all
    ultimately show ?thesis using seq_diff_nat [of n ?E] unfolding b(3) load_sequence_cell [OF ok] by simp
  qed
  ultimately have "push_step False (AtSlot v (enqueue_pos r)) r = (PushDone False, r)" by (simp add: Let_def)
  then show ?thesis
    using run_push_step(2) [of "PushStart v" r "AtSlot v (enqueue_pos r)" r]
      run_push_step(2) [of "AtSlot v (enqueue_pos r)" r "PushDone False" r] by (simp add: TryPush_def run_push_step(1))
qed

lemma TryPopOne_Cons: "queue_of k r n (x # xs) \<Longrightarrow> \<exists>r'. TryPopOne r = (Some x, r') \<and> queue_of k r' n xs"
proof -
  assume q: "queue_of k r n (x # xs)"
  then obtain taken where inv: "ring_inv (taken @ x # xs) (length taken) [] r" and n: "n = length taken + length (x # xs)"
    and k: "cap_bits r = k" by (auto simp: queue_of_def)
  have "published r (length taken) ((taken @ x # xs) ! length taken)"
    using inv unfolding ring_inv_def by (metis (no_types, lifting) add_Suc_right le_refl length_Cons length_append less_add_Suc1 less_nat_zero_code list.size(3))
  with TryPopOne_inv [OF inv] obtain r' where r': "TryPopOne r = (Some x, r')" "ring_inv (taken @ x # xs) (Suc (length taken)) [] r'"
    by (cases "TryPopOne r") auto
  moreover have "cap_bits r' = k" using r'(1) k by (auto simp: TryPopOne_def Let_def split: if_splits)
  ultimately show ?thesis using n by (auto simp: queue_of_def intro!: exI [of _ "taken @ [x]"])
qed

lemma TryPopOne_Nil: "queue_of k r n [] \<Longrightarrow> TryPopOne r = (None, r)"
  using TryPopOne_inv [of _ _ "[]" r] by (fastforce simp: queue_of_def)

lemma queue_of_bounded: "queue_of k r n xs \<Longrightarrow> length xs \<le> 2 ^ k \<and> length xs \<le> n"
  by (auto simp: queue_of_def ring_inv_def ring_ok_def Capacity_def)

text \<open>
  The contract of a bounded queue towards its users: the representation of the elements and of the
  number of pushes so far, and what push and pop do with it.
\<close>

locale bounded_fifo =
  fixes rep :: "'q \<Rightarrow> nat \<Rightarrow> 'a list \<Rightarrow> bool" and push :: "'a \<Rightarrow> 'q \<Rightarrow> (bool \<times> 'q) option"
    and pop :: "'q \<Rightarrow> 'a option \<times> 'q" and cap :: nat and limit :: nat
  assumes push_room: "rep q n xs \<Longrightarrow> length xs < cap \<Longrightarrow> n < limit \<Longrightarrow> \<exists>q'. push v q = Some (True, q') \<and> rep q' (Suc n) (xs @ [v])"
    and push_full: "rep q n xs \<Longrightarrow> \<not> length xs < cap \<Longrightarrow> push v q = Some (False, q)"
    and pop_Cons: "rep q n (x # xs) \<Longrightarrow> \<exists>q'. pop q = (Some x, q') \<and> rep q' n xs"
    and pop_Nil: "rep q n [] \<Longrightarrow> pop q = (None, q)"
    and rep_bounded: "rep q n xs \<Longrightarrow> length xs \<le> cap \<and> length xs \<le> n"
begin

text \<open>Pushing and popping in any order: what comes out is what was accepted, in that order.\<close>

lemma push_returns:
  assumes "rep q n xs" and "n < limit"
  shows "\<exists>b q'. push v q = Some (b, q') \<and> rep q' (n + of_bool b) (xs @ (if b then [v] else [])) \<and> (b \<longleftrightarrow> length xs < cap)"
  using push_room [OF assms(1) _ assms(2), of v] push_full [OF assms(1), of v] assms(1) by (cases "length xs < cap") auto

lemma pop_returns:
  assumes "rep q n xs"
  shows "\<exists>q'. pop q = (if xs = [] then None else Some (hd xs), q') \<and> rep q' n (tl xs)"
  using assms pop_Nil [of q n] pop_Cons [of q n "hd xs" "tl xs"] by (cases xs) auto

end

text \<open>The queues of the thread pool have 1024 cells.\<close>

lemma limit_1024: "n < 2 ^ 62 \<Longrightarrow> Suc n + 2 ^ 10 < 2 ^ 63"
  by simp

interpretation ring1024: bounded_fifo "queue_of 10" TryPush TryPopOne 1024 "2 ^ 62"
proof
  fix r :: "'a ring" and n xs v
  assume q: "queue_of 10 r n xs"
  show "\<exists>r'. TryPush v r = Some (True, r') \<and> queue_of 10 r' (Suc n) (xs @ [v])" if "length xs < 1024" "n < 2 ^ 62"
    using TryPush_room [OF q _ limit_1024 [OF that(2)]] that(1) by simp
  show "TryPush v r = Some (False, r)" if "\<not> length xs < 1024" using TryPush_full [OF q] that by simp
  show "length xs \<le> 1024 \<and> length xs \<le> n" using queue_of_bounded [OF q] by simp
qed (simp_all add: TryPopOne_Cons TryPopOne_Nil)

lemma PopBatch_queue:
  "queue_of k r n xs \<Longrightarrow> \<exists>r'. PopBatch m r = (take m xs, r') \<and> queue_of k r' n (drop m xs)"
proof (induction m arbitrary: r xs)
  case (Suc m)
  show ?case
  proof (cases xs)
    case Nil
    with Suc.prems TryPopOne_Nil [of k r n] show ?thesis by auto
  next
    case (Cons x ys)
    obtain r1 where r1: "TryPopOne r = (Some x, r1)" "queue_of k r1 n ys"
      using TryPopOne_Cons [of k r n x ys] Suc.prems Cons by auto
    with Suc.IH [OF r1(2)] Cons show ?thesis by auto
  qed
qed simp

lemma Empty_queue: "queue_of k r n xs \<Longrightarrow> Empty r \<longleftrightarrow> xs = []"
proof (cases xs)
  case (Cons x ys)
  assume "queue_of k r n xs"
  then obtain r1 where "TryPopOne r = (Some x, r1)" using TryPopOne_Cons [of k r n x ys] Cons by auto
  with Cons show ?thesis by (auto simp: TryPopOne_def Empty_def Let_def split: if_splits)
next
  case Nil
  assume q: "queue_of k r n xs"
  with Nil obtain taken where inv: "ring_inv taken (length taken) [] r" by (auto simp: queue_of_def)
  then have ok: "ring_ok taken (length taken) r" by (simp add: ring_inv_def)
  note b = ring_okD [OF ok]
  have "sequence (cell r (length taken)) = word_of_nat (length taken)" using ok by (simp add: ring_ok_def)
  moreover have "dequeue_pos r + 1 = word_of_nat (Suc (length taken))" using b(4) by (simp add: of_nat_Suc add.commute)
  moreover have "Suc (length taken) < 2 ^ 63" using b(2) Capacity_two [OF ok] by simp
  ultimately have "Empty r"
    using seq_diff_nat [of "length taken" "Suc (length taken)"] unfolding Empty_def
    by (simp only: b(4) load_sequence_cell [OF ok])
  with Nil show ?thesis by simp
qed

lemma DrainAll_queue: "queue_of k r n xs \<Longrightarrow> \<exists>r'. DrainAll r = Some (xs, r') \<and> queue_of k r' n []"
proof (induction xs arbitrary: r)
  case Nil
  with TryPopOne_Nil [OF Nil] show ?case by (subst DrainAll.simps) auto
next
  case (Cons x xs)
  obtain r1 where r1: "TryPopOne r = (Some x, r1)" "queue_of k r1 n xs" using TryPopOne_Cons [OF Cons.prems] by blast
  obtain r2 where "DrainAll r1 = Some (xs, r2)" "queue_of k r2 n []" using Cons.IH [OF r1(2)] by blast
  with r1(1) show ?case by (subst DrainAll.simps) auto
qed

section \<open>Concurrent runs\<close>

text \<open>
  The queue with its producers. What has happened so far is kept in three lists: the values in the order
  in which producers claimed a position, the values whose \<open>TryPush\<close> has returned true, and the values
  the consumer has taken.
\<close>

record 'a ring_sys =
  queue :: "'a ring"
  pcs :: "'a push_pc list"
  claimed :: "'a list"
  accepted :: "'a list"
  popped :: "'a list"

definition ring_sys_make :: "nat \<Rightarrow> nat \<Rightarrow> 'a ring_sys" where
  "ring_sys_make k producers =
     \<lparr>queue = MpscRingQueue_make k, pcs = replicate producers (PushDone False), claimed = [], accepted = [], popped = []\<rparr>"

text \<open>Producer \<open>i\<close> calls \<open>TryPush\<close>, takes one atomic step, or the consumer calls \<open>TryPopOne\<close>.\<close>

datatype 'a ring_event = CallPush nat 'a | StepPush nat bool | PopOne

definition accepts :: "'a push_pc \<Rightarrow> 'a list" where
  "accepts pc = (case pc of AtPublish v _ \<Rightarrow> [v] | _ \<Rightarrow> [])"

fun idle :: "'a push_pc \<Rightarrow> bool" where
  "idle (PushDone b) \<longleftrightarrow> True"
| "idle _ \<longleftrightarrow> False"

fun ring_exec :: "'a ring_event \<Rightarrow> 'a ring_sys \<Rightarrow> 'a ring_sys" where
  "ring_exec (CallPush i v) s =
     (if i < length (pcs s) \<and> idle (pcs s ! i) then s\<lparr>pcs := (pcs s)[i := PushStart v]\<rparr> else s)"
| "ring_exec (StepPush i sp) s =
     (if i < length (pcs s)
      then case push_step sp (pcs s ! i) (queue s) of
             (pc, r) \<Rightarrow> s\<lparr>queue := r, pcs := (pcs s)[i := pc], claimed := claimed s @ claims (pcs s ! i) pc,
                         accepted := accepted s @ accepts (pcs s ! i)\<rparr>
      else s)"
| "ring_exec PopOne s =
     (case TryPopOne (queue s) of
        (None, r) \<Rightarrow> s\<lparr>queue := r\<rparr>
      | (Some v, r) \<Rightarrow> s\<lparr>queue := r, popped := popped s @ [v]\<rparr>)"

text \<open>The value a producer has claimed a position for but not published yet.\<close>

fun in_flight :: "'a push_pc \<Rightarrow> 'a multiset" where
  "in_flight (AtConstruct v pos) = {#v#}"
| "in_flight (AtPublish v pos) = {#v#}"
| "in_flight _ = {#}"

definition sys_inv :: "nat \<Rightarrow> 'a ring_sys \<Rightarrow> bool" where
  "sys_inv k s \<longleftrightarrow>
     ring_inv (claimed s) (length (popped s)) (pcs s) (queue s) \<and> Capacity (queue s) = 2 ^ k
   \<and> prefix (popped s) (claimed s)
   \<and> mset (claimed s) = mset (accepted s) + (\<Sum>pc \<leftarrow> pcs s. in_flight pc)"

lemma sum_update:
  "i < length xs \<Longrightarrow> (\<Sum>x \<leftarrow> xs[i := y]. f x) + f (xs ! i) = (\<Sum>x \<leftarrow> xs. f x) + (f y :: 'b multiset)"
  by (induction xs arbitrary: i) (auto split: nat.splits simp: ac_simps nth_Cons')

lemma mset_balance:
  assumes "S' + f = S + f'" and "f' + a = f + c"
  shows "S' + a = S + (c :: 'b multiset)"
proof (rule multiset_eqI)
  fix x
  show "count (S' + a) x = count (S + c) x"
    using arg_cong [OF assms(1), of "\<lambda>m. count m x"] arg_cong [OF assms(2), of "\<lambda>m. count m x"] by simp
qed

lemma in_flight_step:
  "push_step sp pc r = (pc', r') \<Longrightarrow> in_flight pc' + mset (accepts pc) = in_flight pc + mset (claims pc pc')"
  by (cases pc) (auto simp: claims_def accepts_def Let_def split: if_splits)

lemma Capacity_steps:
  "push_step sp pc r = (pc', r') \<Longrightarrow> Capacity r' = Capacity r" "TryPopOne r = (x, r') \<Longrightarrow> Capacity r' = Capacity r"
  using cap_bits_push_step [of sp pc r] by (auto simp: Capacity_def TryPopOne_def Let_def split: if_splits)

lemma claims_length: "length (claims pc pc') \<le> 1"
  by (auto simp: claims_def split: push_pc.splits)

lemma ring_exec_inv:
  assumes "sys_inv k s" and "Suc (length (claimed s)) + 2 ^ k < 2 ^ 63"
  shows "sys_inv k (ring_exec e s) \<and> length (claimed (ring_exec e s)) \<le> Suc (length (claimed s))"
proof (cases e)
  case (CallPush i v)
  show ?thesis
  proof (cases "i < length (pcs s) \<and> idle (pcs s ! i)")
    case True
    then have free: "writes (pcs s ! i) = None" "in_flight (pcs s ! i) = {#}" by (cases "pcs s ! i"; simp)+
    then have "ring_inv (claimed s) (length (popped s)) ((pcs s)[i := PushStart v]) (queue s)"
      using assms(1) True by (intro ring_inv_pc) (auto simp: sys_inv_def)
    moreover have "(\<Sum>pc \<leftarrow> (pcs s)[i := PushStart v]. in_flight pc) = (\<Sum>pc \<leftarrow> pcs s. in_flight pc)"
      using sum_update [of i "pcs s" in_flight "PushStart v"] True free(2) by auto
    ultimately show ?thesis using assms(1) True CallPush by (simp add: sys_inv_def)
  qed (use assms CallPush in auto)
next
  case (StepPush i sp)
  show ?thesis
  proof (cases "i < length (pcs s)")
    case True
    obtain pc r where st: "push_step sp (pcs s ! i) (queue s) = (pc, r)" by fastforce
    have "ring_inv (claimed s @ claims (pcs s ! i) pc) (length (popped s)) ((pcs s)[i := pc]) r"
      using assms by (intro push_step_inv [OF _ True st]) (auto simp: sys_inv_def)
    moreover have "(\<Sum>x \<leftarrow> (pcs s)[i := pc]. in_flight x) + mset (accepts (pcs s ! i))
        = (\<Sum>x \<leftarrow> pcs s. in_flight x) + mset (claims (pcs s ! i) pc)"
      by (rule mset_balance [OF sum_update [OF True] in_flight_step [OF st]])
    moreover have "prefix (popped s) (claimed s @ claims (pcs s ! i) pc)"
      using assms(1) by (auto simp: sys_inv_def intro: prefix_prefix)
    ultimately show ?thesis
      using assms(1) True StepPush st Capacity_steps(1) [OF st] claims_length [of "pcs s ! i" pc]
      by (simp add: sys_inv_def ac_simps)
  qed (use assms StepPush in auto)
next
  case PopOne
  have inv: "ring_inv (claimed s) (length (popped s)) (pcs s) (queue s)" using assms(1) by (simp add: sys_inv_def)
  obtain x r where st: "TryPopOne (queue s) = (x, r)" by fastforce
  show ?thesis
  proof (cases "length (popped s) < length (claimed s) \<and> published (queue s) (length (popped s)) (claimed s ! length (popped s))")
    case True
    with TryPopOne_inv [OF inv] st have "x = Some (claimed s ! length (popped s))"
        "ring_inv (claimed s) (Suc (length (popped s))) (pcs s) r" by simp_all
    moreover have "prefix (popped s @ [claimed s ! length (popped s)]) (claimed s)"
      using True assms(1) by (auto simp: sys_inv_def intro: append_one_prefix)
    ultimately show ?thesis using assms(1) st Capacity_steps(2) [OF st] PopOne by (simp add: sys_inv_def)
  next
    case False
    with TryPopOne_inv [OF inv] st have "x = None" "r = queue s" by auto
    with assms(1) st PopOne show ?thesis by simp
  qed
qed

lemma ring_run_inv:
  "sys_inv k s \<Longrightarrow> length (claimed s) + length es + 2 ^ k < 2 ^ 63 \<Longrightarrow> sys_inv k (fold ring_exec es s)"
proof (induction es arbitrary: s)
  case (Cons e es)
  from ring_exec_inv [OF Cons.prems(1), of e] Cons.prems(2) Cons.IH [of "ring_exec e s"] show ?case by simp
qed simp

lemma ring_sys_make_inv:
  assumes "0 < k" and "k < 62"
  shows "sys_inv k (ring_sys_make k n)"
proof -
  have "(\<Sum>pc \<leftarrow> replicate n (PushDone False :: 'a push_pc). in_flight pc) = {#}" by (induction n) auto
  with queue_of_make [OF assms] show ?thesis
    by (auto simp: sys_inv_def ring_sys_make_def queue_of_def ring_inv_def MpscRingQueue_make_def Capacity_def)
qed

section \<open>Properties\<close>

text \<open>
  C17: the ring is a first-in-first-out queue for any number of concurrent producers. In every
  interleaving of their atomic steps with the consumer, what the consumer has taken is a prefix of the
  values in the order in which positions were claimed, never more than the capacity is outstanding,
  and no value is lost, duplicated or made up: the claimed values are those whose push has returned true
  together with those still being written.
\<close>

theorem ring_is_fifo:
  assumes "0 < k" and "k < 62" and "length events + 2 ^ k < 2 ^ 63"
  shows "let s = fold ring_exec events (ring_sys_make k producers) in
      prefix (popped s) (claimed s) \<and> length (claimed s) \<le> length (popped s) + 2 ^ k
    \<and> mset (claimed s) = mset (accepted s) + (\<Sum>pc \<leftarrow> pcs s. in_flight pc)"
proof -
  have "sys_inv k (fold ring_exec events (ring_sys_make k producers))"
    by (rule ring_run_inv [OF ring_sys_make_inv [OF assms(1,2)]]) (use assms(3) in \<open>simp add: ring_sys_make_def\<close>)
  then show ?thesis by (simp add: Let_def sys_inv_def ring_inv_def ring_ok_def)
qed

definition two_producers :: "char ring_event list" where
  "two_producers = [CallPush 0 CHR ''a'', CallPush 1 CHR ''b'', StepPush 0 False, StepPush 1 False, StepPush 0 False, StepPush 1 False,
     StepPush 1 False, StepPush 0 False, StepPush 0 False, StepPush 0 False, StepPush 0 False, StepPush 0 False, PopOne, StepPush 1 False,
     StepPush 1 False, PopOne, PopOne]"

theorem ring_is_fifo_witness:
  "popped (fold ring_exec two_producers (ring_sys_make 1 2)) = ''ba''
   \<and> mset (claimed (fold ring_exec two_producers (ring_sys_make 1 2))) = mset ''ba''"
proof -
  let ?s = "fold ring_exec two_producers (ring_sys_make 1 2)"
  have "popped ?s = ''ba''" by code_simp
  moreover have "length (claimed ?s) = 2" by code_simp
  moreover have "length two_producers = 17" by (simp add: two_producers_def)
  then have "prefix (popped ?s) (claimed ?s)" using ring_is_fifo [of 1 two_producers 2] by (simp add: Let_def)
  ultimately show ?thesis by (auto simp: prefix_def)
qed

end
