(* ===== verification/Thread_Pool.thy ===== *)
theory Thread_Pool
  imports Mpsc_Ring
begin

text \<open>
  \<open>src/common/thread_pool.h\<close> and \<open>.cpp\<close>: the pool that runs the service handlers. Every worker thread
  owns a bounded queue; \<open>Submit\<close> pushes a task into the queue whose turn it is and wakes the worker if it
  says that it waits.

  The threads are interleaved: a thread is a program counter, and its step is one access to a shared
  atomic, one operation on a queue, or one operation on a mutex or condition variable. Tasks are
  values of any type; running one is an entry in a history. An empty \<open>std::function\<close> is \<^const>\<open>None\<close>.
\<close>

section \<open>State\<close>

text \<open>Who holds the mutex of a worker: the worker, or the client thread with this number.\<close>

datatype lock_owner = ByWorker | ByClient nat

record 'a WorkerData =
  wqueue :: "'a ring"
  cv_mutex :: "lock_owner option"
  is_waiting :: bool
  pending :: u64

definition kQueueBits :: nat where "kQueueBits = 10"
definition kBatchSize :: nat where "kBatchSize = 32"

definition WorkerData_make :: "'a WorkerData" where
  "WorkerData_make = \<lparr>wqueue = MpscRingQueue_make kQueueBits, cv_mutex = None, is_waiting = False, pending = 0\<rparr>"

text \<open>
  Where a worker is in \<open>WorkerMain\<close>. \<open>AtClear b\<close> is the store of \<open>is_waiting\<close> before the next round,
  or before the return if \<open>b\<close>; \<open>AtTasks n ts\<close> is the loop over a batch of \<open>n\<close> tasks of which \<open>ts\<close> are left.
\<close>

datatype 'a worker_pc =
    AtPop | AtStopCheck | AtSetWaiting | AtEmptyCheck | AtStopRecheck | AtClear bool
  | AtLock | AtPredicate | AtSleep | Asleep | AtClearHeld | AtUnlock
  | AtBatch "'a list" | AtAccount "'a list" | AtTasks nat "'a list" | Exited

record 'a ThreadPool =
  thread_count :: nat
  worker_data :: "'a WorkerData list"
  workers :: "'a worker_pc list"
  accepting_tasks :: bool
  stop_requested :: bool
  active_workers :: u64
  submitted_tasks :: u64
  completed_tasks :: u64

definition ThreadPool_make :: "nat \<Rightarrow> 'a ThreadPool" where
  "ThreadPool_make n =
     \<lparr>thread_count = (if n = 0 then 1 else n), worker_data = [], workers = [],
      accepting_tasks = False, stop_requested = False, active_workers = 0, submitted_tasks = 0, completed_tasks = 0\<rparr>"

definition wdata :: "nat \<Rightarrow> 'a ThreadPool \<Rightarrow> 'a WorkerData" where
  "wdata w p = worker_data p ! w"

definition upd_data :: "nat \<Rightarrow> ('a WorkerData \<Rightarrow> 'a WorkerData) \<Rightarrow> 'a ThreadPool \<Rightarrow> 'a ThreadPool" where
  "upd_data w f p = p\<lparr>worker_data := (worker_data p)[w := f (wdata w p)]\<rparr>"

text \<open>What a step does to the condition variable of a worker.\<close>

datatype notice = NoNotice | NotifyOne nat | NotifyAll nat

section \<open>Workers\<close>

fun worker_step :: "nat \<Rightarrow> 'a worker_pc \<Rightarrow> 'a ThreadPool \<Rightarrow> 'a worker_pc \<times> 'a ThreadPool \<times> notice" where
  "worker_step w AtPop p =
     (case PopBatch kBatchSize (wqueue (wdata w p)) of
        (batch, q) \<Rightarrow> (if batch = [] then AtStopCheck else AtBatch batch, upd_data w (wqueue_update (\<lambda>_. q)) p, NoNotice))"
| "worker_step w AtStopCheck p = (if stop_requested p then Exited else AtSetWaiting, p, NoNotice)"
| "worker_step w AtSetWaiting p = (AtEmptyCheck, upd_data w (is_waiting_update (\<lambda>_. True)) p, NoNotice)"
| "worker_step w AtEmptyCheck p = (if \<not> Empty (wqueue (wdata w p)) then AtClear False else AtStopRecheck, p, NoNotice)"
| "worker_step w AtStopRecheck p = (if stop_requested p then AtClear True else AtLock, p, NoNotice)"
| "worker_step w (AtClear leave) p = (if leave then Exited else AtPop, upd_data w (is_waiting_update (\<lambda>_. False)) p, NoNotice)"
| "worker_step w AtLock p =
     (if cv_mutex (wdata w p) = None then (AtPredicate, upd_data w (cv_mutex_update (\<lambda>_. Some ByWorker)) p, NoNotice)
      else (AtLock, p, NoNotice))"
| "worker_step w AtPredicate p =
     (if stop_requested p \<or> \<not> Empty (wqueue (wdata w p)) then AtClearHeld else AtSleep, p, NoNotice)"
| "worker_step w AtSleep p = (Asleep, upd_data w (cv_mutex_update (\<lambda>_. None)) p, NoNotice)"
| "worker_step w Asleep p = (Asleep, p, NoNotice)"
| "worker_step w AtClearHeld p = (AtUnlock, upd_data w (is_waiting_update (\<lambda>_. False)) p, NoNotice)"
| "worker_step w AtUnlock p = (AtPop, upd_data w (cv_mutex_update (\<lambda>_. None)) p, NoNotice)"
| "worker_step w (AtBatch batch) p = (AtAccount batch, p, NotifyAll w)"
| "worker_step w (AtAccount batch) p =
     (AtTasks (length batch) batch,
      (upd_data w (pending_update (\<lambda>n. n - word_of_nat (length batch))) p)\<lparr>active_workers := active_workers p + 1\<rparr>, NoNotice)"
| "worker_step w (AtTasks n (t # ts)) p = (AtTasks n ts, p, NoNotice)"
| "worker_step w (AtTasks n []) p =
     (AtPop, p\<lparr>active_workers := active_workers p - 1, completed_tasks := completed_tasks p + word_of_nat n\<rparr>, NoNotice)"
| "worker_step w Exited p = (Exited, p, NoNotice)"

section \<open>Clients\<close>

text \<open>
  Where a client thread is in \<open>Submit\<close> or \<open>Stop\<close>. \<open>AtTry v idx attempt\<close> is the loop over the queues;
  the \<open>Slow\<close> states are the slow path, which holds the mutex of the worker from \<open>SlowTry\<close> to
  \<open>SlowSleep\<close> and from \<open>SlowCounts\<close> to \<open>SlowNotify\<close>; \<open>StopLock i\<close> and \<open>StopNotify i\<close> are the loop of \<open>Stop\<close>.
\<close>

datatype 'a client_pc =
    SubmitStart "'a option" | AtTry 'a nat nat | AtCounts nat | AtWaitingCheck nat | AtNotifyLock nat | AtNotify nat
  | SlowLock 'a nat | SlowTry 'a nat | SlowAccepting 'a nat | SlowSleep 'a nat | SlowAsleep 'a nat
  | SlowCounts nat | SlowNotify nat | SubmitDone bool
  | StopStart | StopFlag bool | StopLock nat | StopNotify nat | StopDone

text \<open>A client thread with its \<open>thread_local\<close> index.\<close>

type_synonym 'a client = "'a client_pc \<times> u64"

definition count_submitted :: "nat \<Rightarrow> 'a ThreadPool \<Rightarrow> 'a ThreadPool" where
  "count_submitted w p = (upd_data w (pending_update (\<lambda>n. n + 1)) p)\<lparr>submitted_tasks := submitted_tasks p + 1\<rparr>"

text \<open>
  The queue operation of a client. \<open>TryPush\<close> returns on every queue of the pool (\<open>ring1024.push_returns\<close>), so
  that the case \<^const>\<open>None\<close> is never taken. Then the step of client \<open>c\<close>.
\<close>

definition push_task :: "nat \<Rightarrow> 'a \<Rightarrow> 'a ThreadPool \<Rightarrow> bool \<times> 'a ThreadPool" where
  "push_task w v p =
     (case TryPush v (wqueue (wdata w p)) of
        None \<Rightarrow> (False, p)
      | Some (b, q) \<Rightarrow> (b, upd_data w (wqueue_update (\<lambda>_. q)) p))"

fun client_step :: "nat \<Rightarrow> 'a client_pc \<Rightarrow> u64 \<Rightarrow> 'a ThreadPool \<Rightarrow> 'a client \<times> 'a ThreadPool \<times> notice" where
  "client_step c (SubmitStart task) ix p =
     (case task of
        None \<Rightarrow> ((SubmitDone False, ix), p, NoNotice)
      | Some v \<Rightarrow>
          (if \<not> accepting_tasks p then ((SubmitDone False, ix), p, NoNotice)
           else ((AtTry v (unat ix mod thread_count p) 0, ix + 1), p, NoNotice)))"
| "client_step c (AtTry v idx attempt) ix p =
     (if attempt < thread_count p then
        (case push_task idx v p of
           (True, p') \<Rightarrow> ((AtCounts idx, ix), p', NoNotice)
         | (False, p') \<Rightarrow> ((AtTry v ((idx + 1) mod thread_count p) (attempt + 1), ix), p', NoNotice))
      else ((SlowLock v idx, ix), p, NoNotice))"
| "client_step c (AtCounts idx) ix p = ((AtWaitingCheck idx, ix), count_submitted idx p, NoNotice)"
| "client_step c (AtWaitingCheck idx) ix p =
     ((if is_waiting (wdata idx p) then AtNotifyLock idx else SubmitDone True, ix), p, NoNotice)"
| "client_step c (AtNotifyLock idx) ix p =
     (if cv_mutex (wdata idx p) = None
      then ((AtNotify idx, ix), upd_data idx (cv_mutex_update (\<lambda>_. Some (ByClient c))) p, NoNotice)
      else ((AtNotifyLock idx, ix), p, NoNotice))"
| "client_step c (AtNotify idx) ix p = ((SubmitDone True, ix), upd_data idx (cv_mutex_update (\<lambda>_. None)) p, NotifyOne idx)"
| "client_step c (SlowLock v idx) ix p =
     (if cv_mutex (wdata idx p) = None
      then ((SlowTry v idx, ix), upd_data idx (cv_mutex_update (\<lambda>_. Some (ByClient c))) p, NoNotice)
      else ((SlowLock v idx, ix), p, NoNotice))"
| "client_step c (SlowTry v idx) ix p =
     (case push_task idx v p of
        (True, p') \<Rightarrow> ((SlowCounts idx, ix), p', NoNotice)
      | (False, p') \<Rightarrow> ((SlowAccepting v idx, ix), p', NoNotice))"
| "client_step c (SlowAccepting v idx) ix p =
     (if \<not> accepting_tasks p then ((SubmitDone False, ix), upd_data idx (cv_mutex_update (\<lambda>_. None)) p, NoNotice)
      else ((SlowSleep v idx, ix), p, NoNotice))"
| "client_step c (SlowSleep v idx) ix p = ((SlowAsleep v idx, ix), upd_data idx (cv_mutex_update (\<lambda>_. None)) p, NoNotice)"
| "client_step c (SlowAsleep v idx) ix p = ((SlowAsleep v idx, ix), p, NoNotice)"
| "client_step c (SlowCounts idx) ix p = ((SlowNotify idx, ix), count_submitted idx p, NoNotice)"
| "client_step c (SlowNotify idx) ix p = ((SubmitDone True, ix), upd_data idx (cv_mutex_update (\<lambda>_. None)) p, NotifyOne idx)"
| "client_step c (SubmitDone b) ix p = ((SubmitDone b, ix), p, NoNotice)"
| "client_step c StopStart ix p = ((StopFlag (accepting_tasks p), ix), p\<lparr>accepting_tasks := False\<rparr>, NoNotice)"
| "client_step c (StopFlag was_accepting) ix p =
     ((if was_accepting \<or> \<not> stop_requested p then StopLock 0 else StopDone, ix), p\<lparr>stop_requested := True\<rparr>, NoNotice)"
| "client_step c (StopLock i) ix p =
     (if i < length (worker_data p)
      then ((if cv_mutex (wdata i p) = None then StopNotify i else StopLock i, ix), p, NoNotice)
      else ((StopDone, ix), p, NoNotice))"
| "client_step c (StopNotify i) ix p = ((StopLock (i + 1), ix), p, NotifyAll i)"
| "client_step c StopDone ix p = ((StopDone, ix), p, NoNotice)"

section \<open>The system\<close>

text \<open>
  The pool with its client threads, and what has happened: the tasks pushed into the queue of each
  worker and the tasks each worker has run, in order.
\<close>

record 'a tp_sys =
  pool :: "'a ThreadPool"
  clients :: "'a client list"
  pushed :: "nat \<Rightarrow> 'a list"
  ran :: "nat \<Rightarrow> 'a list"

fun wake_worker_pc :: "'a worker_pc \<Rightarrow> 'a worker_pc" where
  "wake_worker_pc Asleep = AtLock"
| "wake_worker_pc pc = pc"

definition wake_worker :: "nat \<Rightarrow> 'a tp_sys \<Rightarrow> 'a tp_sys" where
  "wake_worker w s = s\<lparr>pool := (pool s)\<lparr>workers := (workers (pool s))[w := wake_worker_pc (workers (pool s) ! w)]\<rparr>\<rparr>"

fun waits_on :: "nat \<Rightarrow> 'a client \<Rightarrow> bool" where
  "waits_on w (SlowAsleep v idx, ix) \<longleftrightarrow> idx = w"
| "waits_on w _ \<longleftrightarrow> False"

fun wake_client_pc :: "nat \<Rightarrow> 'a client \<Rightarrow> 'a client" where
  "wake_client_pc w (SlowAsleep v idx, ix) = (if idx = w then SlowLock v idx else SlowAsleep v idx, ix)"
| "wake_client_pc w c = c"

definition wake_client :: "nat \<Rightarrow> nat \<Rightarrow> 'a tp_sys \<Rightarrow> 'a tp_sys" where
  "wake_client w i s = s\<lparr>clients := (clients s)[i := wake_client_pc w (clients s ! i)]\<rparr>"

text \<open>
  \<open>notify_one\<close> wakes one of the threads that wait on the condition variable, if there is one: the client
  \<open>who\<close> where it waits, otherwise the worker or, if that is awake, the first client that waits.
\<close>

fun notify :: "notice \<Rightarrow> nat option \<Rightarrow> 'a tp_sys \<Rightarrow> 'a tp_sys" where
  "notify NoNotice who s = s"
| "notify (NotifyAll w) who s = (wake_worker w s)\<lparr>clients := map (wake_client_pc w) (clients s)\<rparr>"
| "notify (NotifyOne w) who s =
     (case find (\<lambda>i. waits_on w (clients s ! i)) (case who of None \<Rightarrow> [] | Some i \<Rightarrow> filter ((=) i) [0..<length (clients s)]) of
        Some i \<Rightarrow> wake_client w i s
      | None \<Rightarrow>
          (case workers (pool s) ! w of
             Asleep \<Rightarrow> wake_worker w s
           | _ \<Rightarrow>
             (case find (\<lambda>i. waits_on w (clients s ! i)) [0..<length (clients s)] of
                Some i \<Rightarrow> wake_client w i s
              | None \<Rightarrow> s)))"

definition pushes :: "'a client_pc \<Rightarrow> 'a client_pc \<Rightarrow> nat \<Rightarrow> 'a list" where
  "pushes pc pc' w =
     (case pc of
        AtTry v idx attempt \<Rightarrow> (case pc' of AtCounts idx' \<Rightarrow> if w = idx then [v] else [] | _ \<Rightarrow> [])
      | SlowTry v idx \<Rightarrow> (case pc' of SlowCounts idx' \<Rightarrow> if w = idx then [v] else [] | _ \<Rightarrow> [])
      | _ \<Rightarrow> [])"

fun runs :: "'a worker_pc \<Rightarrow> 'a list" where
  "runs (AtTasks n (t # ts)) = [t]"
| "runs _ = []"

fun client_idle :: "'a client_pc \<Rightarrow> bool" where
  "client_idle (SubmitDone b) \<longleftrightarrow> True"
| "client_idle StopDone \<longleftrightarrow> True"
| "client_idle _ \<longleftrightarrow> False"

text \<open>A call begins, a client or a worker takes a step, or a condition variable wakes up a thread for no reason.\<close>

datatype 'a tp_event =
    CallSubmit nat "'a option" | CallStop nat | StepClient nat "nat option" | StepWorker nat
  | SpuriousWorker nat | SpuriousClient nat nat

definition begin_call :: "nat \<Rightarrow> 'a client_pc \<Rightarrow> 'a tp_sys \<Rightarrow> 'a tp_sys" where
  "begin_call i pc s =
     (if i < length (clients s) \<and> client_idle (fst (clients s ! i))
      then s\<lparr>clients := (clients s)[i := (pc, snd (clients s ! i))]\<rparr> else s)"

definition exec_client :: "nat \<Rightarrow> nat option \<Rightarrow> 'a tp_sys \<Rightarrow> 'a tp_sys" where
  "exec_client i who s =
     (case clients s ! i of
        (pc, ix) \<Rightarrow>
          (case client_step i pc ix (pool s) of
             (c, p, nt) \<Rightarrow>
               notify nt who (s\<lparr>pool := p, clients := (clients s)[i := c], pushed := (\<lambda>w. pushed s w @ pushes pc (fst c) w)\<rparr>)))"

definition exec_worker :: "nat \<Rightarrow> 'a tp_sys \<Rightarrow> 'a tp_sys" where
  "exec_worker w s =
     (case worker_step w (workers (pool s) ! w) (pool s) of
        (pc, p, nt) \<Rightarrow>
          notify nt None (s\<lparr>pool := p\<lparr>workers := (workers p)[w := pc]\<rparr>,
                            ran := (ran s)(w := ran s w @ runs (workers (pool s) ! w))\<rparr>))"

fun tp_exec :: "'a tp_event \<Rightarrow> 'a tp_sys \<Rightarrow> 'a tp_sys" where
  "tp_exec (CallSubmit i task) s = begin_call i (SubmitStart task) s"
| "tp_exec (CallStop i) s = begin_call i StopStart s"
| "tp_exec (StepClient i who) s = (if i < length (clients s) then exec_client i who s else s)"
| "tp_exec (StepWorker w) s = (if w < length (workers (pool s)) then exec_worker w s else s)"
| "tp_exec (SpuriousWorker w) s = wake_worker w s"
| "tp_exec (SpuriousClient w i) s = wake_client w i s"

text \<open>A call of \<open>Submit\<close> or \<open>Stop\<close> by client \<open>c\<close> during which no other thread moves; \<^const>\<open>None\<close> if it waits for ever.\<close>

partial_function (option) run_client :: "nat \<Rightarrow> 'a tp_sys \<Rightarrow> (bool \<times> 'a tp_sys) option" where
  "run_client c s =
     (case fst (clients s ! c) of
        SubmitDone b \<Rightarrow> Some (b, s)
      | StopDone \<Rightarrow> Some (True, s)
      | _ \<Rightarrow> run_client c (tp_exec (StepClient c None) s))"

definition Submit :: "nat \<Rightarrow> 'a option \<Rightarrow> 'a tp_sys \<Rightarrow> (bool \<times> 'a tp_sys) option" where
  "Submit c task s = run_client c (tp_exec (CallSubmit c task) s)"

definition ThreadPool_Stop :: "nat \<Rightarrow> 'a tp_sys \<Rightarrow> 'a tp_sys option" where
  "ThreadPool_Stop c s = map_option snd (run_client c (tp_exec (CallStop c) s))"

text \<open>
  \<open>Start\<close>, where the system can create \<open>spawned\<close> threads and reports \<open>what\<close> when it cannot: the threads that
  were created find an empty queue and the stop flag, and are joined. \<open>Join\<close> waits for ever for a
  worker that has not returned.
\<close>

definition ThreadPool_Start :: "nat \<Rightarrow> string \<Rightarrow> 'a ThreadPool \<Rightarrow> (bool \<times> string) \<times> 'a ThreadPool" where
  "ThreadPool_Start spawned what p =
     (if worker_data p \<noteq> [] then ((False, ''thread pool already started''), p)
      else if spawned < thread_count p
      then ((False, ''failed to start thread pool: '' @ what),
            p\<lparr>accepting_tasks := False, stop_requested := True, worker_data := [], workers := []\<rparr>)
      else ((True, []), p\<lparr>stop_requested := False, accepting_tasks := True,
              worker_data := replicate (thread_count p) WorkerData_make, workers := replicate (thread_count p) AtPop\<rparr>))"

fun exited :: "'a worker_pc \<Rightarrow> bool" where
  "exited Exited \<longleftrightarrow> True"
| "exited _ \<longleftrightarrow> False"

definition ThreadPool_Join :: "'a ThreadPool \<Rightarrow> 'a ThreadPool option" where
  "ThreadPool_Join p = (if list_all exited (workers p) then Some (p\<lparr>workers := [], worker_data := []\<rparr>) else None)"

definition IsRunning :: "'a ThreadPool \<Rightarrow> bool" where
  "IsRunning p = accepting_tasks p"

record StatsSnapshot =
  st_thread_count :: nat
  st_active_workers :: u64
  st_queue_size :: u64
  st_submitted_tasks :: u64
  st_completed_tasks :: u64
  st_accepting_tasks :: bool

definition GetStatsSnapshot :: "'a ThreadPool \<Rightarrow> StatsSnapshot" where
  "GetStatsSnapshot p =
     \<lparr>st_thread_count = thread_count p, st_active_workers = active_workers p,
      st_queue_size = foldl (\<lambda>total d. total + pending d) 0 (worker_data p), st_submitted_tasks = submitted_tasks p,
      st_completed_tasks = completed_tasks p, st_accepting_tasks = accepting_tasks p\<rparr>"

definition tp_started :: "nat \<Rightarrow> nat \<Rightarrow> 'a tp_sys" where
  "tp_started n m =
     \<lparr>pool = snd (ThreadPool_Start (thread_count (ThreadPool_make n :: 'a ThreadPool)) [] (ThreadPool_make n)),
      clients = replicate m (StopDone, 0), pushed = (\<lambda>w. []), ran = (\<lambda>w. [])\<rparr>"

section \<open>Frame lemmas\<close>

lemma upd_data_fields [simp]:
  "thread_count (upd_data w f p) = thread_count p" "workers (upd_data w f p) = workers p"
  "accepting_tasks (upd_data w f p) = accepting_tasks p" "stop_requested (upd_data w f p) = stop_requested p"
  "length (worker_data (upd_data w f p)) = length (worker_data p)"
  by (simp_all add: upd_data_def)

lemma wdata_upd [simp]:
  "w < length (worker_data p) \<Longrightarrow> wdata v (upd_data w f p) = (if v = w then f (wdata w p) else wdata v p)"
  by (simp add: wdata_def upd_data_def nth_list_update)

lemma wdata_update_other [simp]:
  "wdata v (p\<lparr>workers := x\<rparr>) = wdata v p" "wdata v (p\<lparr>accepting_tasks := y\<rparr>) = wdata v p"
  "wdata v (p\<lparr>stop_requested := z\<rparr>) = wdata v p" "wdata v (p\<lparr>active_workers := a\<rparr>) = wdata v p"
  "wdata v (p\<lparr>completed_tasks := b\<rparr>) = wdata v p" "wdata v (p\<lparr>submitted_tasks := b\<rparr>) = wdata v p"
  by (simp_all add: wdata_def)

lemma count_submitted_fields [simp]:
  "thread_count (count_submitted w p) = thread_count p" "workers (count_submitted w p) = workers p"
  "accepting_tasks (count_submitted w p) = accepting_tasks p" "stop_requested (count_submitted w p) = stop_requested p"
  "length (worker_data (count_submitted w p)) = length (worker_data p)"
  "w < length (worker_data p) \<Longrightarrow> wqueue (wdata v (count_submitted w p)) = wqueue (wdata v p)"
  "w < length (worker_data p) \<Longrightarrow> is_waiting (wdata v (count_submitted w p)) = is_waiting (wdata v p)"
  "w < length (worker_data p) \<Longrightarrow> cv_mutex (wdata v (count_submitted w p)) = cv_mutex (wdata v p)"
  by (simp_all add: count_submitted_def)

lemma push_task_fields:
  assumes "push_task w v p = (b, p')"
  shows "thread_count p' = thread_count p" "workers p' = workers p" "accepting_tasks p' = accepting_tasks p"
    "stop_requested p' = stop_requested p" "length (worker_data p') = length (worker_data p)"
    "w < length (worker_data p) \<Longrightarrow> is_waiting (wdata u p') = is_waiting (wdata u p)"
    "w < length (worker_data p) \<Longrightarrow> cv_mutex (wdata u p') = cv_mutex (wdata u p)"
    "w < length (worker_data p) \<Longrightarrow> u \<noteq> w \<Longrightarrow> wqueue (wdata u p') = wqueue (wdata u p)"
  using assms by (auto simp: push_task_def split: option.splits if_splits)

section \<open>Tasks are run once and in order\<close>

text \<open>The tasks a worker has taken out of its queue and not run yet.\<close>

fun in_batch :: "'a worker_pc \<Rightarrow> 'a list" where
  "in_batch (AtBatch b) = b"
| "in_batch (AtAccount b) = b"
| "in_batch (AtTasks n ts) = ts"
| "in_batch _ = []"

text \<open>The queue a client works on.\<close>

definition client_target :: "'a client_pc \<Rightarrow> nat option" where
  "client_target pc =
     (case pc of
        AtTry v w n \<Rightarrow> Some w | AtCounts w \<Rightarrow> Some w | AtWaitingCheck w \<Rightarrow> Some w | AtNotifyLock w \<Rightarrow> Some w | AtNotify w \<Rightarrow> Some w
      | SlowLock v w \<Rightarrow> Some w | SlowTry v w \<Rightarrow> Some w | SlowAccepting v w \<Rightarrow> Some w | SlowSleep v w \<Rightarrow> Some w
      | SlowAsleep v w \<Rightarrow> Some w | SlowCounts w \<Rightarrow> Some w | SlowNotify w \<Rightarrow> Some w | _ \<Rightarrow> None)"

definition sane :: "'a tp_sys \<Rightarrow> bool" where
  "sane s \<longleftrightarrow>
     0 < thread_count (pool s) \<and> length (worker_data (pool s)) = thread_count (pool s)
   \<and> length (workers (pool s)) = thread_count (pool s)
   \<and> (\<forall>(pc, ix) \<in> set (clients s). \<forall>w. client_target pc = Some w \<longrightarrow> w < thread_count (pool s))"

definition served :: "'a tp_sys \<Rightarrow> nat \<Rightarrow> bool" where
  "served s w \<longleftrightarrow>
     (\<exists>q. queue_of kQueueBits (wqueue (wdata w (pool s))) (length (pushed s w)) q
        \<and> pushed s w = ran s w @ in_batch (workers (pool s) ! w) @ q)"

lemma in_batch_wake [simp]: "in_batch (wake_worker_pc pc) = in_batch pc"
  by (cases pc) simp_all

lemma client_target_wake [simp]: "client_target (fst (wake_client_pc w c)) = client_target (fst c)"
  by (cases "(w, c)" rule: wake_client_pc.cases) (simp_all add: client_target_def)

lemma wake_worker_fields [simp]:
  "worker_data (pool (wake_worker w s)) = worker_data (pool s)" "thread_count (pool (wake_worker w s)) = thread_count (pool s)"
  "length (workers (pool (wake_worker w s))) = length (workers (pool s))" "clients (wake_worker w s) = clients s"
  "accepting_tasks (pool (wake_worker w s)) = accepting_tasks (pool s)" "stop_requested (pool (wake_worker w s)) = stop_requested (pool s)"
  "pushed (wake_worker w s) = pushed s" "ran (wake_worker w s) = ran s" "wdata u (pool (wake_worker w s)) = wdata u (pool s)"
  by (simp_all add: wake_worker_def)

lemma wake_client_fields [simp]:
  "pool (wake_client w i s) = pool s" "length (clients (wake_client w i s)) = length (clients s)"
  "pushed (wake_client w i s) = pushed s" "ran (wake_client w i s) = ran s"
  by (simp_all add: wake_client_def)

lemma notify_fields [simp]:
  "worker_data (pool (notify nt who s)) = worker_data (pool s)" "thread_count (pool (notify nt who s)) = thread_count (pool s)"
  "length (workers (pool (notify nt who s))) = length (workers (pool s))" "length (clients (notify nt who s)) = length (clients s)"
  "accepting_tasks (pool (notify nt who s)) = accepting_tasks (pool s)" "stop_requested (pool (notify nt who s)) = stop_requested (pool s)"
  "pushed (notify nt who s) = pushed s" "ran (notify nt who s) = ran s"
  by (cases nt; simp split: option.splits worker_pc.splits)+

lemma wdata_notify [simp]: "wdata u (pool (notify nt who s)) = wdata u (pool s)"
  by (simp add: wdata_def)

lemma workers_wake:
  "workers (pool (wake_worker v s)) ! w = (if w = v \<and> v < length (workers (pool s)) then wake_worker_pc (workers (pool s) ! w) else workers (pool s) ! w)"
  by (cases "v < length (workers (pool s))") (auto simp: wake_worker_def nth_list_update list_update_beyond)

lemma clients_wake:
  "i < length (clients s) \<Longrightarrow>
   clients (wake_client v j s) ! i = (if i = j then wake_client_pc v (clients s ! i) else clients s ! i)"
  by (auto simp: wake_client_def nth_list_update)

lemma notify_one:
  obtains (worker) "workers (pool s) ! w = Asleep" "notify (NotifyOne w) who s = wake_worker w s"
  | (client) i where "i < length (clients s)" "waits_on w (clients s ! i)" "notify (NotifyOne w) who s = wake_client w i s"
  | (nobody) "workers (pool s) ! w \<noteq> Asleep" "notify (NotifyOne w) who s = s"
proof -
  let ?f = "\<lambda>is. find (\<lambda>i. waits_on w (clients s ! i)) is"
  let ?chosen = "?f (case who of None \<Rightarrow> [] | Some i \<Rightarrow> filter ((=) i) [0..<length (clients s)])"
  show ?thesis
  proof (cases ?chosen)
    case (Some i)
    then have "i < length (clients s) \<and> waits_on w (clients s ! i)"
      by (auto simp: find_Some_iff split: option.splits dest: nth_mem)
    with Some client [of i] show ?thesis by simp
  next
    case None
    show ?thesis
    proof (cases "workers (pool s) ! w = Asleep")
      case True
      with None worker show ?thesis by simp
    next
      case False
      with None have "notify (NotifyOne w) who s = (case ?f [0..<length (clients s)] of Some i \<Rightarrow> wake_client w i s | None \<Rightarrow> s)"
        by (simp split: worker_pc.splits)
      with False client nobody show ?thesis by (cases "?f [0..<length (clients s)]") (auto simp: find_Some_iff)
    qed
  qed
qed

lemma notify_worker:
  "workers (pool (notify nt who s)) ! w = workers (pool s) ! w \<or>
   workers (pool (notify nt who s)) ! w = wake_worker_pc (workers (pool s) ! w)"
proof (cases nt)
  case (NotifyOne v)
  show ?thesis unfolding NotifyOne by (rule notify_one [of s v who]) (simp_all add: workers_wake)
next
  case (NotifyAll v)
  then show ?thesis using workers_wake [of v s w] by simp
qed simp

lemma notify_client:
  assumes "i < length (clients s)"
  shows "clients (notify nt who s) ! i = clients s ! i \<or> (\<exists>w. clients (notify nt who s) ! i = wake_client_pc w (clients s ! i))"
proof (cases nt)
  case (NotifyOne v)
  have "clients (wake_client v j s) ! i = clients s ! i \<or> clients (wake_client v j s) ! i = wake_client_pc v (clients s ! i)" for j
    using clients_wake [OF assms] by simp
  note w = this
  show ?thesis unfolding NotifyOne by (rule notify_one [of s v who]) (metis w wake_worker_fields(4))+
qed (use assms in auto)

lemma client_target_notify [simp]:
  "i < length (clients s) \<Longrightarrow> client_target (fst (clients (notify nt who s) ! i)) = client_target (fst (clients s ! i))"
  using notify_client [of i s nt who] by (auto simp del: notify.simps)

lemma sane_iff:
  "sane s \<longleftrightarrow> 0 < thread_count (pool s) \<and> length (worker_data (pool s)) = thread_count (pool s)
   \<and> length (workers (pool s)) = thread_count (pool s)
   \<and> (\<forall>i < length (clients s). \<forall>w. client_target (fst (clients s ! i)) = Some w \<longrightarrow> w < thread_count (pool s))"
  by (force simp: sane_def all_set_conv_all_nth)

lemma sane_notify [simp]: "sane (notify nt who s) = sane s"
  by (simp add: sane_iff cong: conj_cong)

lemma served_notify [simp]: "served (notify nt who s) w = served s w"
  using notify_worker [of nt who s w] by (auto simp: served_def)

lemma client_step_target:
  assumes "client_step c pc ix p = ((pc', ix'), p', nt)" and "client_target pc' = Some w" and "0 < thread_count p"
    and "\<And>v. client_target pc = Some v \<Longrightarrow> v < thread_count p"
  shows "w < thread_count p"
  using assms by (cases pc) (auto simp: client_target_def split: if_splits option.splits prod.splits bool.splits)

lemma push_task_served:
  assumes "queue_of kQueueBits (wqueue (wdata w p)) n q" and "n < 2 ^ 62" and "w < length (worker_data p)"
    and "push_task w v p = (b, p')"
  shows "queue_of kQueueBits (wqueue (wdata w p')) (n + of_bool b) (q @ (if b then [v] else []))"
  using ring1024.push_returns [OF assms(1) [unfolded kQueueBits_def] assms(2), of v] assms(3,4)
  by (auto simp: push_task_def kQueueBits_def split: if_splits)

lemma client_step_frame:
  assumes "client_step c pc ix p = ((pc', ix'), p', nt)"
  shows "thread_count p' = thread_count p" "workers p' = workers p" "length (worker_data p') = length (worker_data p)"
  using assms by (cases pc; auto split: if_splits option.splits prod.splits bool.splits dest: push_task_fields)+

lemma client_step_queue:
  assumes st: "client_step c pc ix p = ((pc', ix'), p', nt)"
    and idx: "\<And>u. client_target pc = Some u \<Longrightarrow> u < length (worker_data p)"
    and q: "queue_of kQueueBits (wqueue (wdata w p)) n q" "n < 2 ^ 62"
  shows "queue_of kQueueBits (wqueue (wdata w p')) (n + length (pushes pc pc' w)) (q @ pushes pc pc' w)"
proof -
  have push: "queue_of kQueueBits (wqueue (wdata w p1)) (n + length (if b \<and> w = u then [v] else [])) (q @ (if b \<and> w = u then [v] else []))"
    if "push_task u v p = (b, p1)" "u < length (worker_data p)" for u v b p1
    using push_task_served [of w p n q v b p1] push_task_fields(8) [OF that(1) that(2), of w] that q
    by (cases "w = u"; cases b) (auto simp del: kQueueBits_def)
  show ?thesis
  proof (cases pc)
    case (AtTry v u a)
    with st push [of u v] idx q show ?thesis
      by (cases "push_task u v p"; cases "a < thread_count p") (auto simp: client_target_def pushes_def split: if_splits bool.splits)
  next
    case (SlowTry v u)
    with st push [of u v] idx show ?thesis
      by (cases "push_task u v p") (auto simp: client_target_def pushes_def q split: if_splits bool.splits)
  qed (use st idx q in \<open>auto simp: client_target_def pushes_def split: if_splits option.splits\<close>)
qed

lemma exec_client_inv:
  assumes "sane s" and "\<forall>w < thread_count (pool s). served s w" and "\<forall>w. length (pushed s w) < 2 ^ 62" and "i < length (clients s)"
  shows "sane (exec_client i who s) \<and> (\<forall>w < thread_count (pool s). served (exec_client i who s) w)"
proof -
  obtain pc ix where c: "clients s ! i = (pc, ix)" by fastforce
  obtain pc' ix' p' nt where st: "client_step i pc ix (pool s) = ((pc', ix'), p', nt)" by (metis prod.collapse)
  note fr = client_step_frame [OF st]
  have idx: "\<And>u. client_target pc = Some u \<Longrightarrow> u < thread_count (pool s)" using assms(1,4) c by (auto simp: sane_iff)
  let ?s = "s\<lparr>pool := p', clients := (clients s)[i := (pc', ix')], pushed := (\<lambda>w. pushed s w @ pushes pc pc' w)\<rparr>"
  have eq: "exec_client i who s = notify nt who ?s" by (simp add: exec_client_def c st)
  have "sane ?s"
    using assms(1,4) fr client_step_target [OF st _ _ idx] by (auto simp: sane_iff nth_list_update)
  moreover have "served ?s w" if w: "w < thread_count (pool s)" for w
  proof -
    obtain q where q: "queue_of kQueueBits (wqueue (wdata w (pool s))) (length (pushed s w)) q"
      and eq: "pushed s w = ran s w @ in_batch (workers (pool s) ! w) @ q" using assms(2) w unfolding served_def by blast
    have "queue_of kQueueBits (wqueue (wdata w p')) (length (pushed s w) + length (pushes pc pc' w)) (q @ pushes pc pc' w)"
      using client_step_queue [OF st _ q] idx assms(1,3) by (simp add: sane_iff)
    moreover have "pushed s w @ pushes pc pc' w = ran s w @ in_batch (workers p' ! w) @ q @ pushes pc pc' w"
      using eq fr(2) by simp
    ultimately show ?thesis unfolding served_def by (auto simp: add.assoc)
  qed
  ultimately show ?thesis by (simp add: eq del: notify.simps)
qed

lemma worker_step_frame:
  assumes "worker_step w pc p = (pc', p', nt)"
  shows "thread_count p' = thread_count p" "workers p' = workers p" "length (worker_data p') = length (worker_data p)"
  using assms by (cases "(w, pc, p)" rule: worker_step.cases; auto split: if_splits prod.splits)+

lemma worker_step_queue:
  assumes st: "worker_step w pc p = (pc', p', nt)" and len: "w < length (worker_data p)"
    and q: "queue_of kQueueBits (wqueue (wdata u p)) n q"
  shows "\<exists>q'. queue_of kQueueBits (wqueue (wdata u p')) n q' \<and> (if u = w then in_batch pc @ q = runs pc @ in_batch pc' @ q' else q' = q)"
proof (cases "(w, pc, p)" rule: worker_step.cases)
  case (1 w' p1)
  then show ?thesis using st len q PopBatch_queue [OF q, of kBatchSize]
    by (cases "u = w") (auto split: prod.splits if_splits)
qed (use st len q in \<open>auto split: if_splits\<close>)

lemma exec_worker_inv:
  assumes "sane s" and "\<forall>u < thread_count (pool s). served s u" and "w < length (workers (pool s))"
  shows "sane (exec_worker w s) \<and> (\<forall>u < thread_count (pool s). served (exec_worker w s) u)"
proof -
  let ?pc = "workers (pool s) ! w"
  obtain pc' p' nt where st: "worker_step w ?pc (pool s) = (pc', p', nt)" by (metis prod.collapse)
  note fr = worker_step_frame [OF st]
  have w: "w < length (worker_data (pool s))" using assms(1,3) by (simp add: sane_iff)
  let ?s = "s\<lparr>pool := p'\<lparr>workers := (workers p')[w := pc']\<rparr>, ran := (ran s)(w := ran s w @ runs ?pc)\<rparr>"
  have eq: "exec_worker w s = notify nt None ?s" by (simp add: exec_worker_def st)
  have "sane ?s" using assms(1) fr by (simp add: sane_iff)
  moreover have "served ?s u" if u: "u < thread_count (pool s)" for u
  proof -
    obtain q where q: "queue_of kQueueBits (wqueue (wdata u (pool s))) (length (pushed s u)) q"
      and eq: "pushed s u = ran s u @ in_batch (workers (pool s) ! u) @ q" using assms(2) u unfolding served_def by blast
    obtain q' where q': "queue_of kQueueBits (wqueue (wdata u p')) (length (pushed s u)) q'"
      and b: "if u = w then in_batch ?pc @ q = runs ?pc @ in_batch pc' @ q' else q' = q"
      using worker_step_queue [OF st w q] by blast
    have "pushed s u = ran ?s u @ in_batch (workers (pool ?s) ! u) @ q'" using eq b fr(2) assms(3) by (auto split: if_splits)
    with q' show ?thesis unfolding served_def by auto
  qed
  ultimately show ?thesis by (simp add: eq del: notify.simps)
qed

lemma begin_call_inv:
  assumes "sane s" and "client_target pc = None"
  shows "sane (begin_call i pc s)" "served (begin_call i pc s) w \<longleftrightarrow> served s w"
  using assms by (auto simp: begin_call_def sane_iff served_def nth_list_update)

lemma spurious_inv:
  "sane (wake_worker v s) \<longleftrightarrow> sane s" "served (wake_worker v s) w \<longleftrightarrow> served s w"
  "sane (wake_client v i s) \<longleftrightarrow> sane s" "served (wake_client v i s) w \<longleftrightarrow> served s w"
  by (auto simp: sane_iff served_def workers_wake clients_wake cong: conj_cong split: if_splits)

lemma begin_call_fields [simp]:
  "pool (begin_call i pc s) = pool s" "pushed (begin_call i pc s) = pushed s" "length (clients (begin_call i pc s)) = length (clients s)"
  by (simp_all add: begin_call_def)

lemma exec_fields:
  "thread_count (pool (exec_client i who s)) = thread_count (pool s)" "thread_count (pool (exec_worker w s)) = thread_count (pool s)"
  "pushed (exec_worker w s) = pushed s" "length (pushed (exec_client i who s) u) \<le> Suc (length (pushed s u))"
proof -
  obtain pc ix where c: "clients s ! i = (pc, ix)" by fastforce
  obtain pc' ix' p' nt where st: "client_step i pc ix (pool s) = ((pc', ix'), p', nt)" by (metis prod.collapse)
  have "length (pushes pc pc' u) \<le> 1" by (simp add: pushes_def split: client_pc.splits)
  then show "thread_count (pool (exec_client i who s)) = thread_count (pool s)"
      "length (pushed (exec_client i who s) u) \<le> Suc (length (pushed s u))"
    using client_step_frame [OF st] by (simp_all add: exec_client_def c st)
  obtain pc1 p1 nt1 where st1: "worker_step w (workers (pool s) ! w) (pool s) = (pc1, p1, nt1)" by (metis prod.collapse)
  show "thread_count (pool (exec_worker w s)) = thread_count (pool s)" "pushed (exec_worker w s) = pushed s"
    using worker_step_frame [OF st1] by (simp_all add: exec_worker_def st1)
qed

definition tasks_inv :: "'a tp_sys \<Rightarrow> bool" where
  "tasks_inv s \<longleftrightarrow> sane s \<and> (\<forall>w < thread_count (pool s). served s w)"

lemma tp_exec_inv:
  assumes "tasks_inv s" and "\<forall>w. length (pushed s w) < 2 ^ 62"
  shows "tasks_inv (tp_exec e s) \<and> thread_count (pool (tp_exec e s)) = thread_count (pool s)
    \<and> (\<forall>w. length (pushed (tp_exec e s) w) \<le> Suc (length (pushed s w)))"
proof (cases e)
  case (CallSubmit i task)
  then show ?thesis using assms begin_call_inv [of s "SubmitStart task" i] by (simp add: tasks_inv_def client_target_def)
next
  case (CallStop i)
  then show ?thesis using assms begin_call_inv [of s StopStart i] by (simp add: tasks_inv_def client_target_def)
next
  case (StepClient i who)
  then show ?thesis using assms exec_client_inv [of s i who] exec_fields(1,4) [of i who s] by (simp add: tasks_inv_def)
next
  case (StepWorker w)
  then show ?thesis using assms exec_worker_inv [of s w] exec_fields(2,3) [of w s] by (simp add: tasks_inv_def)
qed (use assms in \<open>simp_all add: tasks_inv_def spurious_inv\<close>)

text \<open>Invariants of an event hold after a run, with the number of events as the bound on the pushes.\<close>

lemma tp_run_induct:
  assumes "P s" and "\<forall>w. length (pushed s w) + length es < 2 ^ 62"
    and "\<And>s e. P s \<Longrightarrow> \<forall>w. length (pushed s w) < 2 ^ 62 \<Longrightarrow> P (tp_exec e s) \<and> (\<forall>w. length (pushed (tp_exec e s) w) \<le> Suc (length (pushed s w)))"
  shows "P (fold tp_exec es s)"
  using assms(1,2)
proof (induction es arbitrary: s)
  case (Cons e es)
  have b: "\<forall>w. length (pushed s w) < 2 ^ 62" using Cons.prems(2) by (metis add_lessD1)
  from assms(3) [OF Cons.prems(1) b, of e]
  have *: "P (tp_exec e s)" "\<forall>w. length (pushed (tp_exec e s) w) \<le> Suc (length (pushed s w))" by blast+
  have "length (pushed (tp_exec e s) w) + length es < 2 ^ 62" for w
    using spec [OF *(2), of w] spec [OF Cons.prems(2), of w] by simp
  with Cons.IH [OF *(1)] show ?case by simp
qed simp

lemma queue_of_new: "queue_of kQueueBits (wqueue (WorkerData_make :: 'a WorkerData)) 0 []"
  by (simp add: WorkerData_make_def kQueueBits_def queue_of_make)

lemma tp_started_inv: "tasks_inv (tp_started n m :: 'a tp_sys)"
proof -
  have "served (tp_started n m :: 'a tp_sys) w" if "w < thread_count (pool (tp_started n m :: 'a tp_sys))" for w
    using that queue_of_new
    by (auto simp: served_def tp_started_def ThreadPool_Start_def ThreadPool_make_def wdata_def split: if_splits)
  moreover have "sane (tp_started n m :: 'a tp_sys)"
    by (auto simp: sane_iff tp_started_def ThreadPool_Start_def ThreadPool_make_def client_target_def)
  ultimately show ?thesis by (simp add: tasks_inv_def)
qed

lemma pushed_started [simp]: "pushed (tp_started n m) = (\<lambda>w. [])"
  by (simp add: tp_started_def)

section \<open>No wake-up is lost\<close>

fun worker_holds :: "'a worker_pc \<Rightarrow> bool" where
  "worker_holds AtPredicate \<longleftrightarrow> True"
| "worker_holds AtSleep \<longleftrightarrow> True"
| "worker_holds AtClearHeld \<longleftrightarrow> True"
| "worker_holds AtUnlock \<longleftrightarrow> True"
| "worker_holds _ \<longleftrightarrow> False"

fun client_holds :: "'a client_pc \<Rightarrow> nat option" where
  "client_holds (AtNotify w) = Some w"
| "client_holds (SlowTry v w) = Some w"
| "client_holds (SlowAccepting v w) = Some w"
| "client_holds (SlowSleep v w) = Some w"
| "client_holds (SlowCounts w) = Some w"
| "client_holds (SlowNotify w) = Some w"
| "client_holds _ = None"

text \<open>Between its store of \<open>is_waiting\<close> and the store that takes it back.\<close>

fun says_waiting :: "'a worker_pc \<Rightarrow> bool" where
  "says_waiting AtEmptyCheck \<longleftrightarrow> True"
| "says_waiting AtStopRecheck \<longleftrightarrow> True"
| "says_waiting (AtClear b) \<longleftrightarrow> True"
| "says_waiting AtLock \<longleftrightarrow> True"
| "says_waiting AtPredicate \<longleftrightarrow> True"
| "says_waiting AtSleep \<longleftrightarrow> True"
| "says_waiting Asleep \<longleftrightarrow> True"
| "says_waiting AtClearHeld \<longleftrightarrow> True"
| "says_waiting _ \<longleftrightarrow> False"

fun sleeps :: "'a worker_pc \<Rightarrow> bool" where
  "sleeps AtSleep \<longleftrightarrow> True"
| "sleeps Asleep \<longleftrightarrow> True"
| "sleeps _ \<longleftrightarrow> False"

text \<open>A client that will still notify worker \<open>w\<close>, or try again to push into its queue.\<close>

fun will_notify :: "nat \<Rightarrow> 'a client_pc \<Rightarrow> bool" where
  "will_notify w (AtCounts u) \<longleftrightarrow> u = w"
| "will_notify w (AtWaitingCheck u) \<longleftrightarrow> u = w"
| "will_notify w (AtNotifyLock u) \<longleftrightarrow> u = w"
| "will_notify w (AtNotify u) \<longleftrightarrow> u = w"
| "will_notify w (SlowLock v u) \<longleftrightarrow> u = w"
| "will_notify w (SlowTry v u) \<longleftrightarrow> u = w"
| "will_notify w (SlowAccepting v u) \<longleftrightarrow> u = w"
| "will_notify w (SlowSleep v u) \<longleftrightarrow> u = w"
| "will_notify w (SlowAsleep v u) \<longleftrightarrow> u = w"
| "will_notify w (SlowCounts u) \<longleftrightarrow> u = w"
| "will_notify w (SlowNotify u) \<longleftrightarrow> u = w"
| "will_notify w _ \<longleftrightarrow> False"

text \<open>A client in \<open>Stop\<close> that has worker \<open>w\<close> before it: before the lock, and before the notification.\<close>

fun stop_locks :: "nat \<Rightarrow> 'a client_pc \<Rightarrow> bool" where
  "stop_locks w (StopFlag b) \<longleftrightarrow> b"
| "stop_locks w (StopLock i) \<longleftrightarrow> i \<le> w"
| "stop_locks w (StopNotify i) \<longleftrightarrow> i < w"
| "stop_locks w _ \<longleftrightarrow> False"

fun stop_notifies :: "nat \<Rightarrow> 'a client_pc \<Rightarrow> bool" where
  "stop_notifies w (StopNotify i) \<longleftrightarrow> i \<le> w"
| "stop_notifies w pc \<longleftrightarrow> stop_locks w pc"

fun stop_flags :: "'a client_pc \<Rightarrow> bool" where
  "stop_flags (StopFlag b) \<longleftrightarrow> b"
| "stop_flags _ \<longleftrightarrow> False"

definition some_client :: "('a client_pc \<Rightarrow> bool) \<Rightarrow> 'a tp_sys \<Rightarrow> bool" where
  "some_client P s \<longleftrightarrow> (\<exists>j < length (clients s). P (fst (clients s ! j)))"

definition locks_ok :: "'a tp_sys \<Rightarrow> bool" where
  "locks_ok s \<longleftrightarrow>
     (\<forall>w < thread_count (pool s). (worker_holds (workers (pool s) ! w) \<longleftrightarrow> cv_mutex (wdata w (pool s)) = Some ByWorker)
        \<and> (\<forall>i < length (clients s). client_holds (fst (clients s ! i)) = Some w \<longleftrightarrow> cv_mutex (wdata w (pool s)) = Some (ByClient i)))"

definition flags_ok :: "'a tp_sys \<Rightarrow> bool" where
  "flags_ok s \<longleftrightarrow> (\<forall>w < thread_count (pool s). says_waiting (workers (pool s) ! w) \<longrightarrow> is_waiting (wdata w (pool s)))"

definition wakes_ok :: "'a tp_sys \<Rightarrow> nat \<Rightarrow> bool" where
  "wakes_ok s w \<longleftrightarrow> sleeps (workers (pool s) ! w) \<and> \<not> Empty (wqueue (wdata w (pool s))) \<and> accepting_tasks (pool s)
     \<longrightarrow> some_client (will_notify w) s"

definition stops_ok :: "'a tp_sys \<Rightarrow> nat \<Rightarrow> bool" where
  "stops_ok s w \<longleftrightarrow>
     (workers (pool s) ! w = AtSleep \<and> \<not> accepting_tasks (pool s) \<longrightarrow> some_client (stop_locks w) s)
   \<and> (workers (pool s) ! w = Asleep \<and> \<not> accepting_tasks (pool s) \<longrightarrow> some_client (stop_notifies w) s)"

definition stop_order_ok :: "'a tp_sys \<Rightarrow> bool" where
  "stop_order_ok s \<longleftrightarrow> \<not> accepting_tasks (pool s) \<and> \<not> stop_requested (pool s) \<longrightarrow> some_client stop_flags s"

text \<open>Waking a thread touches none of the predicates on program counters, except that it may end a sleep.\<close>

lemma wake_worker_pc_preds [simp]:
  "worker_holds (wake_worker_pc pc) \<longleftrightarrow> worker_holds pc" "says_waiting (wake_worker_pc pc) \<longleftrightarrow> says_waiting pc"
  "wake_worker_pc pc \<noteq> Asleep" "wake_worker_pc pc = AtSleep \<longleftrightarrow> pc = AtSleep" "sleeps (wake_worker_pc pc) \<longleftrightarrow> pc = AtSleep"
  by (cases pc; simp)+

lemma wake_client_pc_preds [simp]:
  "client_holds (fst (wake_client_pc v c)) = client_holds (fst c)" "will_notify w (fst (wake_client_pc v c)) \<longleftrightarrow> will_notify w (fst c)"
  "stop_locks w (fst (wake_client_pc v c)) \<longleftrightarrow> stop_locks w (fst c)" "stop_notifies w (fst (wake_client_pc v c)) \<longleftrightarrow> stop_notifies w (fst c)"
  "stop_flags (fst (wake_client_pc v c)) \<longleftrightarrow> stop_flags (fst c)"
  by (cases "(v, c)" rule: wake_client_pc.cases; simp)+

lemma notify_client_preds:
  assumes "i < length (clients s)"
  shows "client_holds (fst (clients (notify nt who s) ! i)) = client_holds (fst (clients s ! i))"
    "will_notify w (fst (clients (notify nt who s) ! i)) \<longleftrightarrow> will_notify w (fst (clients s ! i))"
    "stop_locks w (fst (clients (notify nt who s) ! i)) \<longleftrightarrow> stop_locks w (fst (clients s ! i))"
    "stop_notifies w (fst (clients (notify nt who s) ! i)) \<longleftrightarrow> stop_notifies w (fst (clients s ! i))"
    "stop_flags (fst (clients (notify nt who s) ! i)) \<longleftrightarrow> stop_flags (fst (clients s ! i))"
  using notify_client [OF assms, of nt who] by (auto simp del: notify.simps)

lemma some_client_notify [simp]:
  "some_client (will_notify w) (notify nt who s) = some_client (will_notify w) s"
  "some_client (stop_locks w) (notify nt who s) = some_client (stop_locks w) s"
  "some_client (stop_notifies w) (notify nt who s) = some_client (stop_notifies w) s"
  "some_client stop_flags (notify nt who s) = some_client stop_flags s"
  by (auto simp: some_client_def notify_client_preds simp del: notify.simps)

lemma locks_ok_notify [simp]: "locks_ok (notify nt who s) = locks_ok s"
proof -
  have "worker_holds (workers (pool (notify nt who s)) ! w) = worker_holds (workers (pool s) ! w)" for w
    using notify_worker [of nt who s w] by auto
  then show ?thesis by (auto simp: locks_ok_def notify_client_preds simp del: notify.simps)
qed

lemma flags_ok_notify [simp]: "flags_ok (notify nt who s) = flags_ok s"
proof -
  have "says_waiting (workers (pool (notify nt who s)) ! w) = says_waiting (workers (pool s) ! w)" for w
    using notify_worker [of nt who s w] by auto
  then show ?thesis by (auto simp: flags_ok_def simp del: notify.simps)
qed

lemma stop_order_ok_notify [simp]: "stop_order_ok (notify nt who s) = stop_order_ok s"
  by (simp add: stop_order_ok_def del: notify.simps)

lemma wakes_ok_notify: "wakes_ok s w \<Longrightarrow> wakes_ok (notify nt who s) w"
  using notify_worker [of nt who s w] by (auto simp: wakes_ok_def simp del: notify.simps)

lemma stops_ok_notify: "stops_ok s w \<Longrightarrow> stops_ok (notify nt who s) w"
  using notify_worker [of nt who s w] by (elim disjE) (simp_all add: stops_ok_def del: notify.simps)

lemma some_client_upd:
  "some_client P s \<Longrightarrow> i < length (clients s) \<Longrightarrow> (P (fst (clients s ! i)) \<Longrightarrow> P (fst c))
   \<Longrightarrow> clients s' = (clients s)[i := c] \<Longrightarrow> some_client P s'"
  by (metis (no_types, lifting) length_list_update nth_list_update some_client_def)

lemma some_client_here: "P (fst c) \<Longrightarrow> i < length (clients s) \<Longrightarrow> clients s' = (clients s)[i := c] \<Longrightarrow> some_client P s'"
  by (auto simp: some_client_def nth_list_update)

lemma client_step_lock:
  assumes "client_step c pc ix p = ((pc', ix'), p', nt)"
    and "\<And>u. client_target pc = Some u \<Longrightarrow> u < length (worker_data p)" and "w < length (worker_data p)"
    and "client_holds pc = Some w \<longleftrightarrow> cv_mutex (wdata w p) = Some (ByClient c)"
  shows "client_holds pc' = Some w \<longleftrightarrow> cv_mutex (wdata w p') = Some (ByClient c)"
    "x \<noteq> ByClient c \<Longrightarrow> cv_mutex (wdata w p') = Some x \<longleftrightarrow> cv_mutex (wdata w p) = Some x"
    "is_waiting (wdata w p') \<longleftrightarrow> is_waiting (wdata w p)"
  using assms
  by (cases pc; auto simp: client_target_def push_task_fields split: if_splits option.splits prod.splits bool.splits)+

lemma pushes_will_notify:
  "client_step c pc ix p = ((pc', ix'), p', nt) \<Longrightarrow> pushes pc pc' w \<noteq> [] \<Longrightarrow> will_notify w pc'"
  by (cases pc) (auto simp: pushes_def split: if_splits prod.splits bool.splits)

lemma client_step_will_notify:
  assumes "client_step c pc ix p = ((pc', ix'), p', nt)" and "will_notify w pc"
  shows "will_notify w pc' \<or> \<not> accepting_tasks p' \<or> (pc = AtWaitingCheck w \<and> \<not> is_waiting (wdata w p))
    \<or> client_holds pc = Some w \<and> nt = NotifyOne w \<and> client_holds pc' = None"
  using assms by (cases pc) (auto simp: push_task_fields split: if_splits prod.splits bool.splits)

lemma client_step_accepting: "client_step c pc ix p = ((pc', ix'), p', nt) \<Longrightarrow> accepting_tasks p' \<Longrightarrow> accepting_tasks p"
  by (cases pc) (auto simp: push_task_fields split: if_splits option.splits prod.splits bool.splits)

lemma waits_on_will_notify: "waits_on w c \<Longrightarrow> will_notify w (fst c)"
  by (cases "(w, c)" rule: waits_on.cases) simp_all

lemma wakes_ok_notify_one:
  assumes "workers (pool s) ! w \<noteq> AtSleep" and "w < length (workers (pool s))"
  shows "wakes_ok (notify (NotifyOne w) who s) w"
proof (rule notify_one [of s w who])
  assume "workers (pool s) ! w = Asleep" "notify (NotifyOne w) who s = wake_worker w s"
  then show ?thesis using assms by (simp add: wakes_ok_def workers_wake del: notify.simps)
next
  fix i
  assume "i < length (clients s)" "waits_on w (clients s ! i)"
  then have "some_client (will_notify w) s" by (auto simp: some_client_def dest: waits_on_will_notify)
  then show ?thesis by (simp add: wakes_ok_def del: notify.simps)
next
  assume "workers (pool s) ! w \<noteq> Asleep" "notify (NotifyOne w) who s = s"
  then show ?thesis using assms(1) by (cases "workers (pool s) ! w") (simp_all add: wakes_ok_def del: notify.simps)
qed

lemma served_Empty:
  "queue_of kQueueBits (wqueue (wdata w p)) n q \<Longrightarrow> Empty (wqueue (wdata w p)) \<longleftrightarrow> q = []"
  by (rule Empty_queue)

lemma locks_okD:
  assumes "locks_ok s" and "w < thread_count (pool s)"
  shows "worker_holds (workers (pool s) ! w) \<longleftrightarrow> cv_mutex (wdata w (pool s)) = Some ByWorker"
    "i < length (clients s) \<Longrightarrow> client_holds (fst (clients s ! i)) = Some w \<longleftrightarrow> cv_mutex (wdata w (pool s)) = Some (ByClient i)"
  using assms by (auto simp: locks_ok_def)

lemma exec_client_wakes:
  assumes inv: "tasks_inv s" "\<forall>w. length (pushed s w) < 2 ^ 62" and ok: "locks_ok s" "flags_ok s" "wakes_ok s w"
    and w: "w < thread_count (pool s)" and i: "i < length (clients s)"
  shows "wakes_ok (exec_client i who s) w"
proof -
  obtain pc ix where c: "clients s ! i = (pc, ix)" by fastforce
  obtain pc' ix' p' nt where st: "client_step i pc ix (pool s) = ((pc', ix'), p', nt)" by (metis prod.collapse)
  note fr = client_step_frame [OF st]
  have idx: "\<And>u. client_target pc = Some u \<Longrightarrow> u < length (worker_data (pool s))"
    using inv(1) i c by (auto simp: tasks_inv_def sane_iff)
  have len: "w < length (workers (pool s))" using inv(1) w by (simp add: tasks_inv_def sane_iff)
  let ?s = "s\<lparr>pool := p', clients := (clients s)[i := (pc', ix')], pushed := (\<lambda>w. pushed s w @ pushes pc pc' w)\<rparr>"
  have eq: "exec_client i who s = notify nt who ?s" by (simp add: exec_client_def c st)
  obtain q where q: "queue_of kQueueBits (wqueue (wdata w (pool s))) (length (pushed s w)) q"
    using inv(1) w by (auto simp: tasks_inv_def served_def)
  have q': "queue_of kQueueBits (wqueue (wdata w p')) (length (pushed s w) + length (pushes pc pc' w)) (q @ pushes pc pc' w)"
    using client_step_queue [OF st idx q] inv(2) by blast
  have keep: "wakes_ok ?s w" if k: "will_notify w pc \<Longrightarrow> will_notify w pc' \<or> \<not> accepting_tasks p' \<or> \<not> sleeps (workers (pool s) ! w)"
    unfolding wakes_ok_def
  proof (intro impI, elim conjE)
    assume a: "sleeps (workers (pool ?s) ! w)" "\<not> Empty (wqueue (wdata w (pool ?s)))" "accepting_tasks (pool ?s)"
    show "some_client (will_notify w) ?s"
    proof (cases "pushes pc pc' w = []")
      case True
      then have "\<not> Empty (wqueue (wdata w (pool s)))" using a(2) served_Empty [OF q] served_Empty [OF q'] by simp
      then have "some_client (will_notify w) s"
        using ok(3) a(1,3) fr(2) client_step_accepting [OF st] by (simp add: wakes_ok_def)
      then show ?thesis by (rule some_client_upd [where i = i and c = "(pc', ix')"]) (use k a fr(2) i c in auto)
    next
      case False
      show ?thesis
        by (rule some_client_here [where i = i and c = "(pc', ix')" and s = s]) (use pushes_will_notify [OF st False] i in auto)
    qed
  qed
  show ?thesis
  proof (cases "client_holds pc = Some w \<and> nt = NotifyOne w \<and> client_holds pc' = None")
    case True
    then have "cv_mutex (wdata w (pool s)) = Some (ByClient i)" using locks_okD(2) [OF ok(1) w i] c by simp
    then have "\<not> worker_holds (workers (pool s) ! w)" using locks_okD(1) [OF ok(1) w] by simp
    then have "workers (pool ?s) ! w \<noteq> AtSleep" using fr(2) by auto
    then show ?thesis using wakes_ok_notify_one [of ?s w who] True eq len fr(2) by simp
  next
    case False
    have "pc \<noteq> AtWaitingCheck w \<or> is_waiting (wdata w (pool s)) \<or> \<not> sleeps (workers (pool s) ! w)"
      using ok(2) w by (cases "workers (pool s) ! w") (auto simp: flags_ok_def)
    with client_step_will_notify [OF st, of w] False have "wakes_ok ?s w" by (intro keep) blast
    then show ?thesis unfolding eq by (rule wakes_ok_notify)
  qed
qed

lemma client_step_stops:
  assumes "client_step c pc ix p = ((pc', ix'), p', nt)"
  shows "stop_locks w pc \<Longrightarrow> w < length (worker_data p) \<Longrightarrow> stop_locks w pc' \<or> pc' = StopNotify w \<and> cv_mutex (wdata w p) = None"
    "stop_notifies w pc \<Longrightarrow> w < length (worker_data p) \<Longrightarrow> stop_notifies w pc' \<or> nt = NotifyAll w"
    "stop_flags pc \<Longrightarrow> stop_flags pc' \<or> stop_requested p'"
    "accepting_tasks p \<Longrightarrow> \<not> accepting_tasks p' \<Longrightarrow> stop_flags pc'"
    "stop_requested p \<Longrightarrow> stop_requested p'"
  using assms by (cases pc; auto simp: push_task_fields split: if_splits option.splits prod.splits bool.splits)+

lemma stop_flags_locks: "stop_flags pc \<Longrightarrow> stop_locks w pc" "stop_locks w pc \<Longrightarrow> stop_notifies w pc"
  by (cases pc; simp)+

lemma exec_client_stops:
  assumes sane: "sane s" and ok: "locks_ok s" "stops_ok s w" "stop_order_ok s"
    and w: "w < thread_count (pool s)" and i: "i < length (clients s)"
  shows "stops_ok (exec_client i who s) w" "stop_order_ok (exec_client i who s)"
proof -
  obtain pc ix where c: "clients s ! i = (pc, ix)" by fastforce
  obtain pc' ix' p' nt where st: "client_step i pc ix (pool s) = ((pc', ix'), p', nt)" by (metis prod.collapse)
  note fr = client_step_frame [OF st] and stops = client_step_stops [OF st]
  have len: "w < length (worker_data (pool s))" "w < length (workers (pool s))" using sane w by (simp_all add: sane_iff)
  let ?s = "s\<lparr>pool := p', clients := (clients s)[i := (pc', ix')], pushed := (\<lambda>w. pushed s w @ pushes pc pc' w)\<rparr>"
  have eq: "exec_client i who s = notify nt who ?s" by (simp add: exec_client_def c st)
  have here: "some_client P ?s" if "P pc'" for P
    by (rule some_client_here [where i = i and c = "(pc', ix')" and s = s]) (use that i in auto)
  have keep: "some_client P ?s" if "some_client P s" "P pc \<Longrightarrow> P pc'" for P
    by (rule some_client_upd [OF that(1) i, where c = "(pc', ix')"]) (use that(2) c in auto)
  have order: "stop_order_ok ?s"
    unfolding stop_order_ok_def
  proof (intro impI, elim conjE)
    assume a: "\<not> accepting_tasks (pool ?s)" "\<not> stop_requested (pool ?s)"
    show "some_client stop_flags ?s"
    proof (cases "accepting_tasks (pool s)")
      case True
      with a stops(4) show ?thesis by (intro here) simp
    next
      case False
      with a stops(5) ok(3) have "some_client stop_flags s" by (auto simp: stop_order_ok_def)
      then show ?thesis by (rule keep) (use stops(3) a in auto)
    qed
  qed
  have lock: "some_client (stop_locks w) ?s" if a: "workers (pool s) ! w = AtSleep" "\<not> accepting_tasks p'"
  proof (cases "accepting_tasks (pool s)")
    case True
    with a stops(4) show ?thesis by (intro here) (simp add: stop_flags_locks)
  next
    case False
    have "cv_mutex (wdata w (pool s)) = Some ByWorker" using locks_okD(1) [OF ok(1) w] a(1) by simp
    moreover have "some_client (stop_locks w) s" using ok(2) False a(1) by (simp add: stops_ok_def)
    ultimately show ?thesis using stops(1) [OF _ len(1)] by (intro keep) auto
  qed
  have wake: "some_client (stop_notifies w) ?s" if a: "workers (pool s) ! w = Asleep" "\<not> accepting_tasks p'" "nt \<noteq> NotifyAll w"
  proof (cases "accepting_tasks (pool s)")
    case True
    with a stops(4) show ?thesis by (intro here) (simp add: stop_flags_locks)
  next
    case False
    then have "some_client (stop_notifies w) s" using ok(2) a(1) by (simp add: stops_ok_def)
    then show ?thesis by (rule keep) (use stops(2) len(1) a(3) in auto)
  qed
  show "stop_order_ok (exec_client i who s)" using order by (simp add: eq del: notify.simps)
  show "stops_ok (exec_client i who s) w"
  proof (cases "nt = NotifyAll w \<and> workers (pool s) ! w = Asleep")
    case True
    then have "workers (pool (exec_client i who s)) ! w = AtLock" using eq workers_wake [of w ?s w] len(2) fr(2) by simp
    then show ?thesis by (simp add: stops_ok_def)
  next
    case False
    then have "stops_ok ?s w" using lock wake fr(2) unfolding stops_ok_def by auto
    then show ?thesis unfolding eq by (rule stops_ok_notify)
  qed
qed

lemma exec_client_locks:
  assumes sane: "sane s" and ok: "locks_ok s" "flags_ok s" and i: "i < length (clients s)"
  shows "locks_ok (exec_client i who s)" "flags_ok (exec_client i who s)"
proof -
  obtain pc ix where c: "clients s ! i = (pc, ix)" by fastforce
  obtain pc' ix' p' nt where st: "client_step i pc ix (pool s) = ((pc', ix'), p', nt)" by (metis prod.collapse)
  note fr = client_step_frame [OF st]
  have idx: "\<And>u. client_target pc = Some u \<Longrightarrow> u < length (worker_data (pool s))" using sane i c by (auto simp: sane_iff)
  have l: "client_holds pc' = Some w \<longleftrightarrow> cv_mutex (wdata w p') = Some (ByClient i)"
      "x \<noteq> ByClient i \<Longrightarrow> cv_mutex (wdata w p') = Some x \<longleftrightarrow> cv_mutex (wdata w (pool s)) = Some x"
      "is_waiting (wdata w p') \<longleftrightarrow> is_waiting (wdata w (pool s))" if "w < thread_count (pool s)" for w x
    using client_step_lock(1,3) [OF st idx, where w = w] client_step_lock(2) [OF st idx, where w = w and x = x]
      that sane locks_okD(2) [OF ok(1) that i] c by (auto simp: sane_iff)
  let ?s = "s\<lparr>pool := p', clients := (clients s)[i := (pc', ix')], pushed := (\<lambda>w. pushed s w @ pushes pc pc' w)\<rparr>"
  have eq: "exec_client i who s = notify nt who ?s" by (simp add: exec_client_def c st)
  have "locks_ok ?s"
    unfolding locks_ok_def
  proof (intro allI impI conjI)
    fix w assume "w < thread_count (pool ?s)"
    then have w: "w < thread_count (pool s)" using fr(1) by simp
    show "worker_holds (workers (pool ?s) ! w) \<longleftrightarrow> cv_mutex (wdata w (pool ?s)) = Some ByWorker"
      using l(2) [OF w, of ByWorker] locks_okD(1) [OF ok(1) w] fr(2) by simp
    fix j assume j: "j < length (clients ?s)"
    show "client_holds (fst (clients ?s ! j)) = Some w \<longleftrightarrow> cv_mutex (wdata w (pool ?s)) = Some (ByClient j)"
      using l(1) [OF w] l(2) [OF w, of "ByClient j"] locks_okD(2) [OF ok(1) w, of j] j i by (cases "j = i") auto
  qed
  then show "locks_ok (exec_client i who s)" by (simp add: eq del: notify.simps)
  have "flags_ok ?s" using ok(2) l(3) fr by (simp add: flags_ok_def)
  then show "flags_ok (exec_client i who s)" by (simp add: eq del: notify.simps)
qed

lemma worker_step_wakes:
  assumes "worker_step w pc p = (pc', p', nt)" and "w < length (worker_data p)"
  shows "accepting_tasks p' = accepting_tasks p" "stop_requested p' = stop_requested p"
    "u \<noteq> w \<Longrightarrow> cv_mutex (wdata u p') = cv_mutex (wdata u p) \<and> is_waiting (wdata u p') = is_waiting (wdata u p)
       \<and> wqueue (wdata u p') = wqueue (wdata u p)"
    "worker_holds pc \<longleftrightarrow> cv_mutex (wdata w p) = Some ByWorker \<Longrightarrow> worker_holds pc' \<longleftrightarrow> cv_mutex (wdata w p') = Some ByWorker"
    "worker_holds pc \<longleftrightarrow> cv_mutex (wdata w p) = Some ByWorker \<Longrightarrow>
       cv_mutex (wdata w p') = Some (ByClient i) \<longleftrightarrow> cv_mutex (wdata w p) = Some (ByClient i)"
    "says_waiting pc \<longrightarrow> is_waiting (wdata w p) \<Longrightarrow> says_waiting pc' \<longrightarrow> is_waiting (wdata w p')"
    "sleeps pc' \<Longrightarrow> wqueue (wdata w p') = wqueue (wdata w p) \<and> (sleeps pc \<or> Empty (wqueue (wdata w p)))"
    "pc' = AtSleep \<Longrightarrow> \<not> stop_requested p"
    "pc' = Asleep \<Longrightarrow> pc = AtSleep \<or> pc = Asleep"
  using assms by (cases "(w, pc, p)" rule: worker_step.cases; auto split: if_splits prod.splits)+

lemma some_client_cong: "clients s' = clients s \<Longrightarrow> some_client P s' = some_client P s"
  by (simp add: some_client_def)

lemma some_client_mono: "some_client P s \<Longrightarrow> (\<And>pc. P pc \<Longrightarrow> Q pc) \<Longrightarrow> some_client Q s"
  by (auto simp: some_client_def)

definition wake_inv :: "'a tp_sys \<Rightarrow> bool" where
  "wake_inv s \<longleftrightarrow> locks_ok s \<and> flags_ok s \<and> stop_order_ok s \<and> (\<forall>w < thread_count (pool s). wakes_ok s w \<and> stops_ok s w)"

lemma wake_inv_notify: "wake_inv s \<Longrightarrow> wake_inv (notify nt who s)"
  by (simp add: wake_inv_def wakes_ok_notify stops_ok_notify del: notify.simps)

lemma exec_worker_wake_inv:
  assumes sane: "sane s" and inv: "wake_inv s" and w: "w < length (workers (pool s))"
  shows "wake_inv (exec_worker w s)"
proof -
  let ?pc = "workers (pool s) ! w"
  obtain pc' p' nt where st: "worker_step w ?pc (pool s) = (pc', p', nt)" by (metis prod.collapse)
  have len: "w < length (worker_data (pool s))" and wn: "w < thread_count (pool s)" using sane w by (simp_all add: sane_iff)
  note fr = worker_step_frame [OF st] and k = worker_step_wakes [OF st len]
  let ?s = "s\<lparr>pool := p'\<lparr>workers := (workers p')[w := pc']\<rparr>, ran := (ran s)(w := ran s w @ runs ?pc)\<rparr>"
  have eq: "exec_worker w s = notify nt None ?s" by (simp add: exec_worker_def st)
  have at: "workers (pool ?s) ! u = (if u = w then pc' else workers (pool s) ! u)" for u using w fr(2) by (simp add: nth_list_update)
  have sc: "some_client P ?s = some_client P s" for P by (rule some_client_cong) simp
  note ok = inv [unfolded wake_inv_def]
  have holds: "worker_holds ?pc \<longleftrightarrow> cv_mutex (wdata w (pool s)) = Some ByWorker" using ok locks_okD(1) wn by blast
  have "locks_ok ?s"
    unfolding locks_ok_def
  proof (intro allI impI conjI)
    fix u assume "u < thread_count (pool ?s)"
    then have u: "u < thread_count (pool s)" using fr(1) by simp
    show "worker_holds (workers (pool ?s) ! u) \<longleftrightarrow> cv_mutex (wdata u (pool ?s)) = Some ByWorker"
      unfolding at using k(4) [OF holds] k(3) [of u] locks_okD(1) [of s u] ok u by auto
    fix j assume "j < length (clients ?s)"
    then show "client_holds (fst (clients ?s ! j)) = Some u \<longleftrightarrow> cv_mutex (wdata u (pool ?s)) = Some (ByClient j)"
      using k(5) [OF holds] k(3) [of u] locks_okD(2) [of s u j] ok u by (cases "u = w") auto
  qed
  moreover have "flags_ok ?s"
    using ok k(3,6) fr(1) wn unfolding flags_ok_def at by auto
  moreover have "stop_order_ok ?s" using ok k(1,2) by (simp add: stop_order_ok_def sc)
  moreover have "wakes_ok ?s u" if "u < thread_count (pool s)" for u
    using ok that k(1,7) k(3) [of u] unfolding wakes_ok_def at sc by auto
  moreover have "stops_ok ?s u" if "u < thread_count (pool s)" for u
  proof (cases "u = w")
    case False
    then show ?thesis using ok that k(1) unfolding stops_ok_def at sc by simp
  next
    case True
    have "some_client (stop_locks w) s" if "pc' = AtSleep" "\<not> accepting_tasks (pool s)"
      using ok k(8) that stop_flags_locks(1) by (auto simp: stop_order_ok_def intro: some_client_mono)
    moreover have "some_client (stop_notifies w) s" if "pc' = Asleep" "\<not> accepting_tasks (pool s)"
      using ok k(9) that wn stop_flags_locks(2) by (auto simp: stops_ok_def intro: some_client_mono)
    ultimately show ?thesis using True k(1) unfolding stops_ok_def at sc by simp
  qed
  ultimately have "wake_inv ?s" using fr(1) by (simp add: wake_inv_def)
  then show ?thesis unfolding eq by (rule wake_inv_notify)
qed

lemma begin_call_wake_inv:
  assumes "wake_inv s" and "client_holds pc = None"
  shows "wake_inv (begin_call i pc s)"
proof (cases "i < length (clients s) \<and> client_idle (fst (clients s ! i))")
  case True
  let ?s = "begin_call i pc s"
  have cl: "clients ?s = (clients s)[i := (pc, snd (clients s ! i))]" using True by (simp add: begin_call_def)
  have idle: "client_holds (fst (clients s ! i)) = None" "\<not> will_notify w (fst (clients s ! i))" "\<not> stop_locks w (fst (clients s ! i))"
      "\<not> stop_notifies w (fst (clients s ! i))" "\<not> stop_flags (fst (clients s ! i))" for w
    using True by (cases "fst (clients s ! i)"; simp)+
  have keep: "some_client P s \<Longrightarrow> some_client P ?s" if "\<not> P (fst (clients s ! i))" for P
    by (rule some_client_upd [OF _ _ _ cl]) (use True that in auto)
  have "client_holds (fst (clients ?s ! j)) = client_holds (fst (clients s ! j))" for j
    using cl True assms(2) idle(1) by (cases "j = i") auto
  then show ?thesis
    using assms(1) keep idle(2-5)
    by (auto simp: wake_inv_def locks_ok_def flags_ok_def stop_order_ok_def wakes_ok_def stops_ok_def)
qed (use assms in \<open>auto simp: begin_call_def\<close>)

lemma spurious_wake_inv:
  assumes "wake_inv s"
  shows "wake_inv (wake_worker v s)" "wake_inv (wake_client v i s)"
proof -
  have w: "workers (pool (wake_worker v s)) ! u = workers (pool s) ! u
      \<or> workers (pool (wake_worker v s)) ! u = wake_worker_pc (workers (pool s) ! u)" for u
    by (simp add: workers_wake)
  have preds: "worker_holds (workers (pool (wake_worker v s)) ! u) \<longleftrightarrow> worker_holds (workers (pool s) ! u)"
      "says_waiting (workers (pool (wake_worker v s)) ! u) \<longleftrightarrow> says_waiting (workers (pool s) ! u)"
      "sleeps (workers (pool (wake_worker v s)) ! u) \<Longrightarrow> sleeps (workers (pool s) ! u)"
      "workers (pool (wake_worker v s)) ! u = AtSleep \<Longrightarrow> workers (pool s) ! u = AtSleep"
      "workers (pool (wake_worker v s)) ! u = Asleep \<Longrightarrow> workers (pool s) ! u = Asleep" for u
    using w [of u] by (auto simp: eq_commute [of AtSleep] eq_commute [of Asleep])
  have sc: "some_client P (wake_worker v s) = some_client P s" for P by (rule some_client_cong) simp
  show "wake_inv (wake_worker v s)"
    using assms preds(3-5)
    by (auto simp: wake_inv_def locks_ok_def flags_ok_def stop_order_ok_def wakes_ok_def stops_ok_def preds(1,2) sc)
  have c: "j < length (clients s) \<Longrightarrow> clients (wake_client v i s) ! j = clients s ! j \<or> clients (wake_client v i s) ! j = wake_client_pc v (clients s ! j)" for j
    by (simp add: clients_wake)
  have cp: "client_holds (fst (clients (wake_client v i s) ! j)) = client_holds (fst (clients s ! j))"
      "will_notify w (fst (clients (wake_client v i s) ! j)) \<longleftrightarrow> will_notify w (fst (clients s ! j))"
      "stop_locks w (fst (clients (wake_client v i s) ! j)) \<longleftrightarrow> stop_locks w (fst (clients s ! j))"
      "stop_notifies w (fst (clients (wake_client v i s) ! j)) \<longleftrightarrow> stop_notifies w (fst (clients s ! j))"
      "stop_flags (fst (clients (wake_client v i s) ! j)) \<longleftrightarrow> stop_flags (fst (clients s ! j))" if "j < length (clients s)" for j w
    using c [OF that] by auto
  show "wake_inv (wake_client v i s)"
    using assms
    by (simp add: wake_inv_def locks_ok_def flags_ok_def stop_order_ok_def wakes_ok_def stops_ok_def some_client_def cp cong: conj_cong)
qed

definition tp_inv :: "'a tp_sys \<Rightarrow> bool" where
  "tp_inv s \<longleftrightarrow> tasks_inv s \<and> wake_inv s"

lemma exec_client_wake_inv:
  assumes "tasks_inv s" and "wake_inv s" and "\<forall>w. length (pushed s w) < 2 ^ 62" and "i < length (clients s)"
  shows "wake_inv (exec_client i who s)"
proof -
  note ok = assms(2) [unfolded wake_inv_def]
  have sane: "sane s" using assms(1) by (simp add: tasks_inv_def)
  then have "0 < thread_count (pool s)" by (simp add: sane_iff)
  then show ?thesis
    using exec_client_locks [OF sane _ _ assms(4)] exec_client_wakes [OF assms(1,3) _ _ _ _ assms(4)]
      exec_client_stops [OF sane _ _ _ _ assms(4)] ok exec_fields(1) [of i who s]
    unfolding wake_inv_def by metis
qed

lemma tp_exec_tp_inv:
  assumes "tp_inv s" and "\<forall>w. length (pushed s w) < 2 ^ 62"
  shows "tp_inv (tp_exec e s) \<and> (\<forall>w. length (pushed (tp_exec e s) w) \<le> Suc (length (pushed s w)))"
proof -
  have t: "tasks_inv s" "wake_inv s" using assms(1) by (simp_all add: tp_inv_def)
  then have sane: "sane s" by (simp add: tasks_inv_def)
  have "wake_inv (tp_exec e s)"
    using t begin_call_wake_inv [OF t(2)] exec_client_wake_inv [OF t assms(2)] exec_worker_wake_inv [OF sane t(2)]
      spurious_wake_inv [OF t(2)]
    by (cases e) simp_all
  with tp_exec_inv [OF t(1) assms(2), of e] show ?thesis by (simp add: tp_inv_def)
qed

lemma tp_started_wake_inv: "wake_inv (tp_started n m :: 'a tp_sys)"
  by (auto simp: wake_inv_def locks_ok_def flags_ok_def stop_order_ok_def wakes_ok_def stops_ok_def tp_started_def
      ThreadPool_Start_def ThreadPool_make_def wdata_def WorkerData_make_def nth_Cons' split: if_splits)

lemma tp_run_inv: "length events < 2 ^ 62 \<Longrightarrow> tp_inv (fold tp_exec events (tp_started n m))"
  by (rule tp_run_induct [where P = tp_inv, OF _ _ tp_exec_tp_inv]) (simp_all add: tp_inv_def tp_started_inv tp_started_wake_inv)

lemma thread_count_run: "thread_count (pool (fold tp_exec events s)) = thread_count (pool s)"
proof (induction events arbitrary: s)
  case (Cons e es)
  have "thread_count (pool (tp_exec e s)) = thread_count (pool s)" by (cases e) (simp_all add: exec_fields)
  with Cons show ?case by simp
qed simp

lemma thread_count_started: "thread_count (pool (tp_started n m)) = max 1 n"
  by (auto simp: tp_started_def ThreadPool_Start_def ThreadPool_make_def)

section \<open>Properties\<close>

text \<open>
  C18: the thread pool runs every task once and in order. In every interleaving of the workers with
  any number of clients that submit and stop, the tasks pushed to a worker are those it has run, followed by
  those in its hands and those in its queue, which never holds more than 1024.
\<close>

theorem tasks_run_once_in_order:
  assumes "length events < 2 ^ 62" and "w < max 1 n"
  shows "let s = fold tp_exec events (tp_started n m); queued = fst (PopBatch 1024 (wqueue (wdata w (pool s)))) in
      pushed s w = ran s w @ in_batch (workers (pool s) ! w) @ queued \<and> (Empty (wqueue (wdata w (pool s))) \<longleftrightarrow> queued = [])"
proof -
  let ?s = "fold tp_exec events (tp_started n m)"
  have "served ?s w"
    using tp_run_inv [OF assms(1), of n m] assms(2) by (simp add: tp_inv_def tasks_inv_def thread_count_run thread_count_started)
  then obtain q where q: "queue_of kQueueBits (wqueue (wdata w (pool ?s))) (length (pushed ?s w)) q"
    and eq: "pushed ?s w = ran ?s w @ in_batch (workers (pool ?s) ! w) @ q" unfolding served_def by blast
  have "length q \<le> 1024" using queue_of_bounded [OF q] by (simp add: kQueueBits_def)
  then have "fst (PopBatch 1024 (wqueue (wdata w (pool ?s)))) = q" using PopBatch_queue [OF q, of 1024] by auto
  with eq served_Empty [OF q] show ?thesis by (simp add: Let_def)
qed

text \<open>A queue with one task in it and a queue that is empty, for evaluating runs with a single task.\<close>

lemma one_task_ring:
  fixes v :: 'a
  obtains q1 q2 where "TryPush v (MpscRingQueue_make kQueueBits) = Some (True, q1)" "PopBatch kBatchSize q1 = ([v], q2)"
    "PopBatch kBatchSize q2 = ([], q2)" "Empty q2" "\<not> Empty q1"
    "PopBatch kBatchSize (MpscRingQueue_make kQueueBits) = ([], MpscRingQueue_make kQueueBits :: 'a ring)"
    "Empty (MpscRingQueue_make kQueueBits :: 'a ring)"
proof -
  let ?q = "MpscRingQueue_make kQueueBits :: 'a ring"
  have q: "queue_of kQueueBits ?q 0 []" using queue_of_new by (simp add: WorkerData_make_def)
  obtain q1 where q1: "TryPush v ?q = Some (True, q1)" "queue_of kQueueBits q1 1 [v]"
    using TryPush_room [OF q, of v] by (auto simp: kQueueBits_def)
  obtain q2 where q2: "PopBatch kBatchSize q1 = ([v], q2)" "queue_of kQueueBits q2 1 []"
    using PopBatch_queue [OF q1(2), of kBatchSize] by (auto simp: kBatchSize_def)
  have none: "PopBatch kBatchSize r = ([], r)" if "queue_of kQueueBits r j []" for r :: "'a ring" and j
    using TryPopOne_Nil [OF that] by (simp add: kBatchSize_def numeral_eq_Suc)
  show thesis
    by (rule that [OF q1(1) q2(1) none [OF q2(2)] _ _ none [OF q]])
      (use Empty_queue [OF q1(2)] Empty_queue [OF q2(2)] Empty_queue [OF q] in auto)
qed

lemmas run_simps = exec_client_def exec_worker_def begin_call_def push_task_def pushes_def tp_started_def ThreadPool_Start_def
  ThreadPool_make_def WorkerData_make_def wdata_def upd_data_def count_submitted_def wake_worker_def

definition one_task :: "'a \<Rightarrow> 'a tp_event list" where
  "one_task v = [CallSubmit 0 (Some v), StepClient 0 None, StepClient 0 None, StepClient 0 None, StepClient 0 None,
     StepWorker 0, StepWorker 0, StepWorker 0]"

theorem tasks_run_once_in_order_witness:
  "let s = fold tp_exec (one_task (7::nat)) (tp_started 1 1) in
     pushed s 0 = [7] \<and> workers (pool s) ! 0 = AtTasks 1 [7] \<and> fst (PopBatch 1024 (wqueue (wdata 0 (pool s)))) = []"
proof -
  let ?s = "fold tp_exec (one_task (7::nat)) (tp_started 1 1)"
  have len: "length (one_task (7::nat)) < 2 ^ 62" "0 < max 1 (1::nat)" by (simp_all add: one_task_def)
  obtain q1 q2 where q: "TryPush 7 (MpscRingQueue_make kQueueBits) = Some (True, q1)" "PopBatch kBatchSize q1 = ([7::nat], q2)"
    by (rule one_task_ring)
  then have e: "pushed ?s 0 = [7]" "workers (pool ?s) ! 0 = AtTasks 1 [7]" by (simp_all add: one_task_def run_simps)
  moreover have "pushed ?s 0 = ran ?s 0 @ in_batch (workers (pool ?s) ! 0) @ fst (PopBatch 1024 (wqueue (wdata 0 (pool ?s))))"
    using tasks_run_once_in_order [of "one_task (7::nat)" 0 1 1, unfolded Let_def, THEN conjunct1] len by blast
  ultimately have "fst (PopBatch 1024 (wqueue (wdata 0 (pool ?s)))) = []" by (simp only: e) (simp add: Cons_eq_append_conv)
  with e show ?thesis by (simp only: Let_def)
qed

text \<open>
  C19: no wake-up is lost. Whenever all calls of \<open>Submit\<close> and \<open>Stop\<close> have returned and a worker sleeps, it has run
  every task pushed to it and the pool still accepts tasks: no task waits behind a sleeping worker, and
  no worker sleeps through \<open>Stop\<close>.
\<close>

theorem sleeping_worker_has_no_work:
  assumes "length events < 2 ^ 62" and "w < max 1 n"
    and "s = fold tp_exec events (tp_started n m)" and "list_all (client_idle \<circ> fst) (clients s)" and "workers (pool s) ! w = Asleep"
  shows "ran s w = pushed s w \<and> IsRunning (pool s)"
proof -
  have inv: "tp_inv s" using tp_run_inv [OF assms(1)] assms(3) by simp
  have w: "w < thread_count (pool s)" using assms(2,3) by (simp add: thread_count_run thread_count_started)
  have none: "\<not> some_client P s" if "\<And>pc. client_idle pc \<Longrightarrow> \<not> P pc" for P
    using assms(4) that by (auto simp: some_client_def list_all_length)
  have "\<not> some_client (will_notify w) s" "\<not> some_client (stop_notifies w) s"
    by (rule none, erule client_idle.elims; simp)+
  with inv w assms(5) have acc: "accepting_tasks (pool s)" and "Empty (wqueue (wdata w (pool s)))"
    by (auto simp: tp_inv_def wake_inv_def wakes_ok_def stops_ok_def)
  moreover obtain q where "queue_of kQueueBits (wqueue (wdata w (pool s))) (length (pushed s w)) q"
    and "pushed s w = ran s w @ in_batch (workers (pool s) ! w) @ q"
    using inv w unfolding tp_inv_def tasks_inv_def served_def by blast
  ultimately show ?thesis using served_Empty assms(5) by (fastforce simp: IsRunning_def)
qed

definition task_then_sleep :: "'a \<Rightarrow> 'a tp_event list" where
  "task_then_sleep v = one_task v @ replicate 10 (StepWorker 0)"

theorem sleeping_worker_has_no_work_witness:
  "let s = fold tp_exec (task_then_sleep (7::nat)) (tp_started 1 1) in workers (pool s) ! 0 = Asleep \<and> ran s 0 = [7] \<and> IsRunning (pool s)"
proof -
  let ?s = "fold tp_exec (task_then_sleep (7::nat)) (tp_started 1 1)"
  have len: "length (task_then_sleep (7::nat)) < 2 ^ 62" "0 < max 1 (1::nat)" by (simp_all add: one_task_def task_then_sleep_def)
  obtain q1 q2 where q: "TryPush 7 (MpscRingQueue_make kQueueBits) = Some (True, q1)" "PopBatch kBatchSize q1 = ([7::nat], q2)"
      "PopBatch kBatchSize q2 = ([], q2)" "Empty q2"
    by (rule one_task_ring)
  then have "pushed ?s 0 = [7]" "workers (pool ?s) ! 0 = Asleep" "list_all (client_idle \<circ> fst) (clients ?s)"
    by (simp_all add: one_task_def task_then_sleep_def run_simps numeral_eq_Suc)
  moreover from this have "ran ?s 0 = pushed ?s 0 \<and> IsRunning (pool ?s)" using sleeping_worker_has_no_work [OF len refl] by blast
  ultimately show ?thesis by (simp only: Let_def)
qed

text \<open>
  C20: a task can be accepted and lost. A worker that has found its queue empty reads the stop flag
  in a second step; a task submitted and a call of \<open>Stop\<close> between the two leave the task in the queue of a worker that has
  returned, although \<open>Submit\<close> returned true before \<open>Stop\<close> was called. \<open>Join\<close> then discards it.
\<close>

definition submit_before_stop :: "'a \<Rightarrow> 'a tp_event list" where
  "submit_before_stop v = StepWorker 0 # CallSubmit 0 (Some v) # replicate 4 (StepClient 0 None)"

definition stop_and_exit :: "'a tp_event list" where
  "stop_and_exit = CallStop 0 # replicate 6 (StepClient 0 None) @ [StepWorker 0]"

theorem accepted_task_lost:
  "let s = fold tp_exec (submit_before_stop v) (tp_started 1 1); s' = fold tp_exec stop_and_exit s in
     fst (clients s ! 0) = SubmitDone True \<and> \<not> stop_requested (pool s)
   \<and> pushed s' 0 = [v] \<and> ran s' 0 = [] \<and> workers (pool s') = [Exited]
   \<and> \<not> Empty (wqueue (wdata 0 (pool s'))) \<and> ThreadPool_Join (pool s') = Some ((pool s')\<lparr>workers := [], worker_data := []\<rparr>)"
proof -
  obtain q1 q2 where "TryPush v (MpscRingQueue_make kQueueBits) = Some (True, q1)" "\<not> Empty q1"
    "PopBatch kBatchSize (MpscRingQueue_make kQueueBits) = ([], MpscRingQueue_make kQueueBits :: 'a ring)"
    by (rule one_task_ring)
  note q = this
  let ?s = "fold tp_exec (submit_before_stop v) (tp_started 1 1)" and ?e = stop_and_exit
  have s: "fst (clients ?s ! 0) = SubmitDone True" "\<not> stop_requested (pool ?s)"
    using q by (simp_all add: submit_before_stop_def run_simps numeral_eq_Suc)
  have "pushed (fold tp_exec ?e ?s) 0 = [v]" "ran (fold tp_exec ?e ?s) 0 = []" "workers (pool (fold tp_exec ?e ?s)) = [Exited]"
      "\<not> Empty (wqueue (wdata 0 (pool (fold tp_exec ?e ?s))))"
    using q by (simp_all add: submit_before_stop_def stop_and_exit_def run_simps numeral_eq_Suc)
  with s show ?thesis by (simp only: Let_def ThreadPool_Join_def) simp
qed

end
