(* ===== verification/Unique_Fd.thy ===== *)
theory Unique_Fd
  imports Rpc_Prelude "HOL-Library.Multiset"
begin

text \<open>
  \<open>src/common/unique_fd.h\<close>: the owner of a file descriptor. An object is the number it holds; the
  operations that may close a descriptor extend the list of \<open>close\<close> calls. Over any sequence of
  operations a descriptor that was given to one object is in exactly one place: held by one object,
  released to the caller, or closed once.
\<close>

type_synonym UniqueFd = int

definition UniqueFd_default :: UniqueFd where
  "UniqueFd_default = - 1"

definition UniqueFd_make :: "int \<Rightarrow> UniqueFd" where
  "UniqueFd_make fd = fd"

definition Get :: "UniqueFd \<Rightarrow> int" where
  "Get u = u"

definition Valid :: "UniqueFd \<Rightarrow> bool" where
  "Valid u \<longleftrightarrow> 0 \<le> u"

definition Release :: "UniqueFd \<Rightarrow> int \<times> UniqueFd" where
  "Release u = (u, - 1)"

definition Reset :: "int \<Rightarrow> UniqueFd \<times> int list \<Rightarrow> UniqueFd \<times> int list" where
  "Reset new_fd uc = (case uc of (u, closed) \<Rightarrow> (new_fd, if 0 \<le> u then closed @ [u] else closed))"

definition UniqueFd_destroy :: "UniqueFd \<times> int list \<Rightarrow> UniqueFd \<times> int list" where
  "UniqueFd_destroy = Reset (- 1)"

text \<open>The moving constructor: the new object, and what is left in the old one.\<close>

definition UniqueFd_move :: "UniqueFd \<Rightarrow> UniqueFd \<times> UniqueFd" where
  "UniqueFd_move other = Release other"

text \<open>
  Moving assignment between the objects at two places of a store; assigning an object to itself
  does nothing.
\<close>

definition move_assign :: "nat \<Rightarrow> nat \<Rightarrow> UniqueFd list \<times> int list \<Rightarrow> UniqueFd list \<times> int list" where
  "move_assign this other sc =
     (case sc of (us, closed) \<Rightarrow>
        if this = other then (us, closed)
        else case Release (us ! other) of
               (fd, rest) \<Rightarrow>
                 (case Reset fd (us ! this, closed) of (u, closed') \<Rightarrow> (us[other := rest, this := u], closed')))"

section \<open>Conservation\<close>

datatype fd_op = Construct int | MoveConstruct nat | MoveAssign nat nat | ReleaseAt nat | ResetAt nat int | Destroy nat

text \<open>A store of objects, the \<open>close\<close> calls so far, and the descriptors released to the caller.\<close>

record fd_store =
  objects :: "UniqueFd list"
  closed :: "int list"
  released :: "int list"

fun fd_exec :: "fd_op \<Rightarrow> fd_store \<Rightarrow> fd_store" where
  "fd_exec (Construct fd) s = s\<lparr>objects := objects s @ [UniqueFd_make fd]\<rparr>"
| "fd_exec (MoveConstruct i) s =
     (if i < length (objects s)
      then case UniqueFd_move (objects s ! i) of (u, rest) \<Rightarrow> s\<lparr>objects := (objects s)[i := rest] @ [u]\<rparr>
      else s)"
| "fd_exec (MoveAssign i j) s =
     (if i < length (objects s) \<and> j < length (objects s)
      then case move_assign i j (objects s, closed s) of (us, cs) \<Rightarrow> s\<lparr>objects := us, closed := cs\<rparr>
      else s)"
| "fd_exec (ReleaseAt i) s =
     (if i < length (objects s)
      then case Release (objects s ! i) of (fd, u) \<Rightarrow> s\<lparr>objects := (objects s)[i := u], released := released s @ [fd]\<rparr>
      else s)"
| "fd_exec (ResetAt i fd) s =
     (if i < length (objects s)
      then case Reset fd (objects s ! i, closed s) of (u, cs) \<Rightarrow> s\<lparr>objects := (objects s)[i := u], closed := cs\<rparr>
      else s)"
| "fd_exec (Destroy i) s =
     (if i < length (objects s)
      then case UniqueFd_destroy (objects s ! i, closed s) of (u, cs) \<Rightarrow> s\<lparr>objects := (objects s)[i := u], closed := cs\<rparr>
      else s)"

text \<open>The descriptors that an operation takes over.\<close>

fun fd_given :: "fd_op \<Rightarrow> nat \<Rightarrow> int list" where
  "fd_given (Construct fd) n = [fd]"
| "fd_given (ResetAt i fd) n = (if i < n then [fd] else [])"
| "fd_given _ n = []"

definition valid_fds :: "int list \<Rightarrow> int multiset" where
  "valid_fds fds = filter_mset (\<lambda>fd. 0 \<le> fd) (mset fds)"

definition fd_places :: "fd_store \<Rightarrow> int multiset" where
  "fd_places s = valid_fds (objects s) + mset (closed s) + valid_fds (released s)"

lemma valid_fds_simps [simp]:
  "valid_fds [] = {#}" "valid_fds (x # xs) = (if 0 \<le> x then {#x#} else {#}) + valid_fds xs"
  "valid_fds (xs @ ys) = valid_fds xs + valid_fds ys"
  by (simp_all add: valid_fds_def)

lemma valid_fds_update:
  assumes "i < length us"
  shows "valid_fds (us[i := x]) + valid_fds [us ! i] = valid_fds us + valid_fds [x]"
proof -
  have "valid_fds us = valid_fds (take i us @ us ! i # drop (Suc i) us)"
    using id_take_nth_drop [OF assms] by simp
  then show ?thesis unfolding upd_conv_take_nth_drop [OF assms] by simp
qed

lemma fd_exec_places: "fd_places (fd_exec e s) = fd_places s + valid_fds (fd_given e (length (objects s)))"
proof (cases e)
  case (MoveAssign i j)
  show ?thesis
  proof (cases "i < length (objects s) \<and> j < length (objects s) \<and> i \<noteq> j")
    case True
    let ?us = "objects s"
    have "valid_fds (?us[j := - 1]) + valid_fds [?us ! j] = valid_fds ?us"
      using valid_fds_update [of j ?us "- 1"] True by simp
    moreover have "valid_fds (?us[j := - 1, i := ?us ! j]) + valid_fds [?us ! i] = valid_fds (?us[j := - 1]) + valid_fds [?us ! j]"
      using valid_fds_update [of i "?us[j := - 1]" "?us ! j"] True by simp
    ultimately have "valid_fds (?us[j := - 1, i := ?us ! j]) + valid_fds [?us ! i] = valid_fds ?us" by simp
    with True MoveAssign show ?thesis
      by (auto simp: move_assign_def Release_def Reset_def fd_places_def ac_simps split: if_splits)
  qed (use MoveAssign in \<open>auto simp: move_assign_def\<close>)
next
  case (MoveConstruct i)
  then show ?thesis
    using valid_fds_update [of i "objects s" "- 1"]
    by (auto simp: UniqueFd_move_def Release_def fd_places_def ac_simps split: if_splits)
next
  case (ReleaseAt i)
  then show ?thesis
    using valid_fds_update [of i "objects s" "- 1"]
    by (auto simp: Release_def fd_places_def ac_simps split: if_splits)
next
  case (ResetAt i fd)
  then show ?thesis
    using valid_fds_update [of i "objects s" fd]
    by (auto simp: Reset_def fd_places_def ac_simps split: if_splits)
next
  case (Destroy i)
  then show ?thesis
    using valid_fds_update [of i "objects s" "- 1"]
    by (auto simp: UniqueFd_destroy_def Reset_def fd_places_def ac_simps split: if_splits)
qed (simp add: fd_places_def UniqueFd_make_def ac_simps)

text \<open>The descriptors taken over in a run, and the run itself.\<close>

fun fds_given :: "fd_op list \<Rightarrow> fd_store \<Rightarrow> int list" where
  "fds_given [] s = []"
| "fds_given (e # es) s = fd_given e (length (objects s)) @ fds_given es (fd_exec e s)"

lemma fd_run_places: "fd_places (fold fd_exec es s) = fd_places s + valid_fds (fds_given es s)"
  by (induction es arbitrary: s) (simp_all add: fd_exec_places ac_simps)

text \<open>
  Ownership of descriptors. Whatever is done with a set of \<open>UniqueFd\<close> objects, each valid
  descriptor that one of them took over is in exactly one place: held by one object, released to the
  caller, or closed, and closed only once.
\<close>

lemma descriptors_have_one_owner:
  "valid_fds (objects (fold fd_exec es s0)) + mset (closed (fold fd_exec es s0)) + valid_fds (released (fold fd_exec es s0))
     = valid_fds (fds_given es s0)"
  if "s0 = \<lparr>objects = [], closed = [], released = []\<rparr>"
  using fd_run_places [of es s0] that by (simp add: fd_places_def)

end
