(* ===== verification/Worker_Dispatch.thy ===== *)
theory Worker_Dispatch
  imports Connection_Life
begin

text \<open>
  The half of \<open>src/server/worker_loop.cpp\<close> that crosses threads: requests are handed to the thread
  pool by \<open>DispatchRequestToThreadPool\<close>, run there, and come back through the completed queue. This
  state is what a connection sees behind its \<open>request_dispatcher_\<close>.

  The thread pool is seen through its contract: a task that is accepted waits until a pool thread
  takes it, in any order between the queues (\<open>Thread_Pool\<close> proves that every accepted task is
  run at most once). Where all queues are full, \<open>Submit\<close> returns only after a pool thread has made room; the
  model has it return at once.
\<close>

section \<open>State\<close>

text \<open>The closure that is submitted, as the values it captures.\<close>

record pool_task =
  pt_fd :: int
  pt_token :: u64
  pt_request :: DispatchRequest

record task_pool =
  pool_accepting :: bool
  pool_tasks :: "pool_task list"

record CompletedResponse =
  cr_fd :: int
  cr_token :: u64
  cr_sequence :: u64
  cr_request_id :: string
  cr_proto_error_code :: int
  cr_error_msg :: string
  cr_payload :: string
  cr_method_key :: string
  cr_success :: bool

record CompletedQueue =
  responses :: "CompletedResponse list"
  cq_accepting :: bool
  cq_wake_fd :: int

record dispatch_state =
  thread_pool :: "task_pool option"
  completed_queue :: "CompletedQueue option"
  in_flight_request_count :: nat
  submitted_request_count :: nat
  completed_request_count :: nat
  method_stats :: "(string \<times> (nat \<times> nat)) list"
  wake_counter :: nat

section \<open>Handing a request over\<close>

definition pool_submit :: "pool_task \<Rightarrow> task_pool \<Rightarrow> bool \<times> task_pool" where
  "pool_submit t p = (if pool_accepting p then (True, p\<lparr>pool_tasks := pool_tasks p @ [t]\<rparr>) else (False, p))"

definition DispatchRequestToThreadPool :: "int \<Rightarrow> u64 \<Rightarrow> dispatch_state RequestDispatchFn" where
  "DispatchRequestToThreadPool fd token request err d =
     (case thread_pool d of
        None \<Rightarrow> (False, map_option (\<lambda>_. ''thread pool not configured'') err, d)
      | Some p \<Rightarrow>
          (if completed_queue d = None
           then (False, map_option (\<lambda>_. ''worker completion queue not initialized'') err, d)
           else case pool_submit \<lparr>pt_fd = fd, pt_token = token, pt_request = request\<rparr> p of
                  (False, p') \<Rightarrow> (False, map_option (\<lambda>_. ''thread pool rejected task submission'') err, d\<lparr>thread_pool := Some p'\<rparr>)
                | (True, p') \<Rightarrow>
                    (True, err, d\<lparr>thread_pool := Some p', submitted_request_count := submitted_request_count d + 1,
                                   in_flight_request_count := in_flight_request_count d + 1\<rparr>)))"

section \<open>In a thread of the pool\<close>

definition RecordMethodCall :: "string \<Rightarrow> bool \<Rightarrow> dispatch_state \<Rightarrow> dispatch_state" where
  "RecordMethodCall meth success d =
     (let (calls, failures) = (case map_of (method_stats d) meth of None \<Rightarrow> (0, 0) | Some st \<Rightarrow> st) in
      d\<lparr>method_stats := put_key meth (calls + 1, if success then failures else failures + 1) (method_stats d)\<rparr>)"

definition execute_request :: "ServiceRegistry \<Rightarrow> pool_task \<Rightarrow> CompletedResponse" where
  "execute_request reg t =
     (let rq = pt_request t; key = dr_service_name rq @ ''.'' @ dr_method_name rq;
          c = \<lparr>cr_fd = pt_fd t, cr_token = pt_token t, cr_sequence = dr_sequence rq, cr_request_id = dr_request_id rq,
               cr_proto_error_code = proto_OK, cr_error_msg = [], cr_payload = [], cr_method_key = key, cr_success = False\<rparr> in
      case Find (dr_service_name rq) (dr_method_name rq) reg of
        None \<Rightarrow> c\<lparr>cr_proto_error_code := proto_METHOD_NOT_FOUND, cr_error_msg := ''method not found: '' @ key\<rparr>
      | Some handler \<Rightarrow>
          (case handler (dr_payload rq) of
             Returns p \<Rightarrow> c\<lparr>cr_payload := p, cr_success := True\<rparr>
           | ThrowsRpcError ex \<Rightarrow> c\<lparr>cr_proto_error_code := ToProtoErrorCode (ex_code ex), cr_error_msg := ex_what ex\<rparr>
           | ThrowsStdException what \<Rightarrow>
               c\<lparr>cr_proto_error_code := proto_INTERNAL_ERROR, cr_error_msg := ''handler exception: '' @ what\<rparr>
           | ThrowsUnknown \<Rightarrow>
               c\<lparr>cr_proto_error_code := proto_INTERNAL_ERROR, cr_error_msg := ''handler threw unknown exception''\<rparr>))"

text \<open>The completed response goes into the queue and the eventfd is written, if they are still there.\<close>

definition complete_request :: "CompletedResponse \<Rightarrow> dispatch_state \<Rightarrow> dispatch_state" where
  "complete_request c d =
     (case completed_queue d of
        None \<Rightarrow> d
      | Some q \<Rightarrow>
          (let q' = (if cq_accepting q then q\<lparr>responses := responses q @ [c]\<rparr> else q) in
           d\<lparr>completed_queue := Some q', wake_counter := (if cq_wake_fd q \<ge> 0 then Suc (wake_counter d) else wake_counter d)\<rparr>))"

definition run_task :: "ServiceRegistry \<Rightarrow> pool_task \<Rightarrow> dispatch_state \<Rightarrow> dispatch_state" where
  "run_task reg t d =
     (let c = execute_request reg t in complete_request c (RecordMethodCall (cr_method_key c) (cr_success c) d))"

text \<open>A pool thread takes the \<open>i\<close>-th waiting task and runs it.\<close>

definition pool_thread :: "ServiceRegistry \<Rightarrow> nat \<Rightarrow> dispatch_state \<Rightarrow> dispatch_state" where
  "pool_thread reg i d =
     (case thread_pool d of
        None \<Rightarrow> d
      | Some p \<Rightarrow>
          (if i < length (pool_tasks p)
           then run_task reg (pool_tasks p ! i)
                  (d\<lparr>thread_pool := Some (p\<lparr>pool_tasks := take i (pool_tasks p) @ drop (Suc i) (pool_tasks p)\<rparr>)\<rparr>)
           else d))"

end
