(* ===== verification/Worker_Loop.thy ===== *)
theory Worker_Loop
  imports Worker_Dispatch
begin

text \<open>
  \<open>src/server/worker_loop.h\<close> and \<open>.cpp\<close>: the event loop that owns the connections of one worker
  thread. A connection runs with the dispatch state of the worker as its \<open>world\<close>: the operations lend
  it to the connection and take it back. Every operation that closes a connection waits for its
  coroutine with \<open>task->Get()\<close>; where the coroutine has not finished, this never returns, and the result is
  \<^const>\<open>None\<close>.

  System calls are under the control of the environment: \<open>epoll_ctl\<close> consumes a script of results (it
  succeeds where the script is used up), \<open>epoll_wait\<close> is an argument, and \<open>read\<close> on the eventfd may be interrupted
  by a list of errors.
\<close>

section \<open>State\<close>

type_synonym conn = "dispatch_state conn_task"

record PendingConnection =
  pc_fd :: int
  pc_peer :: string

text \<open>
  The members of the class; \<open>epoll_interest\<close> is the content of the epoll set: for every client
  descriptor, whether \<open>EPOLLOUT\<close> is among its events. \<open>closed_fds\<close> are the client descriptors that the
  destructor of \<open>UniqueFd\<close> has closed. \<open>joinable\<close> is \<open>thread_.joinable()\<close>, and \<open>running\<close> says that this thread is in the
  loop of \<open>Run\<close>.
\<close>

record WorkerLoop =
  worker_id :: nat
  wl_registry :: ServiceRegistry
  epoll_open :: bool
  wake_fd :: "int option"
  connections :: "(int \<times> conn) list"
  pending_connections :: "PendingConnection list"
  stop_requested :: bool
  accepting_new_connections :: bool
  connection_count :: nat
  total_accepted_count :: nat
  next_connection_token :: u64
  owner_thread :: "nat option"
  dispatch :: dispatch_state
  epoll_interest :: "(int \<times> bool) list"
  ctl_script :: "errno option list"
  closed_fds :: "int list"
  joinable :: bool
  running :: bool

definition WorkerLoop_make :: "nat \<Rightarrow> ServiceRegistry \<Rightarrow> task_pool option \<Rightarrow> errno option list \<Rightarrow> WorkerLoop" where
  "WorkerLoop_make i reg tp ctl =
     \<lparr>worker_id = i, wl_registry = reg, epoll_open = False, wake_fd = None, connections = [], pending_connections = [],
      stop_requested = False, accepting_new_connections = False, connection_count = 0, total_accepted_count = 0,
      next_connection_token = 1, owner_thread = None,
      dispatch = \<lparr>thread_pool = tp, completed_queue = None, in_flight_request_count = 0, submitted_request_count = 0,
                  completed_request_count = 0, method_stats = [], wake_counter = 0\<rparr>,
      epoll_interest = [], ctl_script = ctl, closed_fds = [], joinable = False, running = False\<rparr>"

text \<open>The result of an operation that reports an error through \<open>error_msg\<close>.\<close>

type_synonym wresult = "(string option \<times> WorkerLoop) option"

definition wok :: "WorkerLoop \<Rightarrow> wresult" where "wok w = Some (None, w)"
definition wfail :: "string \<Rightarrow> WorkerLoop \<Rightarrow> wresult" where "wfail m w = Some (Some m, w)"

definition wthen :: "wresult \<Rightarrow> (WorkerLoop \<Rightarrow> wresult) \<Rightarrow> wresult" where
  "wthen r k = (case r of None \<Rightarrow> None | Some (Some m, w) \<Rightarrow> Some (Some m, w) | Some (None, w) \<Rightarrow> k w)"

definition epoll_ctl :: "WorkerLoop \<Rightarrow> errno option \<times> WorkerLoop" where
  "epoll_ctl w = (case ctl_script w of [] \<Rightarrow> (None, w) | r # rs \<Rightarrow> (r, w\<lparr>ctl_script := rs\<rparr>))"

text \<open>
  \<open>EPOLL_CTL_ADD\<close> of a client descriptor, for \<open>EPOLLIN\<close> and \<open>EPOLLRDHUP\<close>; the kernel refuses a descriptor that is
  there already (\<open>EEXIST\<close>).
\<close>

definition epoll_add :: "int \<Rightarrow> WorkerLoop \<Rightarrow> errno option \<times> WorkerLoop" where
  "epoll_add fd w =
     (if fd \<in> set (keys (epoll_interest w)) then (Some (Errno 17), w)
      else case epoll_ctl w of
             (Some e, w1) \<Rightarrow> (Some e, w1)
           | (None, w1) \<Rightarrow> (None, w1\<lparr>epoll_interest := put_key fd False (epoll_interest w1)\<rparr>))"

text \<open>Running an operation on the connection \<open>fd\<close>, with the dispatch state lent to it.\<close>

definition on_conn :: "int \<Rightarrow> (conn \<Rightarrow> conn) \<Rightarrow> WorkerLoop \<Rightarrow> WorkerLoop" where
  "on_conn fd f w =
     (case map_of (connections w) fd of
        None \<Rightarrow> w
      | Some c \<Rightarrow>
          (let c' = f (c\<lparr>world := dispatch w\<rparr>) in
           w\<lparr>connections := put_key fd c' (connections w), dispatch := world c'\<rparr>))"

section \<open>Queries\<close>

definition wl_IsOnOwnerThread :: "nat \<Rightarrow> WorkerLoop \<Rightarrow> bool" where
  "wl_IsOnOwnerThread this_thread w \<longleftrightarrow> (case owner_thread w of None \<Rightarrow> True | Some t \<Rightarrow> t = this_thread)"

definition EnsureOwnerThread :: "nat \<Rightarrow> WorkerLoop \<Rightarrow> wresult" where
  "EnsureOwnerThread this_thread w =
     (if wl_IsOnOwnerThread this_thread w then wok w else wfail ''worker loop accessed from non-owner thread'' w)"

definition WorkerId :: "WorkerLoop \<Rightarrow> nat" where "WorkerId w = worker_id w"
definition ConnectionCount :: "WorkerLoop \<Rightarrow> nat" where "ConnectionCount w = connection_count w"
definition TotalAcceptedCount :: "WorkerLoop \<Rightarrow> nat" where "TotalAcceptedCount w = total_accepted_count w"
definition InFlightRequestCount :: "WorkerLoop \<Rightarrow> nat" where "InFlightRequestCount w = in_flight_request_count (dispatch w)"
definition SubmittedRequestCount :: "WorkerLoop \<Rightarrow> nat" where "SubmittedRequestCount w = submitted_request_count (dispatch w)"
definition CompletedRequestCount :: "WorkerLoop \<Rightarrow> nat" where "CompletedRequestCount w = completed_request_count (dispatch w)"
definition IsAcceptingNewConnections :: "WorkerLoop \<Rightarrow> bool" where "IsAcceptingNewConnections w = accepting_new_connections w"

record MethodStatsSnapshot =
  ms_method :: string
  ms_call_count :: nat
  ms_failure_count :: nat

definition MethodStats :: "WorkerLoop \<Rightarrow> MethodStatsSnapshot list" where
  "MethodStats w =
     map (\<lambda>(m, calls, failures). \<lparr>ms_method = m, ms_call_count = calls, ms_failure_count = failures\<rparr>) (method_stats (dispatch w))"

section \<open>Set-up and stopping\<close>

text \<open>\<open>Init\<close>, with the results of \<open>epoll_create1\<close> and \<open>eventfd\<close>.\<close>

definition WorkerLoop_Init :: "nat \<Rightarrow> errno option \<Rightarrow> errno + int \<Rightarrow> WorkerLoop \<Rightarrow> wresult" where
  "WorkerLoop_Init this_thread create efd w =
     (case create of
        Some e \<Rightarrow> wfail (''epoll_create1 failed: '' @ strerror e) (w\<lparr>epoll_open := False\<rparr>)
      | None \<Rightarrow>
          (let w1 = w\<lparr>epoll_open := True\<rparr> in
           case efd of
             Inl e \<Rightarrow> wfail (''eventfd failed: '' @ strerror e) (w1\<lparr>wake_fd := None\<rparr>)
           | Inr fd \<Rightarrow>
               (case epoll_ctl (w1\<lparr>wake_fd := Some fd\<rparr>) of
                  (Some e, w2) \<Rightarrow> wfail (''epoll_ctl add wake fd failed: '' @ strerror e) w2
                | (None, w2) \<Rightarrow>
                    wok (w2\<lparr>owner_thread := Some this_thread,
                            dispatch := (dispatch w2)\<lparr>completed_queue := Some \<lparr>responses = [], cq_accepting = True, cq_wake_fd = fd\<rparr>\<rparr>,
                            stop_requested := False, accepting_new_connections := True\<rparr>))))"

text \<open>\<open>Start\<close> creates the thread, whose \<open>Run\<close> begins by becoming the owner.\<close>

definition WorkerLoop_Start :: "nat \<Rightarrow> WorkerLoop \<Rightarrow> wresult" where
  "WorkerLoop_Start new_thread w =
     (case wake_fd w of
        None \<Rightarrow> wfail ''worker loop not initialized'' w
      | Some fd \<Rightarrow>
          (if \<not> epoll_open w then wfail ''worker loop not initialized'' w
           else if joinable w then wfail ''worker loop already started'' w
           else wok (w\<lparr>stop_requested := False, accepting_new_connections := True,
                  dispatch := (dispatch w)\<lparr>completed_queue :=
                    map_option (\<lambda>q. q\<lparr>cq_accepting := True, cq_wake_fd := fd\<rparr>) (completed_queue (dispatch w))\<rparr>,
                  owner_thread := Some new_thread, joinable := True, running := True\<rparr>)))"

definition wl_Wakeup :: "WorkerLoop \<Rightarrow> WorkerLoop" where
  "wl_Wakeup w =
     (if wake_fd w = None then w else w\<lparr>dispatch := (dispatch w)\<lparr>wake_counter := Suc (wake_counter (dispatch w))\<rparr>\<rparr>)"

definition RequestStop :: "WorkerLoop \<Rightarrow> WorkerLoop" where
  "RequestStop w = wl_Wakeup (w\<lparr>accepting_new_connections := False, stop_requested := True\<rparr>)"

text \<open>\<open>Join\<close> waits for the thread.\<close>

definition WorkerLoop_Join :: "WorkerLoop \<Rightarrow> WorkerLoop option" where
  "WorkerLoop_Join w = (if joinable w \<and> running w then None else Some (w\<lparr>joinable := False\<rparr>))"

definition EnqueueConnection :: "int \<Rightarrow> string \<Rightarrow> WorkerLoop \<Rightarrow> wresult" where
  "EnqueueConnection fd peer_desc w =
     (if fd < 0 then wfail ''invalid client fd'' w
      else let dropped = w\<lparr>closed_fds := closed_fds w @ [fd]\<rparr> in
      if \<not> accepting_new_connections w then wfail ''worker loop is stopping and no longer accepts new connections'' dropped
      else if \<not> epoll_open w \<or> wake_fd w = None then wfail ''worker loop not initialized'' dropped
      else wok (wl_Wakeup (w\<lparr>pending_connections := pending_connections w @ [\<lparr>pc_fd = fd, pc_peer = peer_desc\<rparr>]\<rparr>)))"

section \<open>Connections\<close>

definition AddConnectionOnOwnerThread :: "conn_env \<Rightarrow> nat \<Rightarrow> int \<Rightarrow> WorkerLoop \<Rightarrow> wresult" where
  "AddConnectionOnOwnerThread E this_thread fd w =
     (let dropped = (\<lambda>v. v\<lparr>closed_fds := closed_fds v @ [fd]\<rparr>) in
      if \<not> wl_IsOnOwnerThread this_thread w then wfail ''worker loop accessed from non-owner thread'' (dropped w)
      else if \<not> epoll_open w then wfail ''worker loop not initialized'' (dropped w)
      else case epoll_add fd w of
        (Some e, w1) \<Rightarrow> wfail (''epoll_ctl add client fd failed: '' @ strerror e) (dropped w1)
      | (None, w1) \<Rightarrow>
          (let token = next_connection_token w1;
               d = (if thread_pool (dispatch w1) = None then None else Some (DispatchRequestToThreadPool fd token));
               c = BindToWorkerLoop this_thread (worker_id w1) (conn_task_make token (wl_registry w1) Options_default d (dispatch w1));
               w2 = w1\<lparr>next_connection_token := token + 1\<rparr> in
           if fd \<in> set (keys (connections w2))
           then wfail ''duplicate client fd in worker connection map''
                  (dropped ((snd (epoll_ctl w2))\<lparr>epoll_interest := erase_key fd (epoll_interest w2)\<rparr>))
           else (let w3 = on_conn fd (StartConnectionCoroutine E) (w2\<lparr>connections := connections w2 @ [(fd, c)]\<rparr>) in
                 wok (w3\<lparr>connection_count := length (connections w3), total_accepted_count := total_accepted_count w3 + 1\<rparr>))))"

definition AddConnection :: "conn_env \<Rightarrow> nat \<Rightarrow> int \<Rightarrow> WorkerLoop \<Rightarrow> wresult" where
  "AddConnection E this_thread fd w =
     (if wl_IsOnOwnerThread this_thread w then AddConnectionOnOwnerThread E this_thread fd w
      else wfail ''worker loop accessed from non-owner thread'' (w\<lparr>closed_fds := closed_fds w @ [fd]\<rparr>))"

text \<open>\<open>CloseConnection\<close> returns true whenever it returns.\<close>

definition CloseConnection :: "conn_env \<Rightarrow> int \<Rightarrow> WorkerLoop \<Rightarrow> WorkerLoop option" where
  "CloseConnection E fd w =
     (if fd \<notin> set (keys (connections w)) then Some w
      else
        (let w1 = on_conn fd (MarkClosing (resume_co E)) w;
             w2 = on_conn fd (NotifyReadable (resume_co E)) w1;
             w3 = on_conn fd (NotifyWritable (resume_co E)) w2 in
         if (case map_of (connections w3) fd of None \<Rightarrow> False | Some c \<Rightarrow> task_done c)
         then (let w4 = snd (epoll_ctl w3) in
               Some (w4\<lparr>epoll_interest := erase_key fd (epoll_interest w4), connections := erase_key fd (connections w4),
                        connection_count := length (erase_key fd (connections w4)), closed_fds := closed_fds w4 @ [fd]\<rparr>))
         else None))"

definition close_then :: "conn_env \<Rightarrow> int \<Rightarrow> WorkerLoop \<Rightarrow> wresult" where
  "close_then E fd w = (case CloseConnection E fd w of None \<Rightarrow> None | Some w' \<Rightarrow> wok w')"

definition UpdateEpollInterest :: "conn_env \<Rightarrow> int \<Rightarrow> WorkerLoop \<Rightarrow> wresult" where
  "UpdateEpollInterest E fd w =
     (case map_of (connections w) fd of
        None \<Rightarrow> wok w
      | Some c \<Rightarrow>
          (case epoll_ctl w of
             (Some e, w1) \<Rightarrow> close_then E fd w1
           | (None, w1) \<Rightarrow> wok (w1\<lparr>epoll_interest := put_key fd (HasPendingWrite c) (epoll_interest w1)\<rparr>)))"

section \<open>What a wake-up brings\<close>

text \<open>Reading the eventfd until it is empty, where the list holds the errors that come first.\<close>

fun drain_reads :: "errno list \<Rightarrow> WorkerLoop \<Rightarrow> wresult" where
  "drain_reads [] w = wok (w\<lparr>dispatch := (dispatch w)\<lparr>wake_counter := 0\<rparr>\<rparr>)"
| "drain_reads (e # es) w =
     (if e = EAGAIN \<or> e = EWOULDBLOCK then wok w
      else if e = EINTR then drain_reads es w
      else wfail (''read wake fd failed: '' @ strerror e) w)"

definition DrainWakeFd :: "nat \<Rightarrow> errno list \<Rightarrow> WorkerLoop \<Rightarrow> wresult" where
  "DrainWakeFd this_thread ints w = wthen (EnsureOwnerThread this_thread w) (drain_reads ints)"

text \<open>The loop of \<open>DrainPendingConnections\<close>; a failure destroys the connections that are left.\<close>

fun add_pending :: "conn_env \<Rightarrow> nat \<Rightarrow> PendingConnection list \<Rightarrow> WorkerLoop \<Rightarrow> wresult" where
  "add_pending E this_thread [] w = wok w"
| "add_pending E this_thread (p # ps) w =
     (case AddConnectionOnOwnerThread E this_thread (pc_fd p) w of
        None \<Rightarrow> None
      | Some (Some m, w') \<Rightarrow> Some (Some m, w'\<lparr>closed_fds := closed_fds w' @ map pc_fd ps\<rparr>)
      | Some (None, w') \<Rightarrow> add_pending E this_thread ps w')"

definition DrainPendingConnections :: "conn_env \<Rightarrow> nat \<Rightarrow> WorkerLoop \<Rightarrow> wresult" where
  "DrainPendingConnections E this_thread w =
     wthen (EnsureOwnerThread this_thread w)
       (\<lambda>w. add_pending E this_thread (pending_connections w) (w\<lparr>pending_connections := []\<rparr>))"

definition response_of :: "CompletedResponse \<Rightarrow> RpcResponse" where
  "response_of c =
     RpcResponse_init\<lparr>rsp_request_id := cr_request_id c, rsp_error_code := cr_proto_error_code c,
                      rsp_error_msg := cr_error_msg c, rsp_payload := cr_payload c\<rparr>"

definition count_completed :: "WorkerLoop \<Rightarrow> WorkerLoop" where
  "count_completed w =
     w\<lparr>dispatch := (dispatch w)
        \<lparr>in_flight_request_count :=
           (if in_flight_request_count (dispatch w) > 0 then in_flight_request_count (dispatch w) - 1 else in_flight_request_count (dispatch w)),
         completed_request_count := completed_request_count (dispatch w) + 1\<rparr>\<rparr>"

text \<open>\<open>EnqueueResponse\<close> writes its message into a local string, not into the error text of the coroutine.\<close>

definition enqueue_completed :: "conn_env \<Rightarrow> CompletedResponse \<Rightarrow> conn \<Rightarrow> bool \<times> conn" where
  "enqueue_completed E c s =
     (case EnqueueResponse E (response_of c) (s\<lparr>error_msg := Some []\<rparr>) of (ok, s') \<Rightarrow> (ok, s'\<lparr>error_msg := error_msg s\<rparr>))"

definition deliver_completed :: "conn_env \<Rightarrow> CompletedResponse \<Rightarrow> WorkerLoop \<Rightarrow> wresult" where
  "deliver_completed E c w =
     (let w1 = count_completed w in
      case map_of (connections w1) (cr_fd c) of
        None \<Rightarrow> wok w1
      | Some s \<Rightarrow>
          (if connection_token s \<noteq> cr_token c then wok w1
           else
             (case enqueue_completed E c s of
                (False, s') \<Rightarrow> close_then E (cr_fd c) (w1\<lparr>connections := put_key (cr_fd c) s' (connections w1)\<rparr>)
              | (True, s') \<Rightarrow>
                  UpdateEpollInterest E (cr_fd c)
                    (on_conn (cr_fd c) (NotifyReadable (resume_co E))
                      (w1\<lparr>connections := put_key (cr_fd c) s' (connections w1)\<rparr>)))))"

fun deliver_all :: "conn_env \<Rightarrow> CompletedResponse list \<Rightarrow> WorkerLoop \<Rightarrow> wresult" where
  "deliver_all E [] w = wok w"
| "deliver_all E (c # cs) w = wthen (deliver_completed E c w) (deliver_all E cs)"

definition DrainCompletedResponses :: "conn_env \<Rightarrow> nat \<Rightarrow> WorkerLoop \<Rightarrow> wresult" where
  "DrainCompletedResponses E this_thread w =
     wthen (EnsureOwnerThread this_thread w)
       (\<lambda>w. case completed_queue (dispatch w) of
              None \<Rightarrow> wok w
            | Some q \<Rightarrow> deliver_all E (responses q) (w\<lparr>dispatch := (dispatch w)\<lparr>completed_queue := Some (q\<lparr>responses := []\<rparr>)\<rparr>\<rparr>))"

section \<open>The loop\<close>

text \<open>The events of one descriptor: \<open>EPOLLIN\<close>, \<open>EPOLLOUT\<close>, and any of \<open>EPOLLERR\<close>, \<open>EPOLLHUP\<close>, \<open>EPOLLRDHUP\<close>.\<close>

record epoll_flags =
  ep_in :: bool
  ep_out :: bool
  ep_hup :: bool

definition tick_all :: "conn_env \<Rightarrow> WorkerLoop \<Rightarrow> WorkerLoop" where
  "tick_all E w = fold (\<lambda>fd. on_conn fd (Tick (resume_co E) (now E))) (keys (connections w)) w"

definition notify_events :: "conn_env \<Rightarrow> int \<Rightarrow> epoll_flags \<Rightarrow> WorkerLoop \<Rightarrow> WorkerLoop" where
  "notify_events E fd ev w =
     (let w1 = (if ep_in ev then on_conn fd (NotifyReadable (resume_co E)) w else w);
          w2 = (if ep_out ev then on_conn fd (NotifyWritable (resume_co E)) w1 else w1) in
      if ep_hup ev
      then on_conn fd (NotifyWritable (resume_co E)) (on_conn fd (NotifyReadable (resume_co E)) (on_conn fd (MarkClosing (resume_co E)) w2))
      else w2)"

definition handle_event :: "conn_env \<Rightarrow> int \<times> epoll_flags \<Rightarrow> WorkerLoop \<Rightarrow> wresult" where
  "handle_event E ev w =
     (let fd = fst ev in
      if wake_fd w = Some fd then wok w
      else if fd \<notin> set (keys (connections w)) then wok w
      else
        (let w1 = notify_events E fd (snd ev) w in
         case map_of (connections w1) fd of
           None \<Rightarrow> wok w1
         | Some c \<Rightarrow>
             (if \<not> coroutine_ok c then close_then E fd w1
              else if should_close c then close_then E fd w1
              else UpdateEpollInterest E fd w1)))"

fun handle_events :: "conn_env \<Rightarrow> (int \<times> epoll_flags) list \<Rightarrow> WorkerLoop \<Rightarrow> wresult" where
  "handle_events E [] w = wok w"
| "handle_events E (ev # evs) w = wthen (handle_event E ev w) (handle_events E evs)"

definition wake_drains :: "conn_env \<Rightarrow> nat \<Rightarrow> errno list \<Rightarrow> WorkerLoop \<Rightarrow> wresult" where
  "wake_drains E this_thread ints w =
     wthen (wthen (DrainWakeFd this_thread ints w) (DrainPendingConnections E this_thread)) (DrainCompletedResponses E this_thread)"

definition PollOnce :: "conn_env \<Rightarrow> nat \<Rightarrow> errno list \<Rightarrow> errno + (int \<times> epoll_flags) list \<Rightarrow> WorkerLoop \<Rightarrow> wresult" where
  "PollOnce E this_thread ints ready w =
     wthen (EnsureOwnerThread this_thread w)
       (\<lambda>w. if \<not> epoll_open w then wfail ''worker loop not initialized'' w
            else case ready of
              Inl e \<Rightarrow> (if e = EINTR then wok w else wfail (''worker epoll_wait failed: '' @ strerror e) w)
            | Inr events \<Rightarrow>
                wthen (if (\<exists>ev \<in> set events. wake_fd w = Some (fst ev)) then wake_drains E this_thread ints w else wok w)
                  (\<lambda>w. handle_events E events (tick_all E w)))"

fun close_fds :: "conn_env \<Rightarrow> int list \<Rightarrow> WorkerLoop \<Rightarrow> WorkerLoop option" where
  "close_fds E [] w = Some w"
| "close_fds E (fd # fds) w = (case CloseConnection E fd w of None \<Rightarrow> None | Some w' \<Rightarrow> close_fds E fds w')"

definition CloseAllConnections :: "conn_env \<Rightarrow> WorkerLoop \<Rightarrow> WorkerLoop option" where
  "CloseAllConnections E w = close_fds E (keys (connections w)) w"

text \<open>The end of \<open>Run\<close>: what is still queued is taken over, then everything is closed.\<close>

definition drop_result :: "wresult \<Rightarrow> WorkerLoop option" where
  "drop_result r = map_option snd r"

definition Run_exit :: "conn_env \<Rightarrow> nat \<Rightarrow> errno list \<Rightarrow> WorkerLoop \<Rightarrow> WorkerLoop option" where
  "Run_exit E this_thread ints w =
     (let w1 = w\<lparr>accepting_new_connections := False\<rparr>;
          r = (case DrainWakeFd this_thread ints w1 of
                 Some (None, w2) \<Rightarrow>
                   Option.bind (drop_result (DrainPendingConnections E this_thread w2))
                     (\<lambda>w3. drop_result (DrainCompletedResponses E this_thread w3))
               | x \<Rightarrow> drop_result x) in
      Option.bind r (\<lambda>w4. Option.bind (CloseAllConnections E w4) (\<lambda>w5.
        Some (w5\<lparr>dispatch := (dispatch w5)\<lparr>completed_queue :=
                   map_option (\<lambda>q. q\<lparr>cq_accepting := False, cq_wake_fd := - 1\<rparr>) (completed_queue (dispatch w5))\<rparr>,
                 running := False\<rparr>))))"

text \<open>One turn of the loop of \<open>Run\<close>.\<close>

definition Run_turn :: "conn_env \<Rightarrow> nat \<Rightarrow> errno list \<Rightarrow> errno list \<Rightarrow> errno + (int \<times> epoll_flags) list \<Rightarrow> WorkerLoop \<Rightarrow> WorkerLoop option" where
  "Run_turn E this_thread ints exit_ints ready w =
     (if \<not> running w then Some w
      else if stop_requested w then Run_exit E this_thread exit_ints w
      else case PollOnce E this_thread ints ready w of
             None \<Rightarrow> None
           | Some (None, w') \<Rightarrow> Some w'
           | Some (Some m, w') \<Rightarrow> Run_exit E this_thread exit_ints w')"

end
