(* ===== verification/Worker_Lending.thy ===== *)
theory Worker_Lending
  imports Worker_Loop
begin

text \<open>
  What a connection does with the dispatch state that the worker lends it: it can only hand over
  requests under its own descriptor and token. The statement is an invariant of the data of a
  connection, so the coroutine and every notification keep it (\<open>conn_invariant\<close>).
\<close>

definition submitted_tasks :: "pool_task list \<Rightarrow> dispatch_state \<Rightarrow> dispatch_state" where
  "submitted_tasks ts d =
     d\<lparr>thread_pool := map_option (\<lambda>p. p\<lparr>pool_tasks := pool_tasks p @ ts\<rparr>) (thread_pool d),
       submitted_request_count := submitted_request_count d + length ts,
       in_flight_request_count := in_flight_request_count d + length ts\<rparr>"

definition handed_over :: "int \<Rightarrow> u64 \<Rightarrow> dispatch_state \<Rightarrow> dispatch_state \<Rightarrow> bool" where
  "handed_over fd token d d' \<longleftrightarrow>
     (\<exists>ts. d' = submitted_tasks ts d \<and> (\<forall>t \<in> set ts. pt_fd t = fd \<and> pt_token t = token)
        \<and> (ts \<noteq> [] \<longrightarrow> thread_pool d \<noteq> None))"

lemma handed_over_refl [simp]: "handed_over fd token d d"
  by (auto simp: handed_over_def submitted_tasks_def option.map_id0 intro!: exI [of _ "[]"])
     (cases d; cases "thread_pool d"; simp)

lemma handed_over_step:
  assumes "handed_over fd token d0 d" and "DispatchRequestToThreadPool fd token rq err d = (ok, err', d')"
  shows "handed_over fd token d0 d'"
proof -
  obtain ts where ts: "d = submitted_tasks ts d0" "\<forall>t \<in> set ts. pt_fd t = fd \<and> pt_token t = token" "ts \<noteq> [] \<longrightarrow> thread_pool d0 \<noteq> None"
    using assms(1) by (auto simp: handed_over_def)
  let ?t = "\<lparr>pt_fd = fd, pt_token = token, pt_request = rq\<rparr>"
  have "d' = d \<or> thread_pool d0 \<noteq> None \<and> d' = submitted_tasks (ts @ [?t]) d0"
    using assms(2) ts(1)
    by (cases d0) (auto simp: DispatchRequestToThreadPool_def pool_submit_def submitted_tasks_def split: option.splits if_splits)
  then show ?thesis
  proof
    assume "d' = d" with assms(1) show ?thesis by simp
  next
    assume "thread_pool d0 \<noteq> None \<and> d' = submitted_tasks (ts @ [?t]) d0"
    with ts(2) show ?thesis by (auto simp: handed_over_def intro!: exI [of _ "ts @ [?t]"])
  qed
qed

definition pool_dispatcher :: "bool \<Rightarrow> int \<Rightarrow> u64 \<Rightarrow> dispatch_state RequestDispatchFn option" where
  "pool_dispatcher pooled fd token = (if pooled then Some (DispatchRequestToThreadPool fd token) else None)"

definition lent :: "bool \<Rightarrow> int \<Rightarrow> u64 \<Rightarrow> dispatch_state \<Rightarrow> conn \<Rightarrow> bool" where
  "lent pooled fd token d s \<longleftrightarrow>
     connection_token s = token \<and> request_dispatcher s = pool_dispatcher pooled fd token \<and> handed_over fd token d (world s)"

lemma token_more: "connection.more s' = connection.more s \<Longrightarrow> connection_token s' = connection_token (s :: ('w, 'z) conn_task_scheme)"
  by (cases s; cases s') simp

lemma lent_EnterError_self: "lent b fd token d (EnterError resume_self m s) = lent b fd token d s"
  by (simp add: lent_def EnterError_def Let_def ClearReadDeadline_def ClearWriteDeadline_def ResumeReadWaiter_def
      ResumeWriteWaiter_def resume_self_def split: option.split)

lemma lent_cong:
  "connection_token s' = connection_token s \<Longrightarrow> request_dispatcher s' = request_dispatcher s \<Longrightarrow> world s' = world s
   \<Longrightarrow> lent b fd token d s' = lent b fd token d s"
  by (simp add: lent_def)

lemma lent_handle_frame:
  assumes "lent b fd token d s" and "handle_frame E body s = (ok, s')"
  shows "lent b fd token d s'"
proof -
  note f = write_side_onlyD [OF handle_frame_write_side [OF assms(2)]]
  have "world s' = world s \<or> (\<exists>rq err x y. DispatchRequestToThreadPool fd token rq err (world s) = (x, y, world s'))"
    using assms
    by (auto simp: handle_frame_def EnqueueResponse_def QueueResponse_def Let_def set_error_def ArmWriteDeadline_def lent_def
        pool_dispatcher_def dispatch_request_def split: option.splits if_splits prod.splits sum.splits)
  then have "handed_over fd token d (world s')"
    using assms(1) by (auto simp: lent_def intro: handed_over_step)
  with assms(1) f(7) token_more [OF f(18)] show ?thesis by (simp add: lent_def)
qed

lemma lent_handle_all: "lent b fd token d s \<Longrightarrow> handle_all E bs s = (ok, s') \<Longrightarrow> lent b fd token d s'"
proof (induction bs arbitrary: s)
  case (Cons body bs)
  obtain k t where "handle_frame E body s = (k, t)" by fastforce
  with Cons lent_handle_frame show ?case by (cases k) fastforce+
qed simp

lemma lent_TryParseRequests:
  assumes "lent b fd token d s" and "buffer_ok (read_buffer s)" and "TryParseRequests E s = (ok, s')"
  shows "lent b fd token d s'"
proof -
  obtain bodies rest fok where fr: "frames (peek_string_view (read_buffer s)) = (bodies, rest, fok)" by (metis prod.collapse)
  obtain hok h where h: "handle_all E bodies s = (hok, h)" by fastforce
  obtain rb where "s' = (if hok \<and> \<not> fok then set_error ''invalid request frame length'' else id) (h\<lparr>read_buffer := rb\<rparr>)"
    using TryParseRequests_frames [OF assms(2) fr h] assms(3) by auto
  with lent_handle_all [OF assms(1) h] show ?thesis by (auto simp: lent_def set_error_def split: if_splits)
qed

lemma lent_on_readable:
  assumes "lent b fd token d s" and "running_ok s" and "OnReadable resume_self E s = (ok, s')"
  shows "lent b fd token d s'"
proof -
  obtain r s1 where rd: "ReadFromSocket s = (r, s1)" by fastforce
  note f = read_side_onlyD [OF ReadFromSocket_frame [OF rd]]
  have l1: "lent b fd token d s1" using assms(1) f(5,20) conn_task_more_cong(4) [OF f(21)] by (simp add: lent_def)
  have b1: "buffer_ok (read_buffer s1)" using io_ok_read_side [OF _ rd] assms(2) by (simp add: running_ok_def io_ok_def)
  obtain k s2 where pr: "TryParseRequests E s1 = (k, s2)" by fastforce
  have l2: "lent b fd token d s2" by (rule lent_TryParseRequests [OF l1 b1 pr])
  show ?thesis
  proof (cases r)
    case kData
    with assms(3) rd pr l2 show ?thesis
      by (cases k) (auto simp: OnReadable_def lent_EnterError_self, simp add: lent_def)
  qed (use assms(3) rd l1 in \<open>auto simp: OnReadable_def lent_EnterError_self\<close>, simp add: lent_def)
qed

lemma lent_on_writable:
  assumes "lent b fd token d s" and "OnWritable resume_self E s = (ok, s')"
  shows "lent b fd token d s'"
proof -
  obtain k s1 where fl: "FlushWrites E s = (k, s1)" by fastforce
  note f = send_side_onlyD [OF FlushWrites_frame [OF fl]]
  have l1: "lent b fd token d s1" using assms(1) f(5,15) conn_task_more_cong(4) [OF f(17)] by (simp add: lent_def)
  with assms(2) fl show ?thesis
    by (cases k; cases "HasPendingWrite s1")
      (auto simp: OnWritable_def lent_EnterError_self, simp_all add: lent_def ClearWriteDeadline_def ArmWriteDeadline_def)
qed

lemma lent_lifecycle:
  assumes "lent b fd token d s" and "io_part s' = io_part s" and "connection_token s' = connection_token s"
  shows "lent b fd token d s'"
  using assms(1,3) arg_cong [OF assms(2), of world] arg_cong [OF assms(2), of request_dispatcher]
  by (simp add: lent_def io_part_def connection.defs)

interpretation lend: conn_invariant E "lent b fd token d" for E b fd token d
  by unfold_locales (auto intro: lent_lifecycle lent_on_readable lent_on_writable)

lemma env_now [simp]: "E\<lparr>now := now E\<rparr> = (E :: conn_env)"
  by simp

text \<open>The operations of the worker on a connection, with what they keep.\<close>

definition conn_op :: "(conn \<Rightarrow> conn) \<Rightarrow> bool" where
  "conn_op f \<longleftrightarrow> (\<forall>s. parked s \<longrightarrow> parked (f s) \<and> (\<forall>b fd token d. lent b fd token d s \<longrightarrow> lent b fd token d (f s)))"

lemma conn_op_notify:
  "conn_op (NotifyReadable (resume_co E))" "conn_op (NotifyWritable (resume_co E))"
  "conn_op (MarkClosing (resume_co E))" "conn_op (Tick (resume_co E) t)"
  using lend.keeps_NotifyReadable [where E = E and t = "now E"] lend.keeps_NotifyWritable [where E = E and t = "now E"]
    lend.keeps_closing(1) [where E' = E] lend.keeps_Tick [where E' = E and t = t]
  by (auto simp: conn_op_def NotifyReadable_parks NotifyWritable_parks MarkClosing_finishes Tick_parks)

lemma conn_op_comp: "conn_op f \<Longrightarrow> conn_op g \<Longrightarrow> conn_op (\<lambda>s. f (g s))"
  by (simp add: conn_op_def)

end
