(* ===== verification/Worker_Run.thy ===== *)
theory Worker_Run
  imports Worker_Lending "HOL-Library.Multiset"
begin

text \<open>
  The invariant of a worker loop and its runs. The invariant says that the connections are parked,
  carry distinct tokens below the next one and their own dispatcher, that the epoll set is exactly
  the set of connections with \<open>EPOLLOUT\<close> registered for those with output, and that the counters of requests
  agree with the tasks and responses under way. Every operation keeps it and returns.
\<close>

section \<open>Invariant\<close>

definition tasks_of :: "dispatch_state \<Rightarrow> pool_task list" where
  "tasks_of d = (case thread_pool d of None \<Rightarrow> [] | Some p \<Rightarrow> pool_tasks p)"

definition responses_of :: "dispatch_state \<Rightarrow> CompletedResponse list" where
  "responses_of d = (case completed_queue d of None \<Rightarrow> [] | Some q \<Rightarrow> responses q)"

definition collects :: "dispatch_state \<Rightarrow> bool" where
  "collects d = (case completed_queue d of None \<Rightarrow> False | Some q \<Rightarrow> cq_accepting q)"

text \<open>\<open>k\<close> is the number of responses that have been taken out of the queue and not been counted yet.\<close>

definition counts_ok :: "nat \<Rightarrow> dispatch_state \<Rightarrow> bool" where
  "counts_ok k d \<longleftrightarrow>
     submitted_request_count d = in_flight_request_count d + completed_request_count d
   \<and> length (tasks_of d) + length (responses_of d) + k \<le> in_flight_request_count d
   \<and> (collects d \<longrightarrow> in_flight_request_count d = length (tasks_of d) + length (responses_of d) + k)"

definition tokens_below :: "u64 \<Rightarrow> dispatch_state \<Rightarrow> bool" where
  "tokens_below n d \<longleftrightarrow> (\<forall>t \<in> set (tasks_of d). pt_token t < n) \<and> (\<forall>r \<in> set (responses_of d). cr_token r < n)"

text \<open>A task or response with the token of a connection carries its descriptor.\<close>

definition routed :: "(int \<times> conn) list \<Rightarrow> dispatch_state \<Rightarrow> bool" where
  "routed cs d \<longleftrightarrow>
     (\<forall>fd c. map_of cs fd = Some c \<longrightarrow> (\<forall>t \<in> set (tasks_of d). pt_token t = connection_token c \<longrightarrow> pt_fd t = fd)
        \<and> (\<forall>r \<in> set (responses_of d). cr_token r = connection_token c \<longrightarrow> cr_fd r = fd))"

definition conn_ok :: "WorkerLoop \<Rightarrow> int \<Rightarrow> conn \<Rightarrow> bool" where
  "conn_ok w fd c \<longleftrightarrow>
     parked c \<and> request_dispatcher c = pool_dispatcher (thread_pool (dispatch w) \<noteq> None) fd (connection_token c)
   \<and> connection_token c < next_connection_token w"

definition core :: "nat \<Rightarrow> WorkerLoop \<Rightarrow> bool" where
  "core k w \<longleftrightarrow>
     distinct (keys (connections w)) \<and> connection_count w = length (connections w)
   \<and> set (keys (epoll_interest w)) = set (keys (connections w))
   \<and> (\<forall>fd c. map_of (connections w) fd = Some c \<longrightarrow> conn_ok w fd c)
   \<and> (\<forall>fd fd' c c'. map_of (connections w) fd = Some c \<and> map_of (connections w) fd' = Some c'
        \<and> connection_token c = connection_token c' \<longrightarrow> fd = fd')
   \<and> tokens_below (next_connection_token w) (dispatch w) \<and> counts_ok k (dispatch w) \<and> routed (connections w) (dispatch w)"

definition exact :: "WorkerLoop \<Rightarrow> int \<Rightarrow> bool" where
  "exact w fd \<longleftrightarrow> (\<forall>c. map_of (connections w) fd = Some c \<longrightarrow> map_of (epoll_interest w) fd = Some (HasPendingWrite c))"

text \<open>The invariant, and the invariant while the connection \<open>fd\<close> is being served.\<close>

definition wl_inv :: "nat \<Rightarrow> WorkerLoop \<Rightarrow> bool" where
  "wl_inv k w \<longleftrightarrow> core k w \<and> (\<forall>fd. exact w fd)"

definition wl_inv_but :: "int \<Rightarrow> nat \<Rightarrow> WorkerLoop \<Rightarrow> bool" where
  "wl_inv_but fd k w \<longleftrightarrow> core k w \<and> (\<forall>fd'. fd' \<noteq> fd \<longrightarrow> exact w fd')"

text \<open>The client descriptors that the worker has been given and what became of them.\<close>

definition owned :: "WorkerLoop \<Rightarrow> int multiset" where
  "owned w = mset (keys (connections w)) + mset (map pc_fd (pending_connections w)) + mset (closed_fds w)"

text \<open>What the operations leave alone, and what the operations on existing connections leave alone.\<close>

definition static0 :: "WorkerLoop \<Rightarrow> _" where
  "static0 w = (wake_fd w, epoll_open w, owner_thread w, running w, joinable w, stop_requested w, accepting_new_connections w,
     wl_registry w, pending_connections w, completed_queue (dispatch w))"

definition static :: "WorkerLoop \<Rightarrow> _" where
  "static w = (static0 w, next_connection_token w, owned w)"

lemma static0D:
  assumes "static0 w' = static0 w"
  shows "wake_fd w' = wake_fd w" "epoll_open w' = epoll_open w" "owner_thread w' = owner_thread w" "running w' = running w"
    "stop_requested w' = stop_requested w" "accepting_new_connections w' = accepting_new_connections w"
    "wl_registry w' = wl_registry w" "pending_connections w' = pending_connections w"
    "completed_queue (dispatch w') = completed_queue (dispatch w)"
  using assms by (simp_all add: static0_def)

lemma staticD:
  assumes "static w' = static w"
  shows "static0 w' = static0 w" "next_connection_token w' = next_connection_token w" "owned w' = owned w"
  using assms by (simp_all add: static_def)

lemma wl_inv_but: "wl_inv k w \<Longrightarrow> wl_inv_but fd k w"
  by (simp add: wl_inv_def wl_inv_but_def)

lemma keys_put_present: "k \<in> set (keys m) \<Longrightarrow> keys (put_key k v m) = keys m"
  by (induction k v m rule: put_key.induct) (auto simp: keys_def)

lemma length_put_present: "k \<in> set (keys m) \<Longrightarrow> length (put_key k v m) = length m"
  by (simp add: length_put_key)

lemma parked_world [simp]: "parked (s\<lparr>world := d\<rparr>) = parked (s :: conn)" "parked (s\<lparr>error_msg := e\<rparr>) = parked s"
  by (simp_all add: parked_def io_ok_def write_ok_def pending_data_def at_readable_def at_writable_def finished_def HasPendingWrite_def)

section \<open>Serving one connection\<close>

lemma handed_over_tasks:
  assumes "handed_over fd token d d'"
  obtains ts where "tasks_of d' = tasks_of d @ ts" "\<forall>t \<in> set ts. pt_fd t = fd \<and> pt_token t = token"
    "responses_of d' = responses_of d" "collects d' = collects d" "submitted_request_count d' = submitted_request_count d + length ts"
    "in_flight_request_count d' = in_flight_request_count d + length ts" "completed_request_count d' = completed_request_count d"
    "(thread_pool d' = None) = (thread_pool d = None)" "completed_queue d' = completed_queue d"
proof -
  obtain ts where ts: "d' = submitted_tasks ts d" "\<forall>t \<in> set ts. pt_fd t = fd \<and> pt_token t = token" "ts \<noteq> [] \<longrightarrow> thread_pool d \<noteq> None"
    using assms(1) by (auto simp: handed_over_def)
  have "tasks_of d' = tasks_of d @ ts" using ts(1,3) by (cases "thread_pool d") (simp_all add: tasks_of_def submitted_tasks_def)
  then show thesis
    by (rule that) (use ts(1,2) in \<open>simp_all add: responses_of_def collects_def submitted_tasks_def\<close>)
qed

lemma routed_mono:
  "routed cs d \<Longrightarrow> map_of cs' \<subseteq>\<^sub>m map_of cs \<Longrightarrow> set (tasks_of d') \<subseteq> set (tasks_of d) \<Longrightarrow> set (responses_of d') \<subseteq> set (responses_of d)
   \<Longrightarrow> routed cs' d'"
  unfolding routed_def map_le_def dom_def by (metis (mono_tags, lifting) mem_Collect_eq option.distinct(1) subsetD)

lemma handed_over_effect:
  assumes "handed_over fd token d d'" and "tokens_below n d" and "counts_ok k d" and "token < n"
  shows "tokens_below n d'" "counts_ok k d'" "(thread_pool d' = None) = (thread_pool d = None)" "completed_queue d' = completed_queue d"
proof -
  obtain ts where ts: "tasks_of d' = tasks_of d @ ts" "\<forall>t \<in> set ts. pt_fd t = fd \<and> pt_token t = token"
    "responses_of d' = responses_of d" "collects d' = collects d" "submitted_request_count d' = submitted_request_count d + length ts"
    "in_flight_request_count d' = in_flight_request_count d + length ts" "completed_request_count d' = completed_request_count d"
    "(thread_pool d' = None) = (thread_pool d = None)" "completed_queue d' = completed_queue d"
    by (rule handed_over_tasks [OF assms(1)])
  show "tokens_below n d'" using assms(2,4) ts(1-3) by (auto simp: tokens_below_def)
  show "counts_ok k d'" using assms(3) ts(1,3-7) by (auto simp: counts_ok_def)
  show "(thread_pool d' = None) = (thread_pool d = None)" "completed_queue d' = completed_queue d" by (rule ts(8), rule ts(9))
qed

lemma on_conn_some:
  assumes "core k w" and "map_of (connections w) fd = Some c" and "conn_op f"
  obtains c' where "on_conn fd f w = w\<lparr>connections := put_key fd c' (connections w), dispatch := world c'\<rparr>" "c' = f (c\<lparr>world := dispatch w\<rparr>)"
    "parked c'" "connection_token c' = connection_token c" "request_dispatcher c' = request_dispatcher c"
    "handed_over fd (connection_token c) (dispatch w) (world c')"
proof -
  let ?b = "thread_pool (dispatch w) \<noteq> None" and ?s = "c\<lparr>world := dispatch w\<rparr>"
  have ok: "conn_ok w fd c" using assms(1,2) by (simp add: core_def)
  then have "lent ?b fd (connection_token c) (dispatch w) ?s" "parked ?s" by (simp_all add: conn_ok_def lent_def)
  with assms(3) have "lent ?b fd (connection_token c) (dispatch w) (f ?s)" "parked (f ?s)" unfolding conn_op_def by blast+
  then show thesis
    by (intro that [of "f ?s"]) (use assms(2) ok in \<open>simp_all add: on_conn_def Let_def lent_def conn_ok_def\<close>)
qed

lemma core_put:
  assumes "core k w" and "map_of (connections w) fd = Some c" and "parked c'" and "connection_token c' = connection_token c"
    and "request_dispatcher c' = request_dispatcher c" and "handed_over fd (connection_token c) (dispatch w) d'"
  shows "core k (w\<lparr>connections := put_key fd c' (connections w), dispatch := d'\<rparr>)"
proof -
  have key: "fd \<in> set (keys (connections w))" using assms(2) by (rule keys_of_Some)
  have ok: "conn_ok w fd c" using assms(1,2) by (simp add: core_def)
  note h = handed_over_effect [OF assms(6)]
  have d: "tokens_below (next_connection_token w) d'" "counts_ok k d'" "(thread_pool d' = None) = (thread_pool (dispatch w) = None)"
    using h assms(1) ok by (auto simp: core_def conn_ok_def)
  let ?w = "w\<lparr>connections := put_key fd c' (connections w), dispatch := d'\<rparr>"
  have "conn_ok ?w fd' x" if "map_of (connections ?w) fd' = Some x" for fd' x
    using that assms(1,3-5) ok d(3) by (auto simp: core_def conn_ok_def split: if_splits)
  moreover have "fd1 = fd2" if t: "map_of (connections ?w) fd1 = Some x1" "map_of (connections ?w) fd2 = Some x2"
      "connection_token x1 = connection_token x2" for fd1 fd2 x1 x2
  proof -
    obtain y1 y2 where "map_of (connections w) fd1 = Some y1" "connection_token y1 = connection_token x1"
      "map_of (connections w) fd2 = Some y2" "connection_token y2 = connection_token x2"
      using t(1,2) assms(2,4) by (auto split: if_splits)
    with assms(1) t(3) show ?thesis unfolding core_def by metis
  qed
  moreover have "routed (connections ?w) d'"
  proof -
    obtain ts where ts: "tasks_of d' = tasks_of (dispatch w) @ ts" "\<forall>t \<in> set ts. pt_fd t = fd \<and> pt_token t = connection_token c"
      "responses_of d' = responses_of (dispatch w)"
      by (rule handed_over_tasks [OF assms(6)])
    have old: "\<exists>y. map_of (connections w) x = Some y \<and> connection_token y = connection_token z" if "map_of (connections ?w) x = Some z" for x z
      using that assms(2,4) by (auto split: if_splits)
    have r: "routed (connections w) (dispatch w)" using assms(1) by (simp add: core_def)
    show ?thesis
      unfolding routed_def
    proof (intro allI impI conjI ballI)
      fix x z
      assume z: "map_of (connections ?w) x = Some z"
      obtain y where y: "map_of (connections w) x = Some y" "connection_token y = connection_token z" using old [OF z] by blast
      have x: "x = fd" if "connection_token z = connection_token c"
        using y that assms(1,2) unfolding core_def by metis
      show "pt_fd t = x" if "t \<in> set (tasks_of d')" "pt_token t = connection_token z" for t
        using that ts(1,2) x r y unfolding routed_def by (cases "t \<in> set ts") auto
      show "cr_fd q = x" if "q \<in> set (responses_of d')" "cr_token q = connection_token z" for q
        using that ts(3) r y unfolding routed_def by auto
    qed
  qed
  ultimately show ?thesis
    using assms(1) key d(1,2) unfolding core_def
    by (simp add: keys_put_present length_put_present del: map_of_put_key)
qed

lemma on_conn_inv_but:
  assumes "wl_inv_but fd k w" and "conn_op f"
  shows "wl_inv_but fd k (on_conn fd f w)" "static (on_conn fd f w) = static w" "keys (connections (on_conn fd f w)) = keys (connections w)"
proof -
  have "wl_inv_but fd k (on_conn fd f w) \<and> static (on_conn fd f w) = static w \<and> keys (connections (on_conn fd f w)) = keys (connections w)"
  proof (cases "map_of (connections w) fd")
    case None
    with assms(1) show ?thesis by (simp add: on_conn_def)
  next
    case (Some c)
    have core: "core k w" using assms(1) by (simp add: wl_inv_but_def)
    obtain c' where c': "on_conn fd f w = w\<lparr>connections := put_key fd c' (connections w), dispatch := world c'\<rparr>"
      and p: "parked c'" "connection_token c' = connection_token c" "request_dispatcher c' = request_dispatcher c"
        "handed_over fd (connection_token c) (dispatch w) (world c')"
      by (rule on_conn_some [OF core Some assms(2)])
    have key: "fd \<in> set (keys (connections w))" using Some by (rule keys_of_Some)
    have "completed_queue (world c') = completed_queue (dispatch w)"
      using handed_over_effect(4) [OF p(4)] core Some by (auto simp: core_def conn_ok_def)
    with core_put [OF core Some p] assms(1) show ?thesis
      unfolding c' by (auto simp: wl_inv_but_def exact_def static_def static0_def owned_def keys_put_present [OF key])
  qed
  then show "wl_inv_but fd k (on_conn fd f w)" "static (on_conn fd f w) = static w" "keys (connections (on_conn fd f w)) = keys (connections w)"
    by blast+
qed

lemma put_key_twice: "put_key k v (put_key k u m) = put_key k v m"
  by (induction k u m rule: put_key.induct) auto

lemma on_conn_comp: "on_conn fd g (on_conn fd f w) = on_conn fd (\<lambda>s. g (f s)) w"
  by (simp add: on_conn_def Let_def put_key_twice split: option.split)

lemma hang_up_finishes:
  "parked s \<Longrightarrow> task_done (NotifyWritable (resume_co E) (NotifyReadable (resume_co E) (MarkClosing (resume_co E) (s :: conn))))"
  using MarkClosing_finishes [of s E]
  by (auto simp: NotifyReadable_def NotifyWritable_def ResumeReadWaiter_def ResumeWriteWaiter_def finished_def)

lemma conn_op_hang_up: "conn_op (\<lambda>s. NotifyWritable (resume_co E) (NotifyReadable (resume_co E) (MarkClosing (resume_co E) s)))"
  by (rule conn_op_comp [OF conn_op_notify(2) conn_op_comp [OF conn_op_notify(1,3)]])

lemma snd_epoll_ctl: "snd (epoll_ctl w) = w\<lparr>ctl_script := tl (ctl_script w)\<rparr>"
  by (cases "ctl_script w") (simp_all add: epoll_ctl_def)

lemma epoll_ctl_facts [simp]:
  "core k (snd (epoll_ctl w)) = core k w" "exact (snd (epoll_ctl w)) fd = exact w fd" "static (snd (epoll_ctl w)) = static w"
  "connections (snd (epoll_ctl w)) = connections w" "epoll_interest (snd (epoll_ctl w)) = epoll_interest w"
  "closed_fds (snd (epoll_ctl w)) = closed_fds w" "dispatch (snd (epoll_ctl w)) = dispatch w"
  "pending_connections (snd (epoll_ctl w)) = pending_connections w" "next_connection_token (snd (epoll_ctl w)) = next_connection_token w"
  "connection_count (snd (epoll_ctl w)) = connection_count w" "wl_registry (snd (epoll_ctl w)) = wl_registry w"
  unfolding snd_epoll_ctl by (simp_all add: core_def conn_ok_def exact_def static_def static0_def owned_def)

lemma mset_erase_key: "distinct (keys m) \<Longrightarrow> k \<in> set (keys m) \<Longrightarrow> mset (keys m) = add_mset k (mset (keys (erase_key k m)))"
proof -
  assume d: "distinct (keys m)" "k \<in> set (keys m)"
  then have "mset (keys m) = mset_set (set (keys m))" "mset (keys (erase_key k m)) = mset_set (set (keys m) - {k})"
    by (simp_all flip: mset_set_set)
  with d(2) show ?thesis by (simp add: mset_set.remove)
qed

definition forget :: "int \<Rightarrow> WorkerLoop \<Rightarrow> WorkerLoop" where
  "forget fd w = w\<lparr>epoll_interest := erase_key fd (epoll_interest w), connections := erase_key fd (connections w),
     connection_count := length (erase_key fd (connections w)), closed_fds := closed_fds w @ [fd]\<rparr>"

lemma forget_inv:
  assumes "wl_inv_but fd k w" and "fd \<in> set (keys (connections w))"
  shows "wl_inv k (forget fd w)" "static (forget fd w) = static w"
proof -
  have d: "distinct (keys (connections w))" using assms(1) by (simp add: wl_inv_but_def core_def)
  show "static (forget fd w) = static w" using mset_erase_key [OF d assms(2)] by (simp add: static_def static0_def forget_def owned_def)
  have "routed (erase_key fd (connections w)) (dispatch w)"
    by (rule routed_mono [of "connections w" "dispatch w"]) (use assms(1) in \<open>auto simp: wl_inv_but_def core_def map_le_def\<close>)
  then have "core k (forget fd w)" using assms(1) unfolding wl_inv_but_def core_def by (auto simp: forget_def conn_ok_def)
  then show "wl_inv k (forget fd w)" using assms(1) by (auto simp: wl_inv_but_def wl_inv_def exact_def forget_def)
qed

lemma wl_inv_but_absent: "wl_inv_but fd k w \<Longrightarrow> map_of (connections w) fd = None \<Longrightarrow> wl_inv k w"
  unfolding wl_inv_def wl_inv_but_def exact_def by (metis option.distinct(1))

lemma CloseConnection_returns:
  assumes "wl_inv_but fd k w"
  shows "\<exists>w'. CloseConnection E fd w = Some w' \<and> wl_inv k w' \<and> static w' = static w
    \<and> set (keys (connections w')) = set (keys (connections w)) - {fd}"
proof (cases "fd \<in> set (keys (connections w))")
  case False
  then have "map_of (connections w) fd = None" by (simp add: map_of_keys_None)
  with assms False show ?thesis by (auto simp: CloseConnection_def intro: wl_inv_but_absent)
next
  case True
  then obtain c where c: "map_of (connections w) fd = Some c" by (metis map_of_keys_None not_Some_eq)
  let ?f = "\<lambda>s. NotifyWritable (resume_co E) (NotifyReadable (resume_co E) (MarkClosing (resume_co E) s))"
  let ?w = "on_conn fd ?f w"
  note on = on_conn_inv_but [OF assms conn_op_hang_up]
  have core: "core k w" using assms by (simp add: wl_inv_but_def)
  then have "parked (c\<lparr>world := dispatch w\<rparr>)" using c by (simp add: core_def conn_ok_def)
  then have "(case map_of (connections ?w) fd of None \<Rightarrow> False | Some c \<Rightarrow> task_done c)"
    using c hang_up_finishes by (simp add: on_conn_def Let_def)
  then have "CloseConnection E fd w = Some (forget fd (snd (epoll_ctl ?w)))"
    using True by (simp add: CloseConnection_def Let_def on_conn_comp forget_def)
  moreover have "wl_inv_but fd k (snd (epoll_ctl ?w))" "fd \<in> set (keys (connections (snd (epoll_ctl ?w))))" "static (snd (epoll_ctl ?w)) = static w"
      "keys (connections (snd (epoll_ctl ?w))) = keys (connections w)"
    using on True by (simp_all add: wl_inv_but_def)
  ultimately show ?thesis using forget_inv [of fd k "snd (epoll_ctl ?w)"] by (simp add: forget_def)
qed

lemma close_then_returns:
  assumes "wl_inv_but fd k w"
  shows "\<exists>w'. close_then E fd w = Some (None, w') \<and> wl_inv k w' \<and> static w' = static w"
  using CloseConnection_returns [OF assms, of E] by (auto simp: close_then_def wok_def)

lemma UpdateEpollInterest_returns:
  assumes "wl_inv_but fd k w"
  shows "\<exists>w'. UpdateEpollInterest E fd w = Some (None, w') \<and> wl_inv k w' \<and> static w' = static w"
proof (cases "map_of (connections w) fd")
  case None
  with assms show ?thesis by (auto simp: UpdateEpollInterest_def wok_def intro: wl_inv_but_absent)
next
  case (Some c)
  obtain r w1 where ctl: "epoll_ctl w = (r, w1)" by fastforce
  then have w1: "w1 = snd (epoll_ctl w)" by simp
  have but: "wl_inv_but fd k w1" "static w1 = static w" using assms by (simp_all add: w1 wl_inv_but_def)
  show ?thesis
  proof (cases r)
    case None
    let ?w = "w1\<lparr>epoll_interest := put_key fd (HasPendingWrite c) (epoll_interest w1)\<rparr>"
    have "fd \<in> set (keys (epoll_interest w1))" using assms Some keys_of_Some [OF Some] by (auto simp: wl_inv_but_def core_def w1)
    then have "core k ?w" using but(1) by (auto simp: wl_inv_but_def core_def conn_ok_def)
    moreover have "exact ?w fd'" for fd' using but(1) Some by (auto simp: wl_inv_but_def exact_def w1)
    moreover have "static ?w = static w" using but(2) by (rule trans [rotated]) (simp add: static_def static0_def owned_def)
    ultimately show ?thesis using None ctl Some by (auto simp: UpdateEpollInterest_def wok_def wl_inv_def)
  next
    case (Some e)
    with close_then_returns [OF but(1), of E] but(2) ctl \<open>map_of (connections w) fd = Some c\<close> show ?thesis
      by (auto simp: UpdateEpollInterest_def)
  qed
qed

definition serving :: "int \<Rightarrow> nat \<Rightarrow> WorkerLoop \<Rightarrow> WorkerLoop \<Rightarrow> bool" where
  "serving fd k w0 w \<longleftrightarrow> wl_inv_but fd k w \<and> static w = static w0"

lemma serving_on: "conn_op f \<Longrightarrow> serving fd k w0 w \<Longrightarrow> serving fd k w0 (on_conn fd f w)"
  using on_conn_inv_but by (auto simp: serving_def)

lemmas serving_notify = serving_on [OF conn_op_notify(1)] serving_on [OF conn_op_notify(2)] serving_on [OF conn_op_notify(3)]

lemma notify_events_inv:
  assumes "wl_inv_but fd k w"
  shows "wl_inv_but fd k (notify_events E fd ev w) \<and> static (notify_events E fd ev w) = static w"
proof -
  have "serving fd k w w" using assms by (simp add: serving_def)
  then have "serving fd k w (notify_events E fd ev w)" unfolding notify_events_def Let_def by (simp add: serving_notify)
  then show ?thesis by (simp add: serving_def)
qed

lemma handle_event_returns:
  assumes "wl_inv k w"
  shows "\<exists>w'. handle_event E ev w = Some (None, w') \<and> wl_inv k w' \<and> static w' = static w"
proof -
  let ?w = "notify_events E (fst ev) (snd ev) w"
  have n: "wl_inv_but (fst ev) k ?w" "static ?w = static w"
    using notify_events_inv [OF wl_inv_but [OF assms], where E = E and fd = "fst ev" and ev = "snd ev"] by blast+
  show ?thesis
  proof (cases "wake_fd w = Some (fst ev) \<or> fst ev \<notin> set (keys (connections w))")
    case True
    with assms show ?thesis by (auto simp: handle_event_def Let_def wok_def)
  next
    case False
    then have "handle_event E ev w = (case map_of (connections ?w) (fst ev) of None \<Rightarrow> wok ?w
        | Some c \<Rightarrow> if \<not> coroutine_ok c \<or> should_close c then close_then E (fst ev) ?w else UpdateEpollInterest E (fst ev) ?w)"
      by (auto simp: handle_event_def Let_def split: option.split)
    with close_then_returns [OF n(1), of E] UpdateEpollInterest_returns [OF n(1), of E] n wl_inv_but_absent [OF n(1)]
    show ?thesis by (auto simp: wok_def split: option.split)
  qed
qed

lemma wthen_Some [simp]: "wthen (Some (None, w)) f = f w" "wthen (Some (Some m, w)) f = Some (Some m, w)"
  by (simp_all add: wthen_def)

lemma handle_events_returns:
  "wl_inv k w \<Longrightarrow> \<exists>w'. handle_events E evs w = Some (None, w') \<and> wl_inv k w' \<and> static w' = static w"
proof (induction evs arbitrary: w)
  case (Cons ev evs)
  obtain w1 where "handle_event E ev w = Some (None, w1)" "wl_inv k w1" "static w1 = static w"
    using handle_event_returns [OF Cons.prems] by blast
  with Cons.IH show ?case by fastforce
qed (simp add: wok_def)

section \<open>Timeouts\<close>

lemma io_part_Tick: "io_part (Tick (resume_co E) t s) = io_part s"
  by (simp add: Tick_def EnterError_def Let_def ClearReadDeadline_def ClearWriteDeadline_def io_part_wake split: option.split)

lemma HasPendingWrite_io_part: "io_part s' = io_part s \<Longrightarrow> HasPendingWrite s' = HasPendingWrite s"
  using arg_cong [of "io_part s'" "io_part s" write_buffer] by (simp add: io_part_def connection.defs HasPendingWrite_def)

lemma HasPendingWrite_updates [simp]:
  "HasPendingWrite (Tick (resume_co E) t s) = HasPendingWrite s" "HasPendingWrite (s\<lparr>world := d\<rparr>) = HasPendingWrite s"
  by (rule HasPendingWrite_io_part [OF io_part_Tick]) (simp add: HasPendingWrite_def)

lemma tick_one:
  assumes "wl_inv k w"
  shows "wl_inv k (on_conn fd (Tick (resume_co E) t) w)" "static (on_conn fd (Tick (resume_co E) t) w) = static w"
proof -
  let ?w = "on_conn fd (Tick (resume_co E) t) w"
  note on = on_conn_inv_but [OF wl_inv_but [OF assms, of fd] conn_op_notify(4) [where E = E and t = t]]
  have "exact ?w fd"
    using assms by (auto simp: wl_inv_def exact_def on_conn_def Let_def split: option.splits)
  with on(1) show "wl_inv k ?w" unfolding wl_inv_def wl_inv_but_def by metis
  show "static ?w = static w" by (rule on(2))
qed

lemma tick_all_inv:
  assumes "wl_inv k w"
  shows "wl_inv k (tick_all E w) \<and> static (tick_all E w) = static w"
proof -
  have "wl_inv k v \<and> static v = static w \<Longrightarrow> wl_inv k (fold (\<lambda>fd. on_conn fd (Tick (resume_co E) (now E))) fds v)
      \<and> static (fold (\<lambda>fd. on_conn fd (Tick (resume_co E) (now E))) fds v) = static w" for fds v
  proof (induction fds arbitrary: v)
    case (Cons fd fds)
    with tick_one [where k = k and w = v and fd = fd and E = E and t = "now E"] show ?case by simp
  qed simp
  with assms show ?thesis by (simp add: tick_all_def)
qed

section \<open>New connections\<close>

lemma StartConnectionCoroutine_new:
  "StartConnectionCoroutine E ((BindToWorkerLoop me i (conn_task_make token reg opts d x))\<lparr>world := y\<rparr>) =
     (BindToWorkerLoop me i (conn_task_make token reg opts d y))\<lparr>read_waiter := Some AtReadable, conn_state := kReading,
        read_deadline := Some (now E + read_timeout opts)\<rparr>"
  by (simp add: StartConnectionCoroutine_def HandleConnectionCo.simps(1) ReadRequestCo_def readable_await_ready_def
      readable_await_suspend_def ArmReadDeadline_def conn_task_make_def Connection_make_def connection.defs BindToWorkerLoop_def)

definition new_conn :: "conn_env \<Rightarrow> nat \<Rightarrow> int \<Rightarrow> WorkerLoop \<Rightarrow> conn" where
  "new_conn E me fd w =
     (BindToWorkerLoop me (worker_id w) (conn_task_make (next_connection_token w) (wl_registry w) Options_default
        (pool_dispatcher (thread_pool (dispatch w) \<noteq> None) fd (next_connection_token w)) (dispatch w)))
      \<lparr>read_waiter := Some AtReadable, conn_state := kReading, read_deadline := Some (now E + read_timeout Options_default)\<rparr>"

lemma new_conn_facts [simp]:
  "connection_token (new_conn E me fd w) = next_connection_token w" "\<not> HasPendingWrite (new_conn E me fd w)"
  "request_dispatcher (new_conn E me fd w) = pool_dispatcher (thread_pool (dispatch w) \<noteq> None) fd (next_connection_token w)"
  "world (new_conn E me fd w) = dispatch w"
  by (simp_all add: new_conn_def BindToWorkerLoop_def conn_task_make_def Connection_make_def connection.defs HasPendingWrite_def)

lemma new_conn_parked: "parked (new_conn E me fd w)"
  by (simp add: new_conn_def BindToWorkerLoop_def conn_task_make_def Connection_make_def connection.defs parked_def at_readable_def
      io_ok_def write_ok_def pending_data_def buffer_ok_make)

text \<open>The branches of \<open>AddConnectionOnOwnerThread\<close>: a refusal closes the descriptor, a success adds a parked connection.\<close>

definition refused :: "int \<Rightarrow> WorkerLoop \<Rightarrow> WorkerLoop \<Rightarrow> bool" where
  "refused fd w w' \<longleftrightarrow> (\<exists>rs. w' = w\<lparr>ctl_script := rs, closed_fds := closed_fds w @ [fd]\<rparr>)"

definition adopted :: "conn_env \<Rightarrow> nat \<Rightarrow> int \<Rightarrow> WorkerLoop \<Rightarrow> WorkerLoop \<Rightarrow> bool" where
  "adopted E me fd w w' \<longleftrightarrow> fd \<notin> set (keys (connections w))
     \<and> (\<exists>rs. w' = w\<lparr>ctl_script := rs, epoll_interest := put_key fd False (epoll_interest w),
          next_connection_token := next_connection_token w + 1, connections := connections w @ [(fd, new_conn E me fd w)],
          connection_count := Suc (length (connections w)), total_accepted_count := total_accepted_count w + 1\<rparr>)"

lemma on_conn_new:
  "fd \<notin> set (keys (connections w)) \<Longrightarrow>
   on_conn fd f (w\<lparr>connections := connections w @ [(fd, c)]\<rparr>) =
   w\<lparr>connections := connections w @ [(fd, f (c\<lparr>world := dispatch w\<rparr>))], dispatch := world (f (c\<lparr>world := dispatch w\<rparr>))\<rparr>"
proof -
  assume n: "fd \<notin> set (keys (connections w))"
  have "put_key fd v (m @ [(fd, c)]) = m @ [(fd, v)]" if "fd \<notin> set (keys m)" for v and m :: "(int \<times> conn) list"
    using that by (induction m) (auto simp: keys_def)
  moreover have "map_of (connections w) fd = None" using n by (simp add: map_of_keys_None)
  ultimately show ?thesis using n by (simp add: on_conn_def Let_def map_add_def)
qed

lemma AddConnection_cases:
  assumes "set (keys (epoll_interest w)) = set (keys (connections w))"
  obtains (refused) m w' where "AddConnectionOnOwnerThread E me fd w = Some (Some m, w')" "refused fd w w'"
  | (adopted) w' where "AddConnectionOnOwnerThread E me fd w = Some (None, w')" "adopted E me fd w w'"
proof -
  let ?A = "AddConnectionOnOwnerThread E me fd w"
  have keep: "refused fd w (w\<lparr>closed_fds := closed_fds w @ [fd]\<rparr>)"
    by (auto simp: refused_def intro!: exI [of _ "ctl_script w"])
  show thesis
  proof (cases "wl_IsOnOwnerThread me w \<and> epoll_open w \<and> fd \<notin> set (keys (epoll_interest w))")
    case False
    then show ?thesis
      by (intro refused [OF _ keep, of "if \<not> wl_IsOnOwnerThread me w then ''worker loop accessed from non-owner thread''
            else if \<not> epoll_open w then ''worker loop not initialized'' else ''epoll_ctl add client fd failed: '' @ strerror (Errno 17)"])
        (auto simp: AddConnectionOnOwnerThread_def Let_def epoll_add_def wfail_def)
  next
    case True
    then have new: "fd \<notin> set (keys (connections w))" using assms by simp
    obtain r w1 where ctl: "epoll_ctl w = (r, w1)" by fastforce
    then have w1: "w1 = w\<lparr>ctl_script := tl (ctl_script w)\<rparr>" using snd_epoll_ctl [of w] by simp
    show ?thesis
    proof (cases r)
      case (Some e)
      with True ctl w1 show ?thesis
        by (intro refused [of "''epoll_ctl add client fd failed: '' @ strerror e" "w1\<lparr>closed_fds := closed_fds w1 @ [fd]\<rparr>"])
          (auto simp: AddConnectionOnOwnerThread_def Let_def epoll_add_def wfail_def refused_def)
    next
      case None
      let ?w2 = "w1\<lparr>epoll_interest := put_key fd False (epoll_interest w1), next_connection_token := next_connection_token w1 + 1\<rparr>"
      let ?c = "BindToWorkerLoop me (worker_id w) (conn_task_make (next_connection_token w) (wl_registry w) Options_default
          (if thread_pool (dispatch w) = None then None else Some (DispatchRequestToThreadPool fd (next_connection_token w))) (dispatch w))"
      have start: "StartConnectionCoroutine E (?c\<lparr>world := dispatch w\<rparr>) = new_conn E me fd w"
        unfolding StartConnectionCoroutine_new by (simp add: new_conn_def pool_dispatcher_def)
      let ?w3 = "on_conn fd (StartConnectionCoroutine E) (?w2\<lparr>connections := connections ?w2 @ [(fd, ?c)]\<rparr>)"
      have "?A = wok (?w3\<lparr>connection_count := length (connections ?w3), total_accepted_count := total_accepted_count ?w3 + 1\<rparr>)"
        using True None ctl new unfolding AddConnectionOnOwnerThread_def Let_def epoll_add_def by (simp add: w1)
      moreover have "?w3 = ?w2\<lparr>connections := connections ?w2 @ [(fd, new_conn E me fd w)], dispatch := dispatch w\<rparr>"
        using on_conn_new [of fd ?w2 "StartConnectionCoroutine E" ?c] new start by (simp add: w1)
      ultimately have "?A = wok (w\<lparr>ctl_script := tl (ctl_script w), epoll_interest := put_key fd False (epoll_interest w),
          next_connection_token := next_connection_token w + 1, connections := connections w @ [(fd, new_conn E me fd w)],
          connection_count := Suc (length (connections w)), total_accepted_count := total_accepted_count w + 1\<rparr>)"
        by (simp add: w1)
      then show ?thesis using new by (intro adopted) (auto simp: wok_def adopted_def)
    qed
  qed
qed

lemma refused_inv: "wl_inv k w \<Longrightarrow> refused fd w w' \<Longrightarrow> wl_inv k w' \<and> static0 w' = static0 w
    \<and> next_connection_token w' = next_connection_token w \<and> owned w' = owned w + {#fd#}"
  by (auto simp: refused_def wl_inv_def core_def conn_ok_def exact_def static0_def owned_def)

lemma word_less_next: "unat (n :: u64) < 2 ^ 64 - 1 \<Longrightarrow> t < n + 1 \<longleftrightarrow> t < n \<or> t = n"
  by (auto simp: word_less_nat_alt unat_Suc64 word_unat_eq_iff)

lemma keys_append: "keys (m @ [(k, v)]) = keys m @ [k]"
  by (simp add: keys_def)

lemma adopted_inv:
  assumes inv: "wl_inv k w" and ad: "adopted E me fd w w'" and bound: "unat (next_connection_token w) < 2 ^ 64 - 1"
  shows "wl_inv k w' \<and> static0 w' = static0 w \<and> next_connection_token w' = next_connection_token w + 1 \<and> owned w' = owned w + {#fd#}"
proof -
  let ?n = "next_connection_token w"
  have core: "core k w" using inv by (simp add: wl_inv_def)
  obtain rs where w': "w' = w\<lparr>ctl_script := rs, epoll_interest := put_key fd False (epoll_interest w),
      next_connection_token := ?n + 1, connections := connections w @ [(fd, new_conn E me fd w)],
      connection_count := Suc (length (connections w)), total_accepted_count := total_accepted_count w + 1\<rparr>"
    and new: "fd \<notin> set (keys (connections w))" using ad by (auto simp: adopted_def)
  have m: "map_of (connections w') fd' = (if fd' = fd then Some (new_conn E me fd w) else map_of (connections w) fd')" for fd'
    using map_of_keys_None [of "connections w" fd] new by (auto simp: w' map_add_def split: option.split)
  have less: "t < ?n \<Longrightarrow> t < ?n + 1" for t using word_less_next [OF bound] by simp
  have "conn_ok w' fd' c" if "map_of (connections w') fd' = Some c" for fd' c
    using that core less word_less_next [OF bound] unfolding m
    by (auto simp: core_def conn_ok_def new_conn_parked w' split: if_splits)
  moreover have "fd1 = fd2" if t: "map_of (connections w') fd1 = Some c1" "map_of (connections w') fd2 = Some c2"
      "connection_token c1 = connection_token c2" for fd1 fd2 c1 c2
  proof -
    have old: "connection_token c < ?n" if "map_of (connections w) x = Some c" for x c
      using core that by (simp add: core_def conn_ok_def)
    show ?thesis
      using t core old [of fd1 c1] old [of fd2 c2] unfolding m core_def by (auto split: if_splits)
  qed
  moreover have "tokens_below (?n + 1) (dispatch w)" using core less by (auto simp: core_def tokens_below_def)
  moreover have "distinct (keys (connections w'))" "set (keys (epoll_interest w')) = set (keys (connections w'))"
      "connection_count w' = length (connections w')" "counts_ok k (dispatch w')"
    using core new by (auto simp: core_def w' keys_append)
  moreover have "routed (connections w') (dispatch w')"
    using core unfolding routed_def m by (auto simp: core_def routed_def tokens_below_def w' split: if_splits)
  ultimately have "core k w'" unfolding core_def by (simp add: w')
  moreover have "exact w' fd'" for fd' using inv unfolding wl_inv_def exact_def m by (auto simp: w')
  moreover have "owned w' = owned w + {#fd#}" by (simp add: owned_def w' keys_append)
  ultimately show ?thesis by (simp add: wl_inv_def static0_def w')
qed

lemma add_pending_returns:
  "wl_inv k w \<Longrightarrow> unat (next_connection_token w) + length ps < 2 ^ 64 \<Longrightarrow>
   \<exists>m w'. add_pending E me ps w = Some (m, w') \<and> wl_inv k w' \<and> static0 w' = static0 w
     \<and> owned w' = owned w + mset (map pc_fd ps) \<and> unat (next_connection_token w') \<le> unat (next_connection_token w) + length ps"
proof (induction ps arbitrary: w)
  case (Cons p ps)
  let ?fd = "pc_fd p"
  have ep: "set (keys (epoll_interest w)) = set (keys (connections w))" using Cons.prems(1) by (simp add: wl_inv_def core_def)
  show ?case
  proof (cases rule: AddConnection_cases [OF ep, of E me ?fd])
    case (1 m w')
    note r = refused_inv [OF Cons.prems(1) 1(2)]
    let ?w = "w'\<lparr>closed_fds := closed_fds w' @ map pc_fd ps\<rparr>"
    have "wl_inv k w'" using r by blast
    then have "wl_inv k ?w" by (simp add: wl_inv_def core_def conn_ok_def exact_def)
    moreover have "static0 ?w = static0 w" using r by (simp add: static0_def)
    moreover have "owned ?w = owned w + mset (map pc_fd (p # ps))" using r by (simp add: owned_def ac_simps)
    ultimately show ?thesis using 1(1) r by auto
  next
    case (2 w')
    have b: "unat (next_connection_token w) < 2 ^ 64 - 1" using Cons.prems(2) by simp
    note a = adopted_inv [OF Cons.prems(1) 2(2) b]
    have n: "unat (next_connection_token w') = Suc (unat (next_connection_token w))" using a unat_Suc64 [OF b] by simp
    obtain m w'' where "add_pending E me ps w' = Some (m, w'')" "wl_inv k w''" "static0 w'' = static0 w'"
      "owned w'' = owned w' + mset (map pc_fd ps)" "unat (next_connection_token w'') \<le> unat (next_connection_token w') + length ps"
      using Cons.IH [of w'] a n Cons.prems(2) by auto
    with 2(1) a n show ?thesis by (auto simp: ac_simps)
  qed
qed (simp add: wok_def)

section \<open>Completed responses\<close>

lemma count_completed_inv:
  "wl_inv (Suc k) w \<Longrightarrow> wl_inv k (count_completed w) \<and> static (count_completed w) = static w"
proof -
  assume "wl_inv (Suc k) w"
  moreover from this have "counts_ok k (dispatch (count_completed w))"
    by (auto simp: wl_inv_def core_def counts_ok_def count_completed_def tasks_of_def responses_of_def collects_def)
  ultimately show ?thesis
    by (simp add: wl_inv_def core_def conn_ok_def exact_def static_def static0_def owned_def count_completed_def tokens_below_def
        tasks_of_def responses_of_def routed_def)
qed

lemma enqueue_completed_keeps:
  assumes "parked s" and "enqueue_completed E c s = (ok, s')"
  shows "parked s'" "connection_token s' = connection_token s" "request_dispatcher s' = request_dispatcher s" "world s' = world s"
proof -
  obtain t where t: "EnqueueResponse E (response_of c) (s\<lparr>error_msg := Some []\<rparr>) = (ok, t)" "s' = t\<lparr>error_msg := error_msg s\<rparr>"
    using assms(2) by (auto simp: enqueue_completed_def split: prod.splits)
  note f = write_side_onlyD [OF EnqueueResponse_write_side [OF t(1)]]
  show "parked s'" using EnqueueResponse_parks [OF _ t(1)] assms(1) t(2) by simp
  show "connection_token s' = connection_token s" "request_dispatcher s' = request_dispatcher s"
    using f(7) conn_task_more_cong(4) [OF f(18)] t(2) by simp_all
  show "world s' = world s"
    using t by (auto simp: EnqueueResponse_def QueueResponse_def Let_def set_error_def ArmWriteDeadline_def
        split: prod.splits if_splits option.splits sum.splits)
qed

lemma deliver_completed_returns:
  assumes "wl_inv (Suc k) w"
  shows "\<exists>w'. deliver_completed E c w = Some (None, w') \<and> wl_inv k w' \<and> static w' = static w"
proof -
  let ?w = "count_completed w" and ?fd = "cr_fd c"
  have inv: "wl_inv k ?w" "static ?w = static w" using count_completed_inv [OF assms] by blast+
  show ?thesis
  proof (cases "map_of (connections ?w) ?fd")
    case None
    with inv show ?thesis by (auto simp: deliver_completed_def Let_def wok_def)
  next
    case (Some s)
    have core: "core k ?w" using inv(1) by (simp add: wl_inv_def)
    then have p: "parked s" using Some by (simp add: core_def conn_ok_def)
    obtain ok s' where q: "enqueue_completed E c s = (ok, s')" by fastforce
    note k = enqueue_completed_keeps [OF p q]
    let ?w1 = "?w\<lparr>connections := put_key ?fd s' (connections ?w)\<rparr>"
    have "core k (?w\<lparr>connections := put_key ?fd s' (connections ?w), dispatch := dispatch ?w\<rparr>)"
      by (rule core_put [OF core Some k(1-3)]) simp
    then have "wl_inv_but ?fd k ?w1" "static ?w1 = static w"
      using inv keys_put_present [OF keys_of_Some [OF Some]]
      by (auto simp: wl_inv_def wl_inv_but_def exact_def static_def static0_def owned_def)
    then have sv: "serving ?fd k w ?w1" by (simp add: serving_def)
    let ?w2 = "on_conn ?fd (NotifyReadable (resume_co E)) ?w1"
    have "serving ?fd k w ?w2" by (rule serving_notify(1) [OF sv])
    with sv UpdateEpollInterest_returns [of ?fd k ?w2 E] close_then_returns [of ?fd k ?w1 E] Some q inv show ?thesis
      by (cases ok) (auto simp: deliver_completed_def Let_def wok_def serving_def)
  qed
qed

lemma deliver_all_returns:
  "wl_inv (length cs + k) w \<Longrightarrow> \<exists>w'. deliver_all E cs w = Some (None, w') \<and> wl_inv k w' \<and> static w' = static w"
proof (induction cs arbitrary: w)
  case (Cons c cs)
  then obtain w1 where "deliver_completed E c w = Some (None, w1)" "wl_inv (length cs + k) w1" "static w1 = static w"
    using deliver_completed_returns [of "length cs + k" w E c] by auto
  with Cons.IH [of w1] show ?case by auto
qed (simp add: wok_def)

text \<open>The state with the responses taken out of the queue.\<close>

lemma swap_responses_inv:
  assumes "wl_inv 0 w" and "completed_queue (dispatch w) = Some q"
  shows "wl_inv (length (responses q)) (w\<lparr>dispatch := (dispatch w)\<lparr>completed_queue := Some (q\<lparr>responses := []\<rparr>)\<rparr>\<rparr>)"
proof -
  let ?d = "(dispatch w)\<lparr>completed_queue := Some (q\<lparr>responses := []\<rparr>)\<rparr>"
  have "counts_ok (length (responses q)) ?d" "tokens_below (next_connection_token w) ?d"
    using assms by (auto simp: wl_inv_def core_def counts_ok_def tokens_below_def tasks_of_def responses_of_def collects_def)
  moreover have "routed (connections w) ?d"
    by (rule routed_mono [of "connections w" "dispatch w"])
      (use assms(1) in \<open>auto simp: wl_inv_def core_def tasks_of_def responses_of_def\<close>)
  ultimately show ?thesis using assms(1) by (simp add: wl_inv_def core_def conn_ok_def exact_def)
qed

text \<open>What a worker operation may do to the worker: everything but the fields listed stays, and descriptors are kept track of.\<close>

definition settled :: "WorkerLoop \<Rightarrow> _" where
  "settled w = (wake_fd w, epoll_open w, owner_thread w, running w, joinable w, stop_requested w, accepting_new_connections w, wl_registry w,
     map_option cq_accepting (completed_queue (dispatch w)), owned w)"

definition progress :: "WorkerLoop \<Rightarrow> WorkerLoop \<Rightarrow> bool" where
  "progress w w' \<longleftrightarrow> settled w' = settled w
     \<and> unat (next_connection_token w') + length (pending_connections w') \<le> unat (next_connection_token w) + length (pending_connections w)"

lemma progress_refl [simp]: "progress w w" by (simp add: progress_def)

lemma progress_trans: "progress w v \<Longrightarrow> progress v u \<Longrightarrow> progress w u"
  by (simp add: progress_def)

lemma static_progress: "static v = static w \<Longrightarrow> progress w v"
  by (simp add: static_def static0_def progress_def settled_def)

lemma DrainCompletedResponses_returns:
  assumes "wl_inv 0 w"
  shows "\<exists>m w'. DrainCompletedResponses E me w = Some (m, w') \<and> wl_inv 0 w' \<and> progress w w'"
proof (cases "wl_IsOnOwnerThread me w \<and> completed_queue (dispatch w) \<noteq> None")
  case True
  then obtain q where q: "completed_queue (dispatch w) = Some q" by blast
  let ?w = "w\<lparr>dispatch := (dispatch w)\<lparr>completed_queue := Some (q\<lparr>responses := []\<rparr>)\<rparr>\<rparr>"
  have eq: "DrainCompletedResponses E me w = deliver_all E (responses q) ?w"
    using True q by (simp add: DrainCompletedResponses_def EnsureOwnerThread_def wok_def)
  obtain w' where w': "deliver_all E (responses q) ?w = Some (None, w')" "wl_inv 0 w'" "static w' = static ?w"
    using deliver_all_returns [of "responses q" 0 ?w] swap_responses_inv [OF assms q] by auto
  have "progress w ?w" using q by (simp add: progress_def settled_def owned_def)
  with static_progress [OF w'(3)] progress_trans w' eq show ?thesis by auto
qed (use assms in \<open>auto simp: DrainCompletedResponses_def EnsureOwnerThread_def wok_def wfail_def\<close>)

lemma DrainPendingConnections_returns:
  assumes "wl_inv 0 w" and "unat (next_connection_token w) + length (pending_connections w) < 2 ^ 64"
  shows "\<exists>m w'. DrainPendingConnections E me w = Some (m, w') \<and> wl_inv 0 w' \<and> progress w w'"
proof (cases "wl_IsOnOwnerThread me w")
  case True
  let ?w = "w\<lparr>pending_connections := []\<rparr>"
  have "wl_inv 0 ?w" using assms(1) by (simp add: wl_inv_def core_def conn_ok_def exact_def)
  then obtain m w' where w': "add_pending E me (pending_connections w) ?w = Some (m, w')" "wl_inv 0 w'" "static0 w' = static0 ?w"
    "owned w' = owned ?w + mset (map pc_fd (pending_connections w))"
    "unat (next_connection_token w') \<le> unat (next_connection_token w) + length (pending_connections w)"
    using add_pending_returns [of 0 ?w "pending_connections w" E me] assms(2) by auto
  then have "progress w w'" by (simp add: progress_def settled_def static0_def owned_def ac_simps)
  with w' True show ?thesis by (simp add: DrainPendingConnections_def EnsureOwnerThread_def wok_def)
qed (use assms in \<open>auto simp: DrainPendingConnections_def EnsureOwnerThread_def wok_def wfail_def\<close>)

end
