(* ===== verification/Worker_Service.thy ===== *)
theory Worker_Service
  imports Worker_Run
begin

text \<open>
  Runs of a worker loop: the turns of its thread interleaved with the acceptor that hands over connections, with
  the threads of the pool, with a request to stop and with the network. The turn of the loop is
  one event, since the state it works on belongs to its thread; the hand-over queues are swapped
  out in one locked section each.
\<close>

section \<open>Turns of the loop\<close>

lemma drain_reads_returns:
  "wl_inv 0 w \<Longrightarrow> \<exists>m w'. drain_reads ints w = Some (m, w') \<and> wl_inv 0 w' \<and> progress w w'"
proof (induction ints w rule: drain_reads.induct)
  case (1 w)
  then show ?case
    by (auto simp: wok_def wl_inv_def core_def conn_ok_def exact_def counts_ok_def tokens_below_def routed_def tasks_of_def
        responses_of_def collects_def progress_def settled_def owned_def)
qed (auto simp: wok_def wfail_def)

lemma DrainWakeFd_returns:
  "wl_inv 0 w \<Longrightarrow> \<exists>m w'. DrainWakeFd me ints w = Some (m, w') \<and> wl_inv 0 w' \<and> progress w w'"
  using drain_reads_returns [of w ints] by (auto simp: DrainWakeFd_def EnsureOwnerThread_def wok_def wfail_def)

definition adoptable :: "WorkerLoop \<Rightarrow> bool" where
  "adoptable w \<longleftrightarrow> unat (next_connection_token w) + length (pending_connections w) < 2 ^ 64"

lemma progress_adoptable: "progress w w' \<Longrightarrow> adoptable w \<Longrightarrow> adoptable w'"
  by (simp add: progress_def adoptable_def)

text \<open>Sequencing two operations that return and keep the invariant.\<close>

lemma wthen_returns:
  assumes "\<exists>m w1. r = Some (m, w1) \<and> wl_inv 0 w1 \<and> progress w w1"
    and "\<And>w1. wl_inv 0 w1 \<Longrightarrow> progress w w1 \<Longrightarrow> \<exists>m w2. f w1 = Some (m, w2) \<and> wl_inv 0 w2 \<and> progress w1 w2"
  shows "\<exists>m w2. wthen r f = Some (m, w2) \<and> wl_inv 0 w2 \<and> progress w w2"
proof -
  obtain m w1 where 1: "r = Some (m, w1)" "wl_inv 0 w1" "progress w w1" using assms(1) by blast
  show ?thesis
  proof (cases m)
    case None
    obtain m' w2 where "f w1 = Some (m', w2)" "wl_inv 0 w2" "progress w1 w2" using assms(2) [OF 1(2,3)] by blast
    with None 1 progress_trans show ?thesis by auto
  qed (use 1 in auto)
qed

lemma wake_drains_returns:
  assumes "wl_inv 0 w" and "adoptable w"
  shows "\<exists>m w'. wake_drains E me ints w = Some (m, w') \<and> wl_inv 0 w' \<and> progress w w'"
  unfolding wake_drains_def
proof (rule wthen_returns, rule wthen_returns)
  show "\<exists>m w1. DrainWakeFd me ints w = Some (m, w1) \<and> wl_inv 0 w1 \<and> progress w w1" by (rule DrainWakeFd_returns [OF assms(1)])
next
  fix w1
  assume "wl_inv 0 w1" "progress w w1"
  then show "\<exists>m w2. DrainPendingConnections E me w1 = Some (m, w2) \<and> wl_inv 0 w2 \<and> progress w1 w2"
    using progress_adoptable [OF _ assms(2)] by (intro DrainPendingConnections_returns) (auto simp: adoptable_def)
next
  fix w1
  assume "wl_inv 0 w1"
  then show "\<exists>m w2. DrainCompletedResponses E me w1 = Some (m, w2) \<and> wl_inv 0 w2 \<and> progress w1 w2"
    by (rule DrainCompletedResponses_returns)
qed

lemma serve_returns:
  assumes "wl_inv 0 w"
  shows "\<exists>m w'. handle_events E evs (tick_all E w) = Some (m, w') \<and> wl_inv 0 w' \<and> progress w w'"
proof -
  have t: "wl_inv 0 (tick_all E w)" "static (tick_all E w) = static w" using tick_all_inv [OF assms] by blast+
  obtain w' where "handle_events E evs (tick_all E w) = Some (None, w')" "wl_inv 0 w'" "static w' = static (tick_all E w)"
    using handle_events_returns [OF t(1)] by blast
  with t(2) static_progress [of w' w] show ?thesis by auto
qed

lemma PollOnce_returns:
  assumes "wl_inv 0 w" and "adoptable w"
  shows "\<exists>m w'. PollOnce E me ints ready w = Some (m, w') \<and> wl_inv 0 w' \<and> progress w w'"
proof (cases "wl_IsOnOwnerThread me w \<and> epoll_open w")
  case True
  show ?thesis
  proof (cases ready)
    case (Inr evs)
    let ?r = "if (\<exists>ev \<in> set evs. wake_fd w = Some (fst ev)) then wake_drains E me ints w else wok w"
    have "\<exists>m w1. ?r = Some (m, w1) \<and> wl_inv 0 w1 \<and> progress w w1"
      using wake_drains_returns [OF assms, of E me ints] assms(1) by (simp add: wok_def)
    then have "\<exists>m w2. wthen ?r (\<lambda>w. handle_events E evs (tick_all E w)) = Some (m, w2) \<and> wl_inv 0 w2 \<and> progress w w2"
      by (rule wthen_returns) (rule serve_returns)
    with True Inr show ?thesis by (simp add: PollOnce_def EnsureOwnerThread_def wok_def)
  qed (use True assms(1) in \<open>auto simp: PollOnce_def EnsureOwnerThread_def wok_def wfail_def\<close>)
qed (use assms(1) in \<open>auto simp: PollOnce_def EnsureOwnerThread_def wok_def wfail_def\<close>)

section \<open>Leaving the loop\<close>

lemma close_fds_returns:
  "wl_inv k w \<Longrightarrow> \<exists>w'. close_fds E fds w = Some w' \<and> wl_inv k w' \<and> static w' = static w
     \<and> set (keys (connections w')) = set (keys (connections w)) - set fds"
proof (induction fds arbitrary: w)
  case (Cons fd fds)
  obtain w1 where w1: "CloseConnection E fd w = Some w1" "wl_inv k w1" "static w1 = static w"
    "set (keys (connections w1)) = set (keys (connections w)) - {fd}"
    using CloseConnection_returns [OF wl_inv_but [OF Cons.prems]] by blast
  with Cons.IH [OF w1(2)] show ?case by (auto simp: set_diff_eq)
qed simp

lemma CloseAllConnections_returns:
  assumes "wl_inv k w"
  shows "\<exists>w'. CloseAllConnections E w = Some w' \<and> wl_inv k w' \<and> static w' = static w \<and> connections w' = []"
  using close_fds_returns [OF assms, of E "keys (connections w)"] by (auto simp: CloseAllConnections_def keys_def)

text \<open>Operations on the flags and on the completed queue.\<close>

lemma wl_inv_flags:
  "wl_inv k (w\<lparr>accepting_new_connections := a\<rparr>) = wl_inv k w" "wl_inv k (w\<lparr>stop_requested := b\<rparr>) = wl_inv k w"
  "wl_inv k (w\<lparr>running := c\<rparr>) = wl_inv k w" "wl_inv k (w\<lparr>pending_connections := ps\<rparr>) = wl_inv k w"
  "wl_inv k (w\<lparr>closed_fds := cs\<rparr>) = wl_inv k w"
  by (simp_all add: wl_inv_def core_def conn_ok_def exact_def)

definition handled :: "WorkerLoop \<Rightarrow> WorkerLoop \<Rightarrow> bool" where
  "handled w w' \<longleftrightarrow> wl_inv 0 w' \<and> owned w' = owned w \<and> wl_registry w' = wl_registry w \<and> joinable w' = joinable w
     \<and> unat (next_connection_token w') + length (pending_connections w') \<le> unat (next_connection_token w) + length (pending_connections w)"

lemma Run_exit_returns:
  assumes "wl_inv 0 w" and "adoptable w"
  shows "\<exists>w'. Run_exit E me ints w = Some w' \<and> handled w w' \<and> \<not> running w' \<and> connections w' = []"
proof -
  let ?w1 = "w\<lparr>accepting_new_connections := False\<rparr>"
  let ?r = "case DrainWakeFd me ints ?w1 of
      Some (None, w2) \<Rightarrow> Option.bind (drop_result (DrainPendingConnections E me w2)) (\<lambda>w3. drop_result (DrainCompletedResponses E me w3))
    | x \<Rightarrow> drop_result x"
  have 1: "wl_inv 0 ?w1" "adoptable ?w1" using assms by (simp_all add: wl_inv_flags adoptable_def)
  obtain m w2 where w2: "DrainWakeFd me ints ?w1 = Some (m, w2)" "wl_inv 0 w2" "progress ?w1 w2"
    using DrainWakeFd_returns [OF 1(1)] by blast
  have "\<exists>w4. ?r = Some w4 \<and> wl_inv 0 w4 \<and> progress ?w1 w4"
  proof (cases m)
    case None
    obtain m3 w3 where w3: "DrainPendingConnections E me w2 = Some (m3, w3)" "wl_inv 0 w3" "progress w2 w3"
      using DrainPendingConnections_returns [OF w2(2)] progress_adoptable [OF w2(3) 1(2)] unfolding adoptable_def by blast
    obtain m4 w4 where w4: "DrainCompletedResponses E me w3 = Some (m4, w4)" "wl_inv 0 w4" "progress w3 w4"
      using DrainCompletedResponses_returns [OF w3(2)] by blast
    show ?thesis using w2 w3 w4 None progress_trans [OF progress_trans [OF w2(3) w3(3)] w4(3)] by (simp add: drop_result_def)
  qed (use w2 in \<open>auto simp: drop_result_def\<close>)
  then obtain w4 where w4: "?r = Some w4" "wl_inv 0 w4" "progress ?w1 w4" by blast
  obtain w5 where w5: "CloseAllConnections E w4 = Some w5" "wl_inv 0 w5" "static w5 = static w4" "connections w5 = []"
    using CloseAllConnections_returns [OF w4(2)] by blast
  let ?w6 = "w5\<lparr>dispatch := (dispatch w5)\<lparr>completed_queue :=
      map_option (\<lambda>q. q\<lparr>cq_accepting := False, cq_wake_fd := - 1\<rparr>) (completed_queue (dispatch w5))\<rparr>, running := False\<rparr>"
  have "Run_exit E me ints w = Some ?w6" unfolding Run_exit_def Let_def w4(1) by (simp add: w5(1))
  moreover have "wl_inv 0 ?w6"
    using w5(2) by (auto simp: wl_inv_def core_def conn_ok_def exact_def counts_ok_def tokens_below_def routed_def tasks_of_def
        responses_of_def collects_def split: option.splits)
  moreover have "owned w4 = owned w" "wl_registry w4 = wl_registry w" "joinable w4 = joinable w"
    using w4(3) by (simp_all add: progress_def settled_def owned_def)
  ultimately show ?thesis
    using w5(3,4) w4(3) by (auto simp: handled_def static_def static0_def owned_def progress_def)
qed

lemma Run_turn_returns:
  assumes "wl_inv 0 w" and "adoptable w" and "running w \<or> connections w = []"
  shows "\<exists>w'. Run_turn E me ints exit_ints ready w = Some w' \<and> handled w w' \<and> (running w' \<or> connections w' = [])"
proof (cases "running w \<and> \<not> stop_requested w")
  case True
  obtain m w1 where w1: "PollOnce E me ints ready w = Some (m, w1)" "wl_inv 0 w1" "progress w w1"
    using PollOnce_returns [OF assms(1,2)] by blast
  have h: "handled w w1" "running w1" using w1(2,3) True by (simp_all add: handled_def progress_def settled_def)
  obtain w2 where w2: "Run_exit E me exit_ints w1 = Some w2" "handled w1 w2" "connections w2 = []"
    using Run_exit_returns [OF w1(2) progress_adoptable [OF w1(3) assms(2)]] by blast
  have "handled w w2" using h(1) w2(2) by (simp add: handled_def)
  with w1(1) w2 h True show ?thesis by (cases m) (auto simp: Run_turn_def)
next
  case False
  with Run_exit_returns [OF assms(1,2), of E me exit_ints] assms(1,3) show ?thesis
    by (auto simp: Run_turn_def handled_def)
qed

section \<open>Runs\<close>

datatype wl_event =
    Accepted int string
  | StopRequested
  | PoolThread nat
  | ClientSends int recv_event
  | ClientTakes int send_event
  | Turn time_point "errno list" "errno list" "errno + (int \<times> epoll_flags) list"

definition net_conn :: "int \<Rightarrow> (conn \<Rightarrow> conn) \<Rightarrow> WorkerLoop \<Rightarrow> WorkerLoop" where
  "net_conn fd f w = (case map_of (connections w) fd of None \<Rightarrow> w | Some c \<Rightarrow> w\<lparr>connections := put_key fd (f c) (connections w)\<rparr>)"

fun wl_exec :: "conn_env \<Rightarrow> nat \<Rightarrow> wl_event \<Rightarrow> WorkerLoop \<Rightarrow> WorkerLoop option" where
  "wl_exec E me (Accepted fd peer) w = drop_result (EnqueueConnection fd peer w)"
| "wl_exec E me StopRequested w = Some (RequestStop w)"
| "wl_exec E me (PoolThread i) w = Some (w\<lparr>dispatch := pool_thread (wl_registry w) i (dispatch w)\<rparr>)"
| "wl_exec E me (ClientSends fd e) w = Some (net_conn fd (\<lambda>c. c\<lparr>rx_sock := rx_sock c @ [e]\<rparr>) w)"
| "wl_exec E me (ClientTakes fd e) w = Some (net_conn fd (\<lambda>c. c\<lparr>tx_sock := tx_sock c @ [e]\<rparr>) w)"
| "wl_exec E me (Turn t ints exit_ints ready) w = Run_turn (E\<lparr>now := t\<rparr>) me ints exit_ints ready w"

primrec wl_run :: "conn_env \<Rightarrow> nat \<Rightarrow> wl_event list \<Rightarrow> WorkerLoop \<Rightarrow> WorkerLoop option" where
  "wl_run E me [] w = Some w"
| "wl_run E me (ev # evs) w = Option.bind (wl_exec E me ev w) (wl_run E me evs)"

text \<open>The descriptors that the acceptor hands to the worker.\<close>

fun given_fd :: "wl_event \<Rightarrow> int list" where
  "given_fd (Accepted fd peer) = (if fd < 0 then [] else [fd])"
| "given_fd _ = []"

definition given_fds :: "wl_event list \<Rightarrow> int list" where
  "given_fds evs = concat (map given_fd evs)"

lemma pool_thread_inv:
  assumes "wl_inv 0 w"
  shows "wl_inv 0 (w\<lparr>dispatch := pool_thread reg i (dispatch w)\<rparr>)"
proof (cases "thread_pool (dispatch w)")
  case None
  with assms show ?thesis by (simp add: pool_thread_def)
next
  case (Some p)
  show ?thesis
  proof (cases "i < length (pool_tasks p)")
    case False
    with Some assms show ?thesis by (simp add: pool_thread_def)
  next
    case True
    let ?t = "pool_tasks p ! i" and ?ts = "take i (pool_tasks p) @ drop (Suc i) (pool_tasks p)" and ?d = "dispatch w"
    let ?c = "execute_request reg ?t" and ?d' = "pool_thread reg i ?d"
    have c: "cr_token ?c = pt_token ?t" "cr_fd ?c = pt_fd ?t"
      by (simp_all add: execute_request_def Let_def split: option.split handler_outcome.split)
    have d': "tasks_of ?d' = ?ts" "responses_of ?d' = responses_of ?d @ (if collects ?d then [?c] else [])" "collects ?d' = collects ?d"
        "submitted_request_count ?d' = submitted_request_count ?d" "in_flight_request_count ?d' = in_flight_request_count ?d"
        "completed_request_count ?d' = completed_request_count ?d" "(thread_pool ?d' = None) = (thread_pool ?d = None)"
      using Some True
      by (simp_all add: pool_thread_def run_task_def complete_request_def RecordMethodCall_def Let_def tasks_of_def responses_of_def
          collects_def split: option.splits prod.splits)
    have old: "tasks_of ?d = pool_tasks p" using Some by (simp add: tasks_of_def)
    have mem: "?t \<in> set (tasks_of ?d)" "set ?ts \<subseteq> set (tasks_of ?d)" "length (tasks_of ?d) = Suc (length ?ts)"
      using True old by (auto dest: in_set_takeD in_set_dropD)
    have core: "core 0 w" using assms by (simp add: wl_inv_def)
    have "counts_ok 0 ?d'" using core d' mem(3) by (auto simp: core_def counts_ok_def)
    moreover have "tokens_below (next_connection_token w) ?d'" using core d'(1,2) mem c(1) by (auto simp: core_def tokens_below_def)
    moreover have "routed (connections w) ?d'"
      using core d'(1,2) mem(1,2) c by (auto simp: core_def routed_def)
    ultimately show ?thesis using assms d'(7) by (simp add: wl_inv_def core_def conn_ok_def exact_def)
  qed
qed

lemma net_conn_inv:
  assumes "wl_inv 0 w" and "\<And>c. parked (f c) = parked c" and "\<And>c. connection_token (f c) = connection_token c"
    and "\<And>c. request_dispatcher (f c) = request_dispatcher c" and "\<And>c. HasPendingWrite (f c) = HasPendingWrite c"
  shows "wl_inv 0 (net_conn fd f w)" "settled (net_conn fd f w) = settled w"
    "pending_connections (net_conn fd f w) = pending_connections w" "next_connection_token (net_conn fd f w) = next_connection_token w"
    "keys (connections (net_conn fd f w)) = keys (connections w)"
proof -
  have "wl_inv 0 (net_conn fd f w) \<and> settled (net_conn fd f w) = settled w \<and> pending_connections (net_conn fd f w) = pending_connections w
      \<and> next_connection_token (net_conn fd f w) = next_connection_token w \<and> keys (connections (net_conn fd f w)) = keys (connections w)"
  proof (cases "map_of (connections w) fd")
    case None
    with assms(1) show ?thesis by (simp add: net_conn_def)
  next
    case (Some c)
    have core: "core 0 w" using assms(1) by (simp add: wl_inv_def)
    then have "core 0 (w\<lparr>connections := put_key fd (f c) (connections w), dispatch := dispatch w\<rparr>)"
      by (rule core_put [OF _ Some]) (use core Some assms(2-4) in \<open>auto simp: core_def conn_ok_def\<close>)
    with Some assms(1,5) keys_put_present [OF keys_of_Some [OF Some]] show ?thesis
      by (auto simp: net_conn_def wl_inv_def exact_def settled_def owned_def)
  qed
  then show "wl_inv 0 (net_conn fd f w)" "settled (net_conn fd f w) = settled w"
    "pending_connections (net_conn fd f w) = pending_connections w" "next_connection_token (net_conn fd f w) = next_connection_token w"
    "keys (connections (net_conn fd f w)) = keys (connections w)" by blast+
qed

definition service_inv :: "WorkerLoop \<Rightarrow> bool" where
  "service_inv w \<longleftrightarrow> wl_inv 0 w \<and> (running w \<or> connections w = [])"

definition handed_in :: "WorkerLoop \<Rightarrow> nat" where
  "handed_in w = unat (next_connection_token w) + length (pending_connections w)"

lemma wl_Wakeup_facts [simp]:
  "wl_inv k (wl_Wakeup w) = wl_inv k w" "owned (wl_Wakeup w) = owned w" "running (wl_Wakeup w) = running w"
  "connections (wl_Wakeup w) = connections w" "handed_in (wl_Wakeup w) = handed_in w" "joinable (wl_Wakeup w) = joinable w"
  by (simp_all add: wl_Wakeup_def wl_inv_def core_def conn_ok_def exact_def counts_ok_def tokens_below_def routed_def tasks_of_def
      responses_of_def collects_def owned_def handed_in_def)

lemma wl_exec_net:
  assumes "service_inv w" and "e = ClientSends fd x \<or> e = ClientTakes fd y"
  shows "\<exists>w'. wl_exec E me e w = Some w' \<and> service_inv w' \<and> owned w' = owned w + mset (given_fd e) \<and> handed_in w' \<le> Suc (handed_in w)
    \<and> joinable w' = joinable w"
proof -
  have inv: "wl_inv 0 w" using assms(1) by (simp add: service_inv_def)
  have k: "service_inv (net_conn fd f w) \<and> owned (net_conn fd f w) = owned w \<and> handed_in (net_conn fd f w) = handed_in w
      \<and> joinable (net_conn fd f w) = joinable w"
    if "\<And>c. parked (f c) = parked c" "\<And>c. connection_token (f c) = connection_token c"
      "\<And>c. request_dispatcher (f c) = request_dispatcher c" "\<And>c. HasPendingWrite (f c) = HasPendingWrite c" for f
    using net_conn_inv [OF inv that, of fd] assms(1) by (auto simp: service_inv_def settled_def handed_in_def keys_def)
  have "service_inv (net_conn fd (\<lambda>c. c\<lparr>rx_sock := rx_sock c @ [x]\<rparr>) w) \<and> owned (net_conn fd (\<lambda>c. c\<lparr>rx_sock := rx_sock c @ [x]\<rparr>) w) = owned w
      \<and> handed_in (net_conn fd (\<lambda>c. c\<lparr>rx_sock := rx_sock c @ [x]\<rparr>) w) = handed_in w
      \<and> joinable (net_conn fd (\<lambda>c. c\<lparr>rx_sock := rx_sock c @ [x]\<rparr>) w) = joinable w"
    by (rule k) (simp_all add: HasPendingWrite_def)
  moreover have "service_inv (net_conn fd (\<lambda>c. c\<lparr>tx_sock := tx_sock c @ [y]\<rparr>) w) \<and> owned (net_conn fd (\<lambda>c. c\<lparr>tx_sock := tx_sock c @ [y]\<rparr>) w) = owned w
      \<and> handed_in (net_conn fd (\<lambda>c. c\<lparr>tx_sock := tx_sock c @ [y]\<rparr>) w) = handed_in w
      \<and> joinable (net_conn fd (\<lambda>c. c\<lparr>tx_sock := tx_sock c @ [y]\<rparr>) w) = joinable w"
    by (rule k) (simp_all add: HasPendingWrite_def)
  ultimately show ?thesis using assms(2) by (elim disjE) simp_all
qed

lemma wl_exec_returns:
  assumes "service_inv w" and "handed_in w < 2 ^ 64"
  shows "\<exists>w'. wl_exec E me e w = Some w' \<and> service_inv w' \<and> owned w' = owned w + mset (given_fd e) \<and> handed_in w' \<le> Suc (handed_in w)
    \<and> joinable w' = joinable w"
proof (cases e)
  case (Accepted fd peer)
  have "EnqueueConnection fd peer w = Some (m, w') \<Longrightarrow> service_inv w' \<and> owned w' = owned w + mset (given_fd e) \<and> handed_in w' \<le> Suc (handed_in w) \<and> joinable w' = joinable w" for m w'
    using assms(1) Accepted
    by (auto simp: EnqueueConnection_def Let_def wok_def wfail_def service_inv_def wl_inv_flags split: if_splits)
      (auto simp: owned_def handed_in_def)
  moreover have "EnqueueConnection fd peer w \<noteq> None" by (simp add: EnqueueConnection_def Let_def wok_def wfail_def)
  then obtain m w' where "EnqueueConnection fd peer w = Some (m, w')" by fastforce
  ultimately show ?thesis using Accepted by (simp add: drop_result_def)
next
  case StopRequested
  then show ?thesis using assms(1) by (simp add: RequestStop_def service_inv_def wl_inv_flags) (simp add: owned_def handed_in_def)
next
  case (PoolThread i)
  then show ?thesis using assms(1) pool_thread_inv [of w "wl_registry w" i] by (simp add: service_inv_def owned_def handed_in_def)
next
  case (Turn t ints exit_ints ready)
  then show ?thesis
    using Run_turn_returns [of w "E\<lparr>now := t\<rparr>" me ints exit_ints ready] assms
    by (auto simp: service_inv_def adoptable_def handed_in_def handled_def)
qed (use wl_exec_net [OF assms(1), of e] in auto)

lemma wl_run_returns:
  "service_inv w \<Longrightarrow> handed_in w + length evs < 2 ^ 64 \<Longrightarrow>
   \<exists>w'. wl_run E me evs w = Some w' \<and> service_inv w' \<and> owned w' = owned w + mset (given_fds evs)"
proof (induction evs arbitrary: w)
  case (Cons e evs)
  obtain w1 where w1: "wl_exec E me e w = Some w1" "service_inv w1" "owned w1 = owned w + mset (given_fd e)" "handed_in w1 \<le> Suc (handed_in w)"
    using wl_exec_returns [OF Cons.prems(1), of E me e] Cons.prems(2) by auto
  then show ?case using Cons.IH [OF w1(2)] Cons.prems(2) by (auto simp: given_fds_def ac_simps)
qed (simp add: given_fds_def)

text \<open>A worker that has been initialised and started.\<close>

definition wl_begin :: "nat \<Rightarrow> nat \<Rightarrow> ServiceRegistry \<Rightarrow> task_pool option \<Rightarrow> int \<Rightarrow> errno option list \<Rightarrow> wresult" where
  "wl_begin me i reg tp wfd ctl = wthen (WorkerLoop_Init me None (Inr wfd) (WorkerLoop_make i reg tp ctl)) (WorkerLoop_Start me)"

lemma wl_begin_inv:
  assumes "wl_begin me i reg tp wfd ctl = Some (None, w)" and "\<forall>p. tp = Some p \<longrightarrow> pool_tasks p = []"
  shows "service_inv w \<and> owned w = {#} \<and> handed_in w = 1 \<and> running w \<and> joinable w"
proof -
  have w: "\<exists>rs. w = (WorkerLoop_make i reg tp rs)\<lparr>epoll_open := True, wake_fd := Some wfd, stop_requested := False,
      accepting_new_connections := True, owner_thread := Some me,
      dispatch := (dispatch (WorkerLoop_make i reg tp rs))\<lparr>completed_queue := Some \<lparr>responses = [], cq_accepting = True, cq_wake_fd = wfd\<rparr>\<rparr>,
      joinable := True, running := True\<rparr>"
  proof (cases ctl)
    case Nil
    with assms(1) show ?thesis
      by (auto simp: wl_begin_def WorkerLoop_Init_def WorkerLoop_Start_def WorkerLoop_make_def epoll_ctl_def wok_def Let_def)
  next
    case (Cons r rs)
    with assms(1) show ?thesis
      by (cases r) (auto simp: wl_begin_def WorkerLoop_Init_def WorkerLoop_Start_def WorkerLoop_make_def epoll_ctl_def wok_def wfail_def Let_def)
  qed
  have "tasks_of \<lparr>thread_pool = tp, completed_queue = q, in_flight_request_count = 0, submitted_request_count = 0,
      completed_request_count = 0, method_stats = [], wake_counter = 0\<rparr> = []" for q
    using assms(2) by (cases tp) (simp_all add: tasks_of_def)
  with w show ?thesis
    by (auto simp: WorkerLoop_make_def service_inv_def wl_inv_def core_def exact_def counts_ok_def tokens_below_def routed_def
        responses_of_def collects_def owned_def handed_in_def keys_def)
qed

lemma wl_service:
  assumes "wl_begin me i reg tp wfd ctl = Some (None, w0)" and "\<forall>p. tp = Some p \<longrightarrow> pool_tasks p = []" and "length events < 2 ^ 63"
  obtains w where "wl_run E me events w0 = Some w" "service_inv w" "owned w = mset (given_fds events)"
  using wl_run_returns [of w0 events E me] wl_begin_inv [OF assms(1,2)] assms(3) by auto

lemma on_conn_other: "fd' \<noteq> fd \<Longrightarrow> map_of (connections (on_conn fd f w)) fd' = map_of (connections w) fd'"
  by (simp add: on_conn_def Let_def split: option.split)

lemma close_then_other:
  "close_then E fd w = Some (m, w') \<Longrightarrow> fd' \<noteq> fd \<Longrightarrow> map_of (connections w') fd' = map_of (connections w) fd'"
  by (auto simp: close_then_def CloseConnection_def Let_def wok_def on_conn_other split: option.splits if_splits)

lemma UpdateEpollInterest_other:
  assumes "UpdateEpollInterest E fd w = Some (m, w')" and "fd' \<noteq> fd"
  shows "map_of (connections w') fd' = map_of (connections w) fd'"
proof -
  obtain x w1 where "epoll_ctl w = (x, w1)" by fastforce
  moreover from this have "connections w1 = connections w" using epoll_ctl_facts(4) [of w] by simp
  ultimately show ?thesis
    using assms close_then_other [of E fd w1 m w' fd'] by (auto simp: UpdateEpollInterest_def wok_def split: option.splits)
qed

lemma deliver_completed_other:
  assumes "deliver_completed E r w = Some (m, w')" and "fd \<noteq> cr_fd r"
  shows "map_of (connections w') fd = map_of (connections w) fd"
proof (cases "map_of (connections (count_completed w)) (cr_fd r)")
  case None
  with assms(1) show ?thesis by (auto simp: deliver_completed_def Let_def wok_def count_completed_def)
next
  case (Some s)
  obtain ok s' where q: "enqueue_completed E r s = (ok, s')" by fastforce
  let ?w = "(count_completed w)\<lparr>connections := put_key (cr_fd r) s' (connections (count_completed w))\<rparr>"
  have "map_of (connections ?w) fd = map_of (connections w) fd" using assms(2) by (simp add: count_completed_def)
  with assms Some q close_then_other [of E "cr_fd r" ?w m w' fd]
    UpdateEpollInterest_other [of E "cr_fd r" "on_conn (cr_fd r) (NotifyReadable (resume_co E)) ?w" m w' fd]
    on_conn_other [of fd "cr_fd r" "NotifyReadable (resume_co E)" ?w]
  show ?thesis
    by (cases ok) (auto simp: deliver_completed_def Let_def wok_def count_completed_def split: if_splits)
qed

section \<open>A sample run\<close>

text \<open>A client connects, sends a request, and a pool thread runs it.\<close>

definition one_pool :: task_pool where "one_pool = \<lparr>pool_accepting = True, pool_tasks = []\<rparr>"

definition sample_turn :: "int \<Rightarrow> wl_event" where
  "sample_turn fd = Turn 0 [] [] (Inr [(fd, \<lparr>ep_in = True, ep_out = False, ep_hup = False\<rparr>)])"

definition sample_run :: "wl_event list" where
  "sample_run = [Accepted 5 ''client'', sample_turn 3, ClientSends 5 (Arrive (encode ''E1hi'')), sample_turn 5, PoolThread 0]"

definition sample_dispatch_state :: dispatch_state where
  "sample_dispatch_state = \<lparr>thread_pool = Some one_pool,
     completed_queue = Some \<lparr>responses = [], cq_accepting = True, cq_wake_fd = 3\<rparr>, in_flight_request_count = 0,
     submitted_request_count = 0, completed_request_count = 0, method_stats = [], wake_counter = 0\<rparr>"

definition sample_begun :: WorkerLoop where
  "sample_begun = (WorkerLoop_make 0 sample_registry (Some one_pool) [])\<lparr>epoll_open := True, wake_fd := Some 3,
      accepting_new_connections := True, owner_thread := Some 7, dispatch := sample_dispatch_state, joinable := True, running := True\<rparr>"

definition sample_conn :: conn where
  "sample_conn = (BindToWorkerLoop 7 0 (conn_task_make 1 sample_registry Options_default (Some (DispatchRequestToThreadPool 5 1)) sample_dispatch_state))
     \<lparr>read_waiter := Some AtReadable, conn_state := kReading, read_deadline := Some (now sample_env + read_timeout Options_default),
      rx_sock := [Arrive (encode ''E1hi'')]\<rparr>"

definition sample_served :: "conn \<Rightarrow> WorkerLoop" where
  "sample_served c = sample_begun\<lparr>epoll_interest := [(5, False)], next_connection_token := 2, connections := [(5, c)],
     connection_count := 1, total_accepted_count := 1, dispatch := world c\<rparr>"

lemma sample_env_now: "sample_env\<lparr>now := 0\<rparr> = sample_env" "now sample_env = 0"
  by (simp_all add: sample_env_def)

lemma sample_begin: "wl_begin 7 0 sample_registry (Some one_pool) 3 [] = Some (None, sample_begun)"
  by (simp add: sample_begun_def sample_dispatch_state_def wl_begin_def WorkerLoop_Init_def WorkerLoop_Start_def WorkerLoop_make_def
      epoll_ctl_def wok_def Let_def)

lemmas poll_simps = Run_turn_def PollOnce_def EnsureOwnerThread_def wl_IsOnOwnerThread_def wok_def wake_drains_def DrainWakeFd_def
  DrainPendingConnections_def DrainCompletedResponses_def Let_def tick_all_def handle_event_def on_conn_def keys_def

lemma sample_connected:
  "wl_run sample_env 7 [Accepted 5 ''client'', sample_turn 3, ClientSends 5 (Arrive (encode ''E1hi''))] sample_begun = Some (sample_served sample_conn)"
  by (simp add: EnqueueConnection_def sample_begun_def WorkerLoop_make_def wl_Wakeup_def drop_result_def sample_turn_def
      poll_simps AddConnectionOnOwnerThread_def epoll_add_def epoll_ctl_def sample_env_now StartConnectionCoroutine_def
      HandleConnectionCo.simps(1) ReadRequestCo_def readable_await_ready_def readable_await_suspend_def ArmReadDeadline_def
      BindToWorkerLoop_def conn_task_make_def Connection_make_def connection.defs net_conn_def sample_served_def sample_conn_def
      sample_dispatch_state_def one_pool_def Tick_def Options_default_def ms_def)

text \<open>The readable event hands the request to the pool and suspends the coroutine again.\<close>

lemma sample_conn_fields:
  "read_buffer sample_conn = Buffer_make 8192" "rx_sock sample_conn = [Arrive (encode ''E1hi'')]" "write_buffer sample_conn = []"
  "read_waiter sample_conn = Some AtReadable" "write_waiter sample_conn = None" "\<not> should_close sample_conn" "coroutine_ok sample_conn"
  "request_dispatcher sample_conn = Some (DispatchRequestToThreadPool 5 1)" "world sample_conn = sample_dispatch_state"
  "read_deadline sample_conn = Some (ms 5000)" "write_deadline sample_conn = None" "\<not> write_ready sample_conn" "\<not> task_done sample_conn"
  by (simp_all add: sample_conn_def BindToWorkerLoop_def conn_task_make_def Connection_make_def connection.defs Options_default_def sample_env_now)

definition sample_task :: pool_task where
  "sample_task = \<lparr>pt_fd = 5, pt_token = 1, pt_request = \<lparr>dr_sequence = 1, dr_request_id = ''1'', dr_service_name = ''E'', dr_method_name = ''M'', dr_payload = ''hi''\<rparr>\<rparr>"

lemma sample_reads:
  assumes s: "service_part s = service_part (sample_conn\<lparr>read_waiter := None, read_deadline := None\<rparr>)"
    and io: "read_buffer s = Buffer_make 8192" "rx_sock s = [Arrive (encode ''E1hi'')]"
  shows "\<exists>u. OnReadable resume_self sample_env s = (True, u) \<and> tasks_of (world u) = [sample_task]
    \<and> completed_queue (world u) = completed_queue sample_dispatch_state \<and> write_buffer u = [] \<and> \<not> should_close u \<and> coroutine_ok u \<and> \<not> read_ready u"
proof -
  let ?s = "sample_conn\<lparr>read_waiter := None, read_deadline := None\<rparr>"
  obtain h where h: "handle_all (sample_env\<lparr>now := 0\<rparr>) [''E1hi''] ?s = (True, h)" and w: "tasks_of (world h) = [sample_task]"
      "completed_queue (world h) = completed_queue sample_dispatch_state"
    and f: "write_buffer h = []" "\<not> should_close h" "coroutine_ok h" "\<not> read_ready h"
    by (simp add: handle_frame_def sample_env_def sample_req_def kHeartbeatServiceName_def dispatch_request_def Let_def
        DispatchRequestToThreadPool_def pool_submit_def sample_conn_def BindToWorkerLoop_def conn_task_make_def Connection_make_def connection.defs
        sample_dispatch_state_def one_pool_def tasks_of_def sample_task_def)
  have fr: "frames (peek_string_view (read_buffer s) @ rx_stream (rx_sock s)) = ([''E1hi''], [], True)"
    using io frames_encode_Cons [of "''E1hi''" "[]"]
    by (simp add: frame_body_ok_def kMaxFrameSize_def peek_string_view_def readable_bytes_def Buffer_make_def frames_cases next_frame_def kFrameHeaderBytes_def)
  obtain u where u: "OnReadable resume_self (sample_env\<lparr>now := 0\<rparr>) s = (True, u)" "service_part u = service_part h"
    using OnReadable_frames [OF _ _ fr h s [symmetric], where resume = resume_self and t = 0] io by auto
  have "world u = world h" "write_buffer u = write_buffer h" "should_close u = should_close h" "coroutine_ok u = coroutine_ok h" "read_ready u = read_ready h"
    using arg_cong [OF u(2), of world] arg_cong [OF u(2), of write_buffer] arg_cong [OF u(2), of should_close] arg_cong [OF u(2), of coroutine_ok]
      arg_cong [OF u(2), of read_ready] by (simp_all add: service_part_def)
  with u(1) w f show ?thesis by (simp add: sample_env_now)
qed

lemma sample_notified:
  "\<exists>c. NotifyReadable (resume_co sample_env) sample_conn = c \<and> tasks_of (world c) = [sample_task]
     \<and> completed_queue (world c) = completed_queue sample_dispatch_state \<and> coroutine_ok c \<and> \<not> should_close c"
proof -
  let ?s = "sample_conn\<lparr>read_waiter := None, read_ready := False, conn_state := kReading, read_deadline := None\<rparr>"
  obtain u where u: "OnReadable resume_self sample_env ?s = (True, u)" "tasks_of (world u) = [sample_task]"
    "completed_queue (world u) = completed_queue sample_dispatch_state" "write_buffer u = []" "\<not> should_close u" "coroutine_ok u" "\<not> read_ready u"
    using sample_reads [of ?s] by (auto simp: service_part_def sample_conn_def BindToWorkerLoop_def conn_task_make_def Connection_make_def connection.defs)
  have "ReadRequestCo_resumed sample_env (sample_conn\<lparr>read_ready := True, conn_state := kReading, read_waiter := None\<rparr>) = (True, u)"
    using u(1) by (simp add: ReadRequestCo_resumed_def Let_def readable_await_resume_def ClearReadDeadline_def sample_conn_def
        BindToWorkerLoop_def conn_task_make_def Connection_make_def connection.defs)
  then have "NotifyReadable (resume_co sample_env) sample_conn = HandleConnectionCo sample_env (ReadDone True) u"
    by (simp add: NotifyReadable_def ResumeReadWaiter_def sample_conn_fields resume_co.simps)
  with u(2-) show ?thesis
    by (simp add: HandleConnectionCo.simps HasPendingWrite_def ReadRequestCo_def readable_await_ready_def readable_await_suspend_def ArmReadDeadline_def)
qed

lemma wl_run_append: "wl_run E me (a @ b) w = Option.bind (wl_run E me a w) (wl_run E me b)"
proof (induction a arbitrary: w)
  case (Cons e a)
  then show ?case by (cases "wl_exec E me e w") simp_all
qed simp

lemma sample_answered:
  "\<exists>w q. wl_run sample_env 7 sample_run sample_begun = Some w \<and> completed_queue (dispatch w) = Some q \<and> responses q \<noteq> []"
proof -
  obtain c where c: "NotifyReadable (resume_co sample_env) sample_conn = c" "tasks_of (world c) = [sample_task]"
     "completed_queue (world c) = completed_queue sample_dispatch_state" "coroutine_ok c" "\<not> should_close c"
    using sample_notified by blast
  let ?w = "(sample_served c)\<lparr>epoll_interest := [(5, HasPendingWrite c)]\<rparr>"
  have tick: "Tick (resume_co sample_env) 0 sample_conn = sample_conn"
    by (simp add: Tick_def sample_conn_fields ms_def)
  have lend: "sample_conn\<lparr>world := sample_dispatch_state\<rparr> = sample_conn" using sample_conn_fields(9) by (simp add: sample_conn_def)
  have "wl_exec sample_env 7 (sample_turn 5) (sample_served sample_conn) = Some ?w"
    using c by (simp add: sample_turn_def poll_simps sample_env_now sample_served_def sample_begun_def WorkerLoop_make_def tick lend
        sample_conn_fields notify_events_def UpdateEpollInterest_def epoll_ctl_def)
  note turn = this
  have run: "sample_run = [Accepted 5 ''client'', sample_turn 3, ClientSends 5 (Arrive (encode ''E1hi''))] @ [sample_turn 5, PoolThread 0]"
    by (simp add: sample_run_def)
  have "wl_run sample_env 7 sample_run sample_begun = wl_run sample_env 7 [PoolThread 0] ?w"
    unfolding run wl_run_append sample_connected by (simp add: turn del: wl_exec.simps)
  moreover obtain p where "thread_pool (world c) = Some p" "pool_tasks p = [sample_task]"
    using c(2) by (auto simp: tasks_of_def split: option.splits)
  ultimately show ?thesis
    using c(3) by (simp add: pool_thread_def run_task_def complete_request_def RecordMethodCall_def Let_def responses_of_def
        sample_served_def sample_dispatch_state_def split: prod.split)
qed

section \<open>Properties\<close>

text \<open>
  C21: a worker neither blocks nor loses a descriptor. In every run, whatever the network, the
  system calls, the acceptor and the pool do, every operation of the loop returns (no \<open>task->Get()\<close> waits for a
  coroutine that is suspended); every descriptor handed to the worker is exactly one of: waiting to be
  adopted, connected, or closed once; the epoll set is exactly the set of connections, with \<open>EPOLLOUT\<close> requested
  exactly for those that have output; and once the loop has been left no connection is open.
\<close>

theorem worker_keeps_descriptors:
  assumes "wl_begin me i reg tp wfd ctl = Some (None, w0)" and "\<forall>p. tp = Some p \<longrightarrow> pool_tasks p = []" and "length events < 2 ^ 63"
  shows "\<exists>w. wl_run E me events w0 = Some w
    \<and> mset (given_fds events) = mset (keys (connections w)) + mset (map pc_fd (pending_connections w)) + mset (closed_fds w)
    \<and> distinct (keys (connections w)) \<and> ConnectionCount w = length (connections w)
    \<and> set (keys (epoll_interest w)) = set (keys (connections w))
    \<and> (\<forall>fd c. map_of (connections w) fd = Some c \<longrightarrow> map_of (epoll_interest w) fd = Some (HasPendingWrite c))
    \<and> (running w \<or> connections w = [])"
proof -
  obtain w where w: "wl_run E me events w0 = Some w" "service_inv w" "owned w = mset (given_fds events)"
    by (rule wl_service [OF assms])
  moreover from w(2) have "core 0 w" "\<And>fd. exact w fd" "running w \<or> connections w = []"
    by (simp_all add: service_inv_def wl_inv_def)
  ultimately show ?thesis by (auto simp: core_def exact_def owned_def ConnectionCount_def)
qed

theorem worker_keeps_descriptors_witness:
  "\<exists>w. wl_run sample_env 7 sample_run sample_begun = Some w
    \<and> {#5#} = mset (keys (connections w)) + mset (map pc_fd (pending_connections w)) + mset (closed_fds w)
    \<and> (running w \<or> connections w = [])"
  using worker_keeps_descriptors [OF sample_begin, of sample_run sample_env]
  by (auto simp: one_pool_def sample_run_def given_fds_def sample_turn_def)

text \<open>
  C22: the books of the worker balance. In every run the number of requests handed to the pool is the number
  in flight plus the number whose response has been processed, and while the loop runs the requests in flight are
  exactly the tasks waiting in the pool and the responses waiting in the completed queue: no request is lost or
  answered twice.
\<close>

theorem requests_accounted:
  assumes "wl_begin me i reg tp wfd ctl = Some (None, w0)" and "\<forall>p. tp = Some p \<longrightarrow> pool_tasks p = []" and "length events < 2 ^ 63"
  shows "\<exists>w. wl_run E me events w0 = Some w
    \<and> SubmittedRequestCount w = InFlightRequestCount w + CompletedRequestCount w
    \<and> (collects (dispatch w) \<longrightarrow> InFlightRequestCount w = length (tasks_of (dispatch w)) + length (responses_of (dispatch w)))"
proof -
  obtain w where w: "wl_run E me events w0 = Some w" "service_inv w" by (rule wl_service [OF assms])
  then have "counts_ok 0 (dispatch w)" by (simp add: service_inv_def wl_inv_def core_def)
  with w(1) show ?thesis
    by (auto simp: counts_ok_def SubmittedRequestCount_def InFlightRequestCount_def CompletedRequestCount_def)
qed

theorem requests_accounted_witness:
  "\<exists>w q. wl_run sample_env 7 sample_run sample_begun = Some w \<and> completed_queue (dispatch w) = Some q \<and> responses q \<noteq> []
    \<and> SubmittedRequestCount w = InFlightRequestCount w + CompletedRequestCount w"
  using requests_accounted [OF sample_begin, of sample_run sample_env] sample_answered
  by (auto simp: one_pool_def sample_run_def)

text \<open>
  C23: a response never reaches the wrong connection. For every response in the completed queue of a
  reachable worker, once \<open>DrainCompletedResponses\<close> has taken the queue, delivering it returns; a connection with its token is at
  its descriptor, so it is found; without such a connection, for instance because the descriptor has been
  reused by a new client, the response is dropped and no connection changes; and in either case no
  other connection changes.
\<close>

theorem response_reaches_its_connection:
  assumes "wl_begin me i reg tp wfd ctl = Some (None, w0)" and "\<forall>p. tp = Some p \<longrightarrow> pool_tasks p = []" and "length events < 2 ^ 63"
    and "wl_run E me events w0 = Some w" and "completed_queue (dispatch w) = Some q" and "r \<in> set (responses q)"
    and "v = w\<lparr>dispatch := (dispatch w)\<lparr>completed_queue := Some (q\<lparr>responses := []\<rparr>)\<rparr>\<rparr>"
  shows "\<exists>v'. deliver_completed E' r v = Some (None, v')
    \<and> (\<forall>fd c. map_of (connections v) fd = Some c \<and> connection_token c = cr_token r \<longrightarrow> fd = cr_fd r)
    \<and> ((\<nexists>fd c. map_of (connections v) fd = Some c \<and> connection_token c = cr_token r) \<longrightarrow> connections v' = connections v)
    \<and> (\<forall>fd. fd \<noteq> cr_fd r \<longrightarrow> map_of (connections v') fd = map_of (connections v) fd)"
proof -
  obtain u where u: "wl_run E me events w0 = Some u" "service_inv u" by (rule wl_service [OF assms(1-3)])
  then have inv: "wl_inv 0 w" using assms(4) by (simp add: service_inv_def)
  have "wl_inv (length (responses q)) v" using swap_responses_inv [OF inv assms(5)] assms(7) by simp
  then have "wl_inv (Suc (length (responses q) - 1)) v" using assms(6) by (cases "responses q") simp_all
  then obtain v' where v': "deliver_completed E' r v = Some (None, v')" using deliver_completed_returns by blast
  have "routed (connections v) (dispatch w)" using inv assms(7) by (simp add: wl_inv_def core_def)
  then have here: "fd = cr_fd r" if "map_of (connections v) fd = Some c" "connection_token c = cr_token r" for fd c
    using that assms(5,6) by (auto simp: routed_def responses_of_def)
  have "connections v' = connections v" if "\<nexists>fd c. map_of (connections v) fd = Some c \<and> connection_token c = cr_token r"
    using v' that by (auto simp: deliver_completed_def Let_def count_completed_def wok_def split: option.splits if_splits)
  with here v' deliver_completed_other [OF v'] show ?thesis by blast
qed

theorem response_reaches_its_connection_witness:
  "\<exists>w q r. wl_run sample_env 7 sample_run sample_begun = Some w \<and> completed_queue (dispatch w) = Some q \<and> r \<in> set (responses q)
    \<and> (\<forall>fd c. map_of (connections w) fd = Some c \<and> connection_token c = cr_token r \<longrightarrow> fd = cr_fd r)"
proof -
  have pool: "\<forall>p. Some one_pool = Some p \<longrightarrow> pool_tasks p = []" and len: "length sample_run < 2 ^ 63"
    by (simp_all add: one_pool_def sample_run_def)
  obtain w q r where w: "wl_run sample_env 7 sample_run sample_begun = Some w" "completed_queue (dispatch w) = Some q" "r \<in> set (responses q)"
    using sample_answered by (metis list.set_intros(1) neq_Nil_conv)
  from response_reaches_its_connection [OF sample_begin pool len w refl, where E' = sample_env] w show ?thesis by auto
qed

end
