(* ===== verification/Rpc_Server.thy ===== *)
theory Rpc_Server
  imports Unique_Fd Worker_Service
begin

text \<open>
  \<open>src/server/rpc_server.{h,cpp}\<close>: the acceptor, the life cycle of the server and the hand-over of
  connections to the workers. The results of the system calls are arguments. The thread pool is its
  number of threads here; what a worker sees of it is the pool of \<open>Worker_Dispatch\<close>, with the
  tasks of that worker. Descriptors held by \<^typ>\<open>UniqueFd\<close> members are closed through \<open>Reset\<close>;
  \<open>srv_closed\<close> lists the \<open>close\<close> calls of the server itself.
\<close>

section \<open>State\<close>

record RpcServer =
  port :: u16
  worker_count :: nat
  business_thread_count :: nat
  srv_registry :: ServiceRegistry
  listen_fd :: UniqueFd
  accept_epoll_fd :: UniqueFd
  business_thread_pool :: "nat option"
  srv_workers :: "WorkerLoop list"
  next_worker :: nat
  srv_stop_requested :: bool
  srv_accepting :: bool
  srv_running :: bool
  srv_closed :: "int list"

definition RpcServer_make :: "u16 \<Rightarrow> ServiceRegistry \<Rightarrow> nat \<Rightarrow> nat \<Rightarrow> RpcServer" where
  "RpcServer_make p reg workers threads =
     \<lparr>port = p, worker_count = (if workers = 0 then 1 else workers), business_thread_count = threads,
      srv_registry = reg, listen_fd = UniqueFd_default, accept_epoll_fd = UniqueFd_default,
      business_thread_pool = None, srv_workers = [], next_worker = 0, srv_stop_requested = False,
      srv_accepting = False, srv_running = False, srv_closed = []\<rparr>"

text \<open>Assigning to and resetting the two descriptor members.\<close>

definition set_listen :: "int \<Rightarrow> RpcServer \<Rightarrow> RpcServer" where
  "set_listen fd s = (case Reset fd (listen_fd s, srv_closed s) of (u, cs) \<Rightarrow> s\<lparr>listen_fd := u, srv_closed := cs\<rparr>)"

definition set_epoll :: "int \<Rightarrow> RpcServer \<Rightarrow> RpcServer" where
  "set_epoll fd s = (case Reset fd (accept_epoll_fd s, srv_closed s) of (u, cs) \<Rightarrow> s\<lparr>accept_epoll_fd := u, srv_closed := cs\<rparr>)"

definition CloseAcceptor :: "RpcServer \<Rightarrow> RpcServer" where
  "CloseAcceptor s = set_listen (- 1) (set_epoll (- 1) s)"

section \<open>Setting up\<close>

text \<open>The results of the calls of \<open>InitAcceptor\<close>, in order.\<close>

record acceptor_env =
  ae_socket :: "errno + nat"
  ae_reuseaddr :: "errno option"
  ae_reuseport :: "errno option"
  ae_getfl :: "errno option"
  ae_setfl :: "errno option"
  ae_bind :: "errno option"
  ae_listen :: "errno option"
  ae_epoll_create :: "errno + nat"
  ae_epoll_ctl :: "errno option"

text \<open>The first call that fails decides; the descriptors opened before it stay in their members.\<close>

fun first_failure :: "(string \<times> errno option) list \<Rightarrow> string option" where
  "first_failure [] = None"
| "first_failure ((what, None) # rest) = first_failure rest"
| "first_failure ((what, Some e) # rest) = Some (what @ strerror e)"

definition InitAcceptor :: "acceptor_env \<Rightarrow> RpcServer \<Rightarrow> string option \<times> RpcServer" where
  "InitAcceptor e s =
     (case ae_socket e of
        Inl err \<Rightarrow> (Some (''socket failed: '' @ strerror err), set_listen (- 1) s)
      | Inr fd \<Rightarrow>
          (let s1 = set_listen (int fd) s in
           case first_failure [(''setsockopt(SO_REUSEADDR) failed: '', ae_reuseaddr e),
                               (''setsockopt(SO_REUSEPORT) failed: '', ae_reuseport e),
                               (''fcntl(O_NONBLOCK) failed for listen fd: '', ae_getfl e),
                               (''fcntl(O_NONBLOCK) failed for listen fd: '', ae_setfl e),
                               (''bind failed: '', ae_bind e),
                               (''listen failed: '', ae_listen e)] of
             Some m \<Rightarrow> (Some m, s1)
           | None \<Rightarrow>
               (case ae_epoll_create e of
                  Inl err \<Rightarrow> (Some (''epoll_create1 failed: '' @ strerror err), set_epoll (- 1) s1)
                | Inr efd \<Rightarrow>
                    (let s2 = set_epoll (int efd) s1 in
                     (first_failure [(''epoll_ctl add listen fd failed: '', ae_epoll_ctl e)], s2)))))"

text \<open>\<open>StartBusinessThreadPool\<close>, with the error of \<open>ThreadPool::Start\<close> if it fails.\<close>

definition StartBusinessThreadPool :: "string option \<Rightarrow> RpcServer \<Rightarrow> string option \<times> RpcServer" where
  "StartBusinessThreadPool start_error s =
     (if business_thread_count s = 0 then (None, s\<lparr>business_thread_pool := None\<rparr>)
      else case start_error of
             Some m \<Rightarrow> (Some m, s\<lparr>business_thread_pool := None\<rparr>)
           | None \<Rightarrow> (None, s\<lparr>business_thread_pool := Some (business_thread_count s)\<rparr>))"

text \<open>The results of the system calls of \<open>WorkerLoop::Init\<close>, and the thread that \<open>Start\<close> creates.\<close>

record worker_env =
  we_epoll_create :: "errno option"
  we_eventfd :: "errno + int"
  we_ctl :: "errno option list"
  we_thread :: nat

definition pool_view :: "RpcServer \<Rightarrow> task_pool option" where
  "pool_view s = map_option (\<lambda>n. \<lparr>pool_accepting = True, pool_tasks = []\<rparr>) (business_thread_pool s)"

definition start_worker :: "worker_env \<Rightarrow> nat \<Rightarrow> nat \<Rightarrow> RpcServer \<Rightarrow> wresult" where
  "start_worker e this_thread i s =
     wthen (WorkerLoop_Init this_thread (we_epoll_create e) (we_eventfd e)
              (WorkerLoop_make i (srv_registry s) (pool_view s) (we_ctl e)))
       (WorkerLoop_Start (we_thread e))"

fun start_workers :: "(nat \<Rightarrow> worker_env) \<Rightarrow> nat \<Rightarrow> nat \<Rightarrow> RpcServer \<Rightarrow> string option \<times> RpcServer" where
  "start_workers envs this_thread 0 s = (None, s)"
| "start_workers envs this_thread (Suc k) s =
     (let i = length (srv_workers s) in
      case start_worker (envs i) this_thread i s of
        Some (None, w) \<Rightarrow> start_workers envs this_thread k (s\<lparr>srv_workers := srv_workers s @ [w]\<rparr>)
      | Some (Some m, w) \<Rightarrow> (Some m, s)
      | None \<Rightarrow> (Some [], s))"

definition StartWorkers :: "(nat \<Rightarrow> worker_env) \<Rightarrow> nat \<Rightarrow> RpcServer \<Rightarrow> string option \<times> RpcServer" where
  "StartWorkers envs this_thread s = start_workers envs this_thread (worker_count s) (s\<lparr>srv_workers := []\<rparr>)"

section \<open>Stopping\<close>

text \<open>
  \<open>StopBusinessThreadPool\<close>: the pool refuses new tasks, \<open>Join\<close> returns when the accepted ones have
  been run (\<^const>\<open>None\<close>: it still waits), and the pool is destroyed. The workers keep their pointer.
\<close>

definition pool_idle :: "WorkerLoop \<Rightarrow> bool" where
  "pool_idle w \<longleftrightarrow> (case thread_pool (dispatch w) of None \<Rightarrow> True | Some p \<Rightarrow> pool_tasks p = [])"

definition refuse_tasks :: "WorkerLoop \<Rightarrow> WorkerLoop" where
  "refuse_tasks w = w\<lparr>dispatch := (dispatch w)\<lparr>thread_pool := map_option (pool_accepting_update (\<lambda>_. False)) (thread_pool (dispatch w))\<rparr>\<rparr>"

definition StopBusinessThreadPool :: "RpcServer \<Rightarrow> RpcServer option" where
  "StopBusinessThreadPool s =
     (if business_thread_pool s = None then Some s
      else if list_all pool_idle (srv_workers s)
      then Some (s\<lparr>business_thread_pool := None, srv_workers := map refuse_tasks (srv_workers s)\<rparr>)
      else None)"

text \<open>The two phases of \<open>StopWorkers\<close>; the second waits for every thread.\<close>

definition request_stops :: "RpcServer \<Rightarrow> RpcServer" where
  "request_stops s = s\<lparr>srv_workers := map RequestStop (srv_workers s)\<rparr>"

definition join_workers :: "RpcServer \<Rightarrow> RpcServer option" where
  "join_workers s =
     (if list_all (\<lambda>w. WorkerLoop_Join w \<noteq> None) (srv_workers s) then Some (s\<lparr>srv_workers := []\<rparr>) else None)"

section \<open>Accepting\<close>

definition SelectWorker :: "RpcServer \<Rightarrow> nat \<times> RpcServer" where
  "SelectWorker s = (next_worker s, s\<lparr>next_worker := (next_worker s + 1) mod length (srv_workers s)\<rparr>)"

text \<open>
  Handing over one connection. \<open>EnqueueConnection\<close> owns the descriptor and closes it if it fails;
  the acceptor closes it once more.
\<close>

definition hand_over :: "int \<Rightarrow> string \<Rightarrow> RpcServer \<Rightarrow> nat \<times> RpcServer" where
  "hand_over fd peer s =
     (case SelectWorker s of
        (i, s1) \<Rightarrow>
          (case EnqueueConnection fd peer (srv_workers s1 ! i) of
             Some (None, w) \<Rightarrow> (i, s1\<lparr>srv_workers := (srv_workers s1)[i := w]\<rparr>)
           | Some (Some m, w) \<Rightarrow> (i, s1\<lparr>srv_workers := (srv_workers s1)[i := w], srv_closed := srv_closed s1 @ [fd]\<rparr>)
           | None \<Rightarrow> (i, s1)))"

section \<open>The thread of Start\<close>

text \<open>
  \<open>Start\<close> from one moment at which other threads matter to the next: the life-cycle lock, the stores of
  the flags, the set-up, the accept loop (before \<open>epoll_wait\<close>, and while it works through the events
  that were reported), and the steps of the shut-down, each of which may have to wait. A server that
  has returned may be started again.
\<close>

datatype ending = SetupFailed | LoopFailed | Stopped

datatype start_pc =
    NotStarted
  | SetFlags
  | SetUp
  | AcceptLoop
  | Accepting "int list"
  | CleanUp ending
  | StopPool ending
  | BroadcastStop ending
  | JoinAll ending
  | Finish ending
  | Returned bool

text \<open>What the environment answers in the step.\<close>

datatype start_input =
    Go
  | SetupAnswers acceptor_env "string option" "nat \<Rightarrow> worker_env" nat
  | Waited "errno + int list"
  | AcceptedConn "errno + nat \<times> string"

definition set_up :: "acceptor_env \<Rightarrow> string option \<Rightarrow> (nat \<Rightarrow> worker_env) \<Rightarrow> nat \<Rightarrow> RpcServer \<Rightarrow> start_pc \<times> RpcServer" where
  "set_up ae pool_error envs this_thread s =
     (case InitAcceptor ae s of
        (Some m, s1) \<Rightarrow> (Finish SetupFailed, CloseAcceptor s1)
      | (None, s1) \<Rightarrow>
          (case StartBusinessThreadPool pool_error s1 of
             (Some m, s2) \<Rightarrow> (Finish SetupFailed, CloseAcceptor s2)
           | (None, s2) \<Rightarrow>
               (case StartWorkers envs this_thread s2 of
                  (Some m, s3) \<Rightarrow> (StopPool SetupFailed, s3)
                | (None, s3) \<Rightarrow> (AcceptLoop, s3))))"

fun start_step :: "start_input \<Rightarrow> start_pc \<Rightarrow> RpcServer \<Rightarrow> start_pc \<times> RpcServer \<times> (int \<times> nat) list" where
  "start_step Go NotStarted s =
     (if srv_running s then (Returned False, s, []) else (SetFlags, s\<lparr>srv_running := True\<rparr>, []))"
| "start_step Go SetFlags s = (SetUp, s\<lparr>srv_stop_requested := False, srv_accepting := True, next_worker := 0\<rparr>, [])"
| "start_step (SetupAnswers ae pool_error envs t) SetUp s = (case set_up ae pool_error envs t s of (pc, s') \<Rightarrow> (pc, s', []))"
| "start_step (Waited ready) AcceptLoop s =
     (if srv_stop_requested s then (CleanUp Stopped, s, [])
      else case ready of
             Inl e \<Rightarrow> (if e = EINTR then (AcceptLoop, s, []) else (CleanUp LoopFailed, s, []))
           | Inr evs \<Rightarrow> (if \<not> srv_accepting s then (AcceptLoop, s, []) else (Accepting evs, s, [])))"
| "start_step (AcceptedConn r) (Accepting []) s = (AcceptLoop, s, [])"
| "start_step (AcceptedConn r) (Accepting (fd # evs)) s =
     (if fd \<noteq> Get (listen_fd s) \<or> \<not> srv_accepting s then (Accepting evs, s, [])
      else case r of
             Inl e \<Rightarrow> (if e = EINTR then (Accepting (fd # evs), s, []) else (Accepting evs, s, []))
           | Inr (client, peer) \<Rightarrow>
               (case hand_over (int client) peer s of (i, s') \<Rightarrow> (Accepting (fd # evs), s', [(int client, i)])))"
| "start_step Go (CleanUp r) s =
     (StopPool r, CloseAcceptor (s\<lparr>srv_accepting := False, srv_stop_requested := True\<rparr>), [])"
| "start_step Go (StopPool r) s =
     (case StopBusinessThreadPool s of None \<Rightarrow> (StopPool r, s, []) | Some s' \<Rightarrow> (BroadcastStop r, s', []))"
| "start_step Go (BroadcastStop r) s = (JoinAll r, request_stops s, [])"
| "start_step Go (JoinAll r) s =
     (case join_workers s of
        None \<Rightarrow> (JoinAll r, s, [])
      | Some s' \<Rightarrow> (Finish r, if r = SetupFailed then CloseAcceptor s' else s', []))"
| "start_step Go (Finish r) s = (Returned (r = Stopped), s\<lparr>srv_running := False\<rparr>, [])"
| "start_step Go (Returned b) s =
     (if srv_running s then (Returned False, s, []) else (SetFlags, s\<lparr>srv_running := True\<rparr>, []))"
| "start_step _ pc s = (pc, s, [])"

section \<open>Stop\<close>

text \<open>
  \<open>Stop\<close> of a server that does not run cleans up what there is, under the lock (\<^const>\<open>None\<close>: it waits);
  otherwise it publishes the request and waits until \<open>Start\<close> has finished.
\<close>

definition Stop_idle :: "RpcServer \<Rightarrow> RpcServer option" where
  "Stop_idle s =
     (case StopBusinessThreadPool (s\<lparr>srv_stop_requested := True, srv_accepting := False\<rparr>) of
        None \<Rightarrow> None
      | Some s1 \<Rightarrow> (case join_workers (request_stops s1) of None \<Rightarrow> None | Some s2 \<Rightarrow> Some (CloseAcceptor s2)))"

definition Stop_request :: "RpcServer \<Rightarrow> RpcServer" where
  "Stop_request s = s\<lparr>srv_accepting := False, srv_stop_requested := True\<rparr>"

section \<open>Statistics\<close>

record MethodRuntimeStats =
  mr_method :: string
  mr_call_count :: nat
  mr_failure_count :: nat

record WorkerRuntimeStats =
  wr_worker_id :: nat
  wr_current_connections :: nat
  wr_total_accepted_connections :: nat
  wr_in_flight_requests :: nat
  wr_submitted_requests :: nat
  wr_completed_requests :: nat
  wr_method_stats :: "MethodRuntimeStats list"

record 'p RuntimeStatsSnapshot =
  rt_workers :: "WorkerRuntimeStats list"
  rt_business_thread_pool :: "'p option"

definition worker_stats :: "WorkerLoop \<Rightarrow> WorkerRuntimeStats" where
  "worker_stats w =
     \<lparr>wr_worker_id = WorkerId w, wr_current_connections = ConnectionCount w,
      wr_total_accepted_connections = TotalAcceptedCount w, wr_in_flight_requests = InFlightRequestCount w,
      wr_submitted_requests = SubmittedRequestCount w, wr_completed_requests = CompletedRequestCount w,
      wr_method_stats = map (\<lambda>m. \<lparr>mr_method = ms_method m, mr_call_count = ms_call_count m, mr_failure_count = ms_failure_count m\<rparr>)
                          (MethodStats w)\<rparr>"

definition srv_StatsSnapshot :: "'p \<Rightarrow> RpcServer \<Rightarrow> 'p RuntimeStatsSnapshot" where
  "srv_StatsSnapshot pool_stats s =
     \<lparr>rt_workers = map worker_stats (srv_workers s),
      rt_business_thread_pool = map_option (\<lambda>_. pool_stats) (business_thread_pool s)\<rparr>"

section \<open>The server at work\<close>

text \<open>
  One thread runs \<open>Start\<close>, any number of threads call \<open>Stop\<close>, and the threads of the workers and of the
  pool run. \<open>accepted\<close> lists the connections accepted since the last start, with the worker chosen;
  \<open>retired\<close> are the workers that have been destroyed: what is left in the hand-over queue of a worker
  is closed with it.
\<close>

datatype stop_pc = StopEntered | StopWaiting | StopReturned

record srv_sys =
  srv :: RpcServer
  start_pc :: start_pc
  stoppers :: "stop_pc list"
  accepted :: "(int \<times> nat) list"
  retired :: "WorkerLoop list"

definition srv_init :: "RpcServer \<Rightarrow> srv_sys" where
  "srv_init s = \<lparr>srv = s, start_pc = NotStarted, stoppers = [], accepted = [], retired = []\<rparr>"

definition retire :: "WorkerLoop \<Rightarrow> WorkerLoop" where
  "retire w = w\<lparr>pending_connections := [], closed_fds := closed_fds w @ map pc_fd (pending_connections w)\<rparr>"

datatype srv_event = StartStep start_input | CallStop | StopStep nat | WorkerStep nat wl_event

fun own_event :: "wl_event \<Rightarrow> bool" where
  "own_event (Accepted fd peer) = False"
| "own_event StopRequested = False"
| "own_event _ = True"

definition exec_start :: "start_input \<Rightarrow> srv_sys \<Rightarrow> srv_sys" where
  "exec_start inp x =
     (case start_step inp (start_pc x) (srv x) of
        (pc, s, acc) \<Rightarrow>
          x\<lparr>srv := s, start_pc := pc,
            accepted := (if start_pc x = SetFlags \<and> pc = SetUp then [] else accepted x @ acc),
            retired := (if start_pc x = SetFlags \<and> pc = SetUp then []
                        else if (\<exists>r. start_pc x = JoinAll r \<and> pc = Finish r) then map retire (srv_workers (srv x))
                        else retired x)\<rparr>)"

fun srv_exec :: "conn_env \<Rightarrow> srv_event \<Rightarrow> srv_sys \<Rightarrow> srv_sys" where
  "srv_exec E (StartStep inp) x = exec_start inp x"
| "srv_exec E CallStop x =
     (if srv_running (srv x) then x\<lparr>stoppers := stoppers x @ [StopEntered]\<rparr>
      else case Stop_idle (srv x) of
             None \<Rightarrow> x
           | Some s \<Rightarrow> x\<lparr>srv := s, stoppers := stoppers x @ [StopReturned]\<rparr>)"
| "srv_exec E (StopStep k) x =
     (if k < length (stoppers x)
      then (case stoppers x ! k of
              StopEntered \<Rightarrow> x\<lparr>srv := Stop_request (srv x), stoppers := (stoppers x)[k := StopWaiting]\<rparr>
            | StopWaiting \<Rightarrow> (if srv_running (srv x) then x else x\<lparr>stoppers := (stoppers x)[k := StopReturned]\<rparr>)
            | StopReturned \<Rightarrow> x)
      else x)"
| "srv_exec E (WorkerStep i e) x =
     (if i < length (srv_workers (srv x)) \<and> own_event e
      then (case wl_exec E (the (owner_thread (srv_workers (srv x) ! i))) e (srv_workers (srv x) ! i) of
              None \<Rightarrow> x
            | Some w \<Rightarrow> x\<lparr>srv := (srv x)\<lparr>srv_workers := (srv_workers (srv x))[i := w]\<rparr>\<rparr>)
      else x)"

end
