(* ===== verification/Server_Run.thy ===== *)
theory Server_Run
  imports Rpc_Server
begin

text \<open>
  The server over its whole life: which connections its workers hold at any moment of any run, and
  what is left when \<open>Start\<close> has returned.
\<close>

section \<open>Invariant\<close>

text \<open>Nothing is held: no descriptor, no pool, no worker.\<close>

definition at_rest :: "RpcServer \<Rightarrow> bool" where
  "at_rest s \<longleftrightarrow> listen_fd s = - 1 \<and> accept_epoll_fd s = - 1 \<and> business_thread_pool s = None \<and> srv_workers s = []"

text \<open>The connections that were given to worker \<open>i\<close>, and a worker that holds just these.\<close>

definition given_to :: "nat \<Rightarrow> (int \<times> nat) list \<Rightarrow> int list" where
  "given_to i acc = map fst (filter (\<lambda>a. snd a = i) acc)"

definition worker_ok :: "nat \<Rightarrow> WorkerLoop \<Rightarrow> bool" where
  "worker_ok n w \<longleftrightarrow> service_inv w \<and> joinable w \<and> handed_in w \<le> Suc n"

definition hands_ok :: "(int \<times> nat) list \<Rightarrow> WorkerLoop list \<Rightarrow> bool" where
  "hands_ok acc ws \<longleftrightarrow> (\<forall>i<length ws. owned (ws ! i) = mset (given_to i acc))"

definition round_robin :: "nat \<Rightarrow> (int \<times> nat) list \<Rightarrow> bool" where
  "round_robin n acc \<longleftrightarrow> (\<forall>k<length acc. snd (acc ! k) = k mod n)"

fun serving_pc :: "start_pc \<Rightarrow> bool" where
  "serving_pc AcceptLoop = True"
| "serving_pc (Accepting evs) = True"
| "serving_pc (CleanUp r) = (r \<noteq> SetupFailed)"
| "serving_pc _ = False"

fun resting_pc :: "start_pc \<Rightarrow> bool" where
  "resting_pc NotStarted = True"
| "resting_pc SetFlags = True"
| "resting_pc SetUp = True"
| "resting_pc (Finish r) = True"
| "resting_pc (Returned b) = True"
| "resting_pc _ = False"

fun phase_ok :: "start_pc \<Rightarrow> RpcServer \<Rightarrow> bool" where
  "phase_ok (StopPool r) s = (r = SetupFailed \<or> listen_fd s = - 1 \<and> accept_epoll_fd s = - 1)"
| "phase_ok (BroadcastStop r) s =
     (business_thread_pool s = None \<and> (r = SetupFailed \<or> listen_fd s = - 1 \<and> accept_epoll_fd s = - 1))"
| "phase_ok (JoinAll r) s =
     (business_thread_pool s = None \<and> (r = SetupFailed \<or> listen_fd s = - 1 \<and> accept_epoll_fd s = - 1))"
| "phase_ok pc s =
     (if serving_pc pc then length (srv_workers s) = worker_count s \<and> srv_workers s \<noteq> [] else resting_pc pc \<and> at_rest s)"

definition session_workers :: "srv_sys \<Rightarrow> WorkerLoop list" where
  "session_workers x = (if srv_workers (srv x) = [] then retired x else srv_workers (srv x))"

definition srv_inv :: "nat \<Rightarrow> srv_sys \<Rightarrow> bool" where
  "srv_inv n x \<longleftrightarrow>
     (\<forall>w \<in> set (srv_workers (srv x)). worker_ok n w)
     \<and> (\<forall>w \<in> set (retired x). connections w = [] \<and> pending_connections w = [])
     \<and> 0 < worker_count (srv x)
     \<and> phase_ok (start_pc x) (srv x)
     \<and> (srv_running (srv x) \<longleftrightarrow> start_pc x \<noteq> NotStarted \<and> (\<forall>b. start_pc x \<noteq> Returned b))
     \<and> hands_ok (accepted x) (session_workers x)
     \<and> (\<forall>a \<in> set (accepted x). snd a < length (session_workers x))
     \<and> round_robin (worker_count (srv x)) (accepted x)
     \<and> (start_pc x = SetUp \<or> \<not> resting_pc (start_pc x) \<and> srv_workers (srv x) = [] \<longrightarrow> accepted x = [] \<and> retired x = [])
     \<and> (start_pc x = SetUp \<or> serving_pc (start_pc x) \<longrightarrow> next_worker (srv x) = length (accepted x) mod worker_count (srv x))"

section \<open>The operations keep it\<close>

lemma worker_ok_mono: "worker_ok n w \<Longrightarrow> n \<le> m \<Longrightarrow> worker_ok m w"
  by (simp add: worker_ok_def)

lemma start_worker_begin:
  assumes "start_worker e me i s = Some (None, w)"
  obtains fd where "wl_begin (we_thread e) i (srv_registry s) (pool_view s) fd (we_ctl e) = Some (None, w)"
proof (cases "we_eventfd e")
  case (Inl err)
  with assms show thesis by (auto simp: start_worker_def WorkerLoop_Init_def wfail_def wthen_def Let_def split: option.splits)
next
  case (Inr fd)
  with assms have "wl_begin (we_thread e) i (srv_registry s) (pool_view s) fd (we_ctl e) = Some (None, w)"
    by (auto simp: start_worker_def wl_begin_def WorkerLoop_Init_def WorkerLoop_Start_def wfail_def wok_def wthen_def Let_def
        split: option.splits prod.splits if_splits)
  then show thesis by (rule that)
qed

lemma start_worker_ok:
  assumes "start_worker e me i s = Some (None, w)"
  shows "worker_ok n w \<and> owned w = {#}"
proof -
  from assms obtain fd where "wl_begin (we_thread e) i (srv_registry s) (pool_view s) fd (we_ctl e) = Some (None, w)"
    by (rule start_worker_begin)
  from wl_begin_inv [OF this] show ?thesis by (auto simp: worker_ok_def pool_view_def)
qed

text \<open>Starting the workers touches nothing but the list of workers.\<close>

definition same_but_workers :: "RpcServer \<Rightarrow> RpcServer \<Rightarrow> bool" where
  "same_but_workers s s' \<longleftrightarrow> (\<exists>ws. s' = s\<lparr>srv_workers := ws\<rparr>)"

lemma start_workers_ok:
  assumes "start_workers envs me k s = (r, s')" and "\<forall>w \<in> set (srv_workers s). worker_ok n w \<and> owned w = {#}"
  shows "same_but_workers s s' \<and> (\<forall>w \<in> set (srv_workers s'). worker_ok n w \<and> owned w = {#})
    \<and> (r = None \<longrightarrow> length (srv_workers s') = length (srv_workers s) + k)"
  using assms
proof (induction k arbitrary: s)
  case 0
  then show ?case by (auto simp: same_but_workers_def intro: exI [of _ "srv_workers s"])
next
  case (Suc k)
  let ?r = "start_worker (envs (length (srv_workers s))) me (length (srv_workers s)) s"
  show ?case
  proof (cases "\<exists>w. ?r = Some (None, w)")
    case True
    then obtain w where w: "?r = Some (None, w)" by blast
    with Suc.IH [of "s\<lparr>srv_workers := srv_workers s @ [w]\<rparr>"] Suc.prems start_worker_ok [OF w, of n]
    show ?thesis by (auto simp: same_but_workers_def)
  next
    case False
    with Suc.prems have "s' = s" "r \<noteq> None" by (auto simp: Let_def split: option.splits prod.splits)
    with Suc.prems show ?thesis by (auto simp: same_but_workers_def intro: exI [of _ "srv_workers s"])
  qed
qed

lemma set_fd_fields [simp]:
  "srv_workers (set_listen fd s) = srv_workers s" "srv_workers (set_epoll fd s) = srv_workers s"
  "worker_count (set_listen fd s) = worker_count s" "worker_count (set_epoll fd s) = worker_count s"
  "business_thread_pool (set_listen fd s) = business_thread_pool s" "business_thread_pool (set_epoll fd s) = business_thread_pool s"
  "next_worker (set_listen fd s) = next_worker s" "next_worker (set_epoll fd s) = next_worker s"
  "srv_running (set_listen fd s) = srv_running s" "srv_running (set_epoll fd s) = srv_running s"
  "listen_fd (set_listen fd s) = fd" "listen_fd (set_epoll fd s) = listen_fd s"
  "accept_epoll_fd (set_listen fd s) = accept_epoll_fd s" "accept_epoll_fd (set_epoll fd s) = fd"
  by (simp_all add: set_listen_def set_epoll_def Reset_def)

lemma CloseAcceptor_fields [simp]:
  "srv_workers (CloseAcceptor s) = srv_workers s" "worker_count (CloseAcceptor s) = worker_count s"
  "business_thread_pool (CloseAcceptor s) = business_thread_pool s" "next_worker (CloseAcceptor s) = next_worker s"
  "srv_running (CloseAcceptor s) = srv_running s" "listen_fd (CloseAcceptor s) = - 1" "accept_epoll_fd (CloseAcceptor s) = - 1"
  by (simp_all add: CloseAcceptor_def)

lemma InitAcceptor_fields:
  "InitAcceptor e s = (r, s') \<Longrightarrow> srv_workers s' = srv_workers s \<and> worker_count s' = worker_count s
     \<and> business_thread_pool s' = business_thread_pool s \<and> next_worker s' = next_worker s \<and> srv_running s' = srv_running s"
  by (auto simp: InitAcceptor_def Let_def split: sum.splits option.splits)

text \<open>Setting up ends in the accept loop with all workers, or in one of the two ways out.\<close>

lemma set_up_cases:
  assumes "set_up ae pe envs me s = (pc, s')" and "at_rest s"
  shows "worker_count s' = worker_count s \<and> next_worker s' = next_worker s \<and> srv_running s' = srv_running s
    \<and> (\<forall>w \<in> set (srv_workers s'). worker_ok n w \<and> owned w = {#})
    \<and> (pc = Finish SetupFailed \<and> at_rest s' \<or> pc = StopPool SetupFailed
       \<or> pc = AcceptLoop \<and> length (srv_workers s') = worker_count s')"
proof -
  obtain r1 s1 where 1: "InitAcceptor ae s = (r1, s1)" by fastforce
  note f1 = InitAcceptor_fields [OF 1]
  obtain r2 s2 where 2: "StartBusinessThreadPool pe s1 = (r2, s2)" by fastforce
  then have f2: "\<exists>b. s2 = s1\<lparr>business_thread_pool := b\<rparr> \<and> (r2 \<noteq> None \<longrightarrow> b = None)"
    by (auto simp: StartBusinessThreadPool_def split: if_splits option.splits)
  obtain r3 s3 where 3: "StartWorkers envs me s2 = (r3, s3)" by fastforce
  then have f3: "same_but_workers (s2\<lparr>srv_workers := []\<rparr>) s3" "\<forall>w \<in> set (srv_workers s3). worker_ok n w \<and> owned w = {#}"
      "r3 = None \<longrightarrow> length (srv_workers s3) = worker_count s2"
    using start_workers_ok [of envs me "worker_count s2" "s2\<lparr>srv_workers := []\<rparr>" r3 s3 n] by (auto simp: StartWorkers_def)
  show ?thesis
  proof (cases r1)
    case None
    show ?thesis
    proof (cases r2)
      case r2: None
      from f2 obtain b where s2: "s2 = s1\<lparr>business_thread_pool := b\<rparr>" by blast
      from f3(1) obtain ws where s3: "s3 = s2\<lparr>srv_workers := ws\<rparr>" by (auto simp: same_but_workers_def)
      have "(pc, s') = (if r3 = None then (AcceptLoop, s3) else (StopPool SetupFailed, s3))"
        using assms(1) 1 2 3 None r2 by (auto simp: set_up_def split: option.splits)
      with f1 f3(2,3) s2 s3 show ?thesis by (auto split: if_splits)
    next
      case (Some m)
      with f2 obtain b where "s2 = s1\<lparr>business_thread_pool := None\<rparr>" by blast
      with assms 1 2 None Some f1 show ?thesis by (auto simp: set_up_def at_rest_def)
    qed
  qed (use assms 1 f1 in \<open>auto simp: set_up_def at_rest_def\<close>)
qed

lemma wl_exec_ok:
  assumes "worker_ok n w" and "n < 2 ^ 63" and "wl_exec E me e w = Some w'"
  shows "worker_ok (Suc n) w'" and "owned w' = owned w + mset (given_fd e)"
  using wl_exec_returns [of w E me e] assms by (auto simp: worker_ok_def)

lemma refuse_tasks_ok:
  "worker_ok n (refuse_tasks w) = worker_ok n w" "owned (refuse_tasks w) = owned w"
proof -
  have t: "tasks_of (dispatch (refuse_tasks w)) = tasks_of (dispatch w)"
    by (simp add: refuse_tasks_def tasks_of_def split: option.split)
  have d: "dispatch (refuse_tasks w) = (dispatch w)\<lparr>thread_pool := map_option (pool_accepting_update (\<lambda>_. False)) (thread_pool (dispatch w))\<rparr>"
    by (simp add: refuse_tasks_def)
  have "core 0 (refuse_tasks w) = core 0 w"
    unfolding core_def counts_ok_def tokens_below_def routed_def t by (simp add: d responses_of_def collects_def conn_ok_def) (simp add: refuse_tasks_def)
  then show "worker_ok n (refuse_tasks w) = worker_ok n w"
    by (simp add: worker_ok_def service_inv_def wl_inv_def exact_def handed_in_def) (simp add: refuse_tasks_def)
  show "owned (refuse_tasks w) = owned w" by (simp add: owned_def refuse_tasks_def)
qed

lemma RequestStop_ok: "worker_ok n (RequestStop w) = worker_ok n w" "owned (RequestStop w) = owned w"
  by (simp_all add: RequestStop_def worker_ok_def service_inv_def wl_inv_flags) (simp_all add: owned_def handed_in_def)

lemma retire_ok:
  assumes "worker_ok n w" and "WorkerLoop_Join w \<noteq> None"
  shows "connections (retire w) = [] \<and> pending_connections (retire w) = [] \<and> owned (retire w) = owned w"
  using assms by (auto simp: worker_ok_def service_inv_def WorkerLoop_Join_def retire_def owned_def split: if_splits)

text \<open>Updating all workers, or one, keeps the record of what they hold.\<close>

lemma hands_ok_map: "(\<And>w. w \<in> set ws \<Longrightarrow> owned (f w) = owned w) \<Longrightarrow> hands_ok acc (map f ws) = hands_ok acc ws"
  by (simp add: hands_ok_def)

lemma given_to_append [simp]: "given_to i (acc @ bcc) = given_to i acc @ given_to i bcc"
  by (simp add: given_to_def)

lemma given_to_one [simp]: "given_to i [(fd, j)] = (if j = i then [fd] else [])"
  by (simp add: given_to_def)

lemma round_robin_append: "round_robin n acc \<Longrightarrow> round_robin n (acc @ [(fd, length acc mod n)])"
  by (auto simp: round_robin_def nth_append less_Suc_eq)

lemma hand_over_ok:
  assumes "hand_over fd peer s = (i, s')" and "0 \<le> fd" and "next_worker s < length (srv_workers s)"
    and "\<forall>w \<in> set (srv_workers s). worker_ok n w" and "n < 2 ^ 63"
  shows "i = next_worker s \<and> next_worker s' = Suc i mod length (srv_workers s)
    \<and> length (srv_workers s') = length (srv_workers s) \<and> (\<forall>w \<in> set (srv_workers s'). worker_ok (Suc n) w)
    \<and> (hands_ok acc (srv_workers s) \<longrightarrow> hands_ok (acc @ [(fd, i)]) (srv_workers s'))
    \<and> worker_count s' = worker_count s \<and> srv_running s' = srv_running s"
proof -
  let ?ws = "srv_workers s" and ?i = "next_worker s"
  obtain m w where e: "EnqueueConnection fd peer (?ws ! ?i) = Some (m, w)"
    by (fastforce simp: EnqueueConnection_def Let_def wok_def wfail_def)
  have "wl_exec undefined undefined (Accepted fd peer) (?ws ! ?i) = Some w" using e by (simp add: drop_result_def)
  from wl_exec_ok [OF _ assms(5) this] assms(2-4)
  have w: "worker_ok (Suc n) w" "owned w = owned (?ws ! ?i) + {#fd#}" by auto
  have s': "i = ?i" "srv_workers s' = ?ws[?i := w]" "next_worker s' = Suc ?i mod length ?ws"
      "worker_count s' = worker_count s" "srv_running s' = srv_running s"
    using assms(1) e by (cases m; simp add: hand_over_def SelectWorker_def; fastforce)+
  have "\<forall>v \<in> set (?ws[?i := w]). worker_ok (Suc n) v"
    using assms(4) w(1) worker_ok_mono [of n _ "Suc n"] by (auto dest!: subsetD [OF set_update_subset_insert])
  moreover have "hands_ok (acc @ [(fd, ?i)]) (?ws[?i := w])" if "hands_ok acc ?ws"
    using that w(2) assms(3) by (auto simp: hands_ok_def nth_list_update)
  ultimately show ?thesis using s' by simp
qed

lemma srv_inv_mono: "srv_inv n x \<Longrightarrow> srv_inv (Suc n) x"
  using worker_ok_mono [of n _ "Suc n"] by (simp add: srv_inv_def)

lemma session_workers_same:
  "srv_workers (srv y) = srv_workers (srv x) \<Longrightarrow> retired y = retired x \<Longrightarrow> session_workers y = session_workers x"
  by (simp add: session_workers_def)

lemma exec_start_idle:
  "start_step inp (start_pc x) (srv x) = (start_pc x, srv x, []) \<Longrightarrow> exec_start inp x = x"
  by (auto simp: exec_start_def)

lemma srv_invD:
  assumes "srv_inv n x"
  shows "\<forall>w \<in> set (srv_workers (srv x)). worker_ok n w" "0 < worker_count (srv x)" "phase_ok (start_pc x) (srv x)"
    "hands_ok (accepted x) (session_workers x)" "round_robin (worker_count (srv x)) (accepted x)"
  using assms by (simp_all add: srv_inv_def)

lemma setup_inv:
  assumes "srv_inv n x" and "start_pc x = SetUp" and "set_up ae pe envs me (srv x) = (pc, s')"
  shows "srv_inv (Suc n) (x\<lparr>srv := s', start_pc := pc\<rparr>)"
proof -
  from assms have "at_rest (srv x)" "accepted x = []" "retired x = []" by (simp_all add: srv_inv_def)
  with set_up_cases [OF assms(3), of "Suc n"] assms(1,2) show ?thesis
    by (auto simp: srv_inv_def session_workers_def hands_ok_def given_to_def round_robin_def at_rest_def)
qed

lemma accept_inv:
  assumes "srv_inv n x" and "n < 2 ^ 63" and "start_pc x = Accepting evs" and "hand_over (int c) peer (srv x) = (i, s')"
  shows "srv_inv (Suc n) (x\<lparr>srv := s', accepted := accepted x @ [(int c, i)]\<rparr>)"
proof -
  let ?s = "srv x"
  from assms(1,3) have len: "length (srv_workers ?s) = worker_count ?s" "srv_workers ?s \<noteq> []"
      "next_worker ?s = length (accepted x) mod worker_count ?s" "0 < worker_count ?s"
    by (simp_all add: srv_inv_def)
  have h: "i = next_worker ?s" "next_worker s' = Suc i mod length (srv_workers ?s)" "length (srv_workers s') = length (srv_workers ?s)"
      "\<forall>w \<in> set (srv_workers s'). worker_ok (Suc n) w"
      "hands_ok (accepted x) (srv_workers ?s) \<longrightarrow> hands_ok (accepted x @ [(int c, i)]) (srv_workers s')"
      "worker_count s' = worker_count ?s" "srv_running s' = srv_running ?s"
    using hand_over_ok [OF assms(4) _ _ srv_invD(1) [OF assms(1)] assms(2), of "accepted x"] len by auto
  have "srv_workers s' \<noteq> []" using h(3) len(2) by auto
  moreover have "next_worker s' = length (accepted x @ [(int c, i)]) mod worker_count s'"
    using h(1,2,6) len(1,3) by (simp add: mod_Suc_eq)
  moreover have "round_robin (worker_count s') (accepted x @ [(int c, i)])"
    using round_robin_append [OF srv_invD(5) [OF assms(1)]] h(1,6) len(3) by simp
  ultimately show ?thesis
    using assms(1,3) h len by (auto simp: srv_inv_def session_workers_def)
qed

lemma stop_pool_inv:
  assumes "srv_inv n x" and "start_pc x = StopPool r" and "StopBusinessThreadPool (srv x) = Some s'"
  shows "srv_inv n (x\<lparr>srv := s', start_pc := BroadcastStop r\<rparr>)"
proof (cases "business_thread_pool (srv x) = None")
  case True
  with assms show ?thesis by (auto simp: StopBusinessThreadPool_def srv_inv_def session_workers_def)
next
  case False
  with assms(3) have s': "s' = (srv x)\<lparr>business_thread_pool := None, srv_workers := map refuse_tasks (srv_workers (srv x))\<rparr>"
    by (auto simp: StopBusinessThreadPool_def split: if_splits)
  with assms(1,2) show ?thesis
    by (auto simp: srv_inv_def session_workers_def refuse_tasks_ok hands_ok_map)
qed

lemma broadcast_inv:
  assumes "srv_inv n x" and "start_pc x = BroadcastStop r"
  shows "srv_inv n (x\<lparr>srv := request_stops (srv x), start_pc := JoinAll r\<rparr>)"
  using assms by (auto simp: request_stops_def srv_inv_def session_workers_def RequestStop_ok hands_ok_map)

lemma join_inv:
  assumes "srv_inv n x" and "start_pc x = JoinAll r" and "join_workers (srv x) = Some s'"
  shows "srv_inv n (x\<lparr>srv := (if r = SetupFailed then CloseAcceptor s' else s'), start_pc := Finish r,
                      retired := map retire (srv_workers (srv x))\<rparr>)"
proof -
  let ?ws = "srv_workers (srv x)"
  from assms(3) have all: "\<forall>w \<in> set ?ws. WorkerLoop_Join w \<noteq> None" and s': "s' = (srv x)\<lparr>srv_workers := []\<rparr>"
    by (auto simp: join_workers_def list_all_iff split: if_splits)
  have ret: "connections (retire w) = [] \<and> pending_connections (retire w) = [] \<and> owned (retire w) = owned w" if "w \<in> set ?ws" for w
    using retire_ok [of n w] that all srv_invD(1) [OF assms(1)] by blast
  have e: "accepted x = []" if "?ws = []"
    using assms(1,2) that by (simp add: srv_inv_def)
  have "hands_ok (accepted x) (map retire ?ws)"
  proof (cases "?ws = []")
    case False
    then show ?thesis using srv_invD(4) [OF assms(1)] ret by (simp add: hands_ok_map session_workers_def)
  qed (simp add: hands_ok_def)
  moreover have "\<forall>a \<in> set (accepted x). snd a < length ?ws"
    using assms(1) e by (cases "?ws = []") (auto simp: srv_inv_def session_workers_def)
  ultimately show ?thesis
    using assms(1,2) s' ret by (auto simp: srv_inv_def session_workers_def at_rest_def)
qed

lemma exec_start_inv:
  assumes "srv_inv n x" and "n < 2 ^ 63"
  shows "srv_inv (Suc n) (exec_start inp x)"
proof (cases "start_step inp (start_pc x) (srv x) = (start_pc x, srv x, [])")
  case True
  then show ?thesis using srv_inv_mono [OF assms(1)] by (simp add: exec_start_idle)
next
  case False
  let ?s = "srv x"
  obtain pc s' acc where st: "start_step inp (start_pc x) ?s = (pc, s', acc)" by (metis prod_cases3)
  have x: "exec_start inp x = x\<lparr>srv := s', start_pc := pc, accepted := accepted x @ acc\<rparr>"
    if "start_pc x \<noteq> SetFlags" "\<nexists>r. start_pc x = JoinAll r"
    using st that by (simp add: exec_start_def)
  note inv = srv_inv_mono [OF assms(1)]
  show ?thesis
  proof (cases "start_pc x")
    case NotStarted
    with False st assms(1) x inv show ?thesis
      by (cases inp) (auto simp: srv_inv_def session_workers_def at_rest_def split: if_splits)
  next
    case SetFlags
    with False st inv show ?thesis
      by (cases inp) (auto simp: exec_start_def srv_inv_def session_workers_def at_rest_def hands_ok_def round_robin_def)
  next
    case SetUp
    then obtain ae pe envs t where "inp = SetupAnswers ae pe envs t" using False by (cases inp) auto
    with SetUp st x setup_inv [OF assms(1) SetUp] show ?thesis by (auto split: prod.splits)
  next
    case AcceptLoop
    with False st x inv show ?thesis
      by (cases inp) (auto simp: srv_inv_def session_workers_def split: if_splits sum.splits)
  next
    case (Accepting evs)
    then obtain r where inp: "inp = AcceptedConn r" using False by (cases inp) auto
    show ?thesis
    proof (cases "\<exists>c peer. evs \<noteq> [] \<and> hd evs = Get (listen_fd ?s) \<and> srv_accepting ?s \<and> r = Inr (c, peer)")
      case True
      then obtain c peer fd es where r: "r = Inr (c, peer)" "evs = fd # es" "fd = Get (listen_fd ?s)" "srv_accepting ?s"
        by (cases evs) auto
      obtain i s1 where h: "hand_over (int c) peer ?s = (i, s1)" by fastforce
      have "exec_start inp x = x\<lparr>srv := s1, accepted := accepted x @ [(int c, i)]\<rparr>"
        using Accepting inp r h by (simp add: exec_start_def)
      with accept_inv [OF assms Accepting h] show ?thesis by simp
    next
      case False
      with Accepting st inp x inv show ?thesis
        by (cases evs) (auto simp: srv_inv_def session_workers_def split: if_splits sum.splits)
    qed
  next
    case (CleanUp r)
    then have "inp = Go" using False by (cases inp) auto
    with CleanUp st x have y: "exec_start inp x = x\<lparr>srv := CloseAcceptor (?s\<lparr>srv_accepting := False, srv_stop_requested := True\<rparr>), start_pc := StopPool r\<rparr>"
      by auto
    have "session_workers (exec_start inp x) = session_workers x" unfolding y by (rule session_workers_same) simp_all
    with CleanUp inv show ?thesis unfolding y by (simp add: srv_inv_def)
  next
    case (StopPool r)
    with False st x stop_pool_inv [OF inv StopPool] show ?thesis
      by (cases inp) (auto split: option.splits)
  next
    case (BroadcastStop r)
    with False st x broadcast_inv [OF inv BroadcastStop] show ?thesis
      by (cases inp) auto
  next
    case (JoinAll r)
    with False obtain s1 where s1: "join_workers ?s = Some s1" "inp = Go" by (cases inp) (auto split: option.splits)
    then have "exec_start inp x = x\<lparr>srv := (if r = SetupFailed then CloseAcceptor s1 else s1), start_pc := Finish r,
        retired := map retire (srv_workers ?s)\<rparr>"
      using JoinAll by (simp add: exec_start_def)
    with join_inv [OF inv JoinAll s1(1)] show ?thesis by simp
  next
    case (Finish r)
    with False st x inv show ?thesis
      by (cases inp) (auto simp: srv_inv_def session_workers_def at_rest_def)
  next
    case (Returned b)
    with False st x inv show ?thesis
      by (cases inp) (auto simp: srv_inv_def session_workers_def at_rest_def split: if_splits)
  qed
qed

lemma Stop_idle_rest:
  assumes "at_rest s"
  shows "\<exists>s'. Stop_idle s = Some s' \<and> at_rest s' \<and> worker_count s' = worker_count s \<and> next_worker s' = next_worker s
    \<and> srv_running s' = srv_running s \<and> srv_workers s' = []"
  using assms by (simp add: Stop_idle_def StopBusinessThreadPool_def request_stops_def join_workers_def at_rest_def)

lemma srv_inv_stoppers: "srv_inv n (x\<lparr>stoppers := ss\<rparr>) = srv_inv n x"
  by (simp add: srv_inv_def session_workers_def)

lemma srv_inv_request:
  assumes "srv_inv n x"
  shows "srv_inv n (x\<lparr>srv := Stop_request (srv x), stoppers := ss\<rparr>)"
proof -
  have "phase_ok (start_pc x) (Stop_request (srv x)) = phase_ok (start_pc x) (srv x)"
    by (cases "(start_pc x, srv x)" rule: phase_ok.cases) (simp_all add: Stop_request_def at_rest_def)
  moreover have "srv_workers (Stop_request s) = srv_workers s" "worker_count (Stop_request s) = worker_count s"
    "next_worker (Stop_request s) = next_worker s" "srv_running (Stop_request s) = srv_running s" for s
    by (simp_all add: Stop_request_def)
  moreover have "session_workers (x\<lparr>srv := Stop_request (srv x), stoppers := ss\<rparr>) = session_workers x"
    by (rule session_workers_same) (simp_all add: Stop_request_def)
  ultimately show ?thesis using assms by (simp add: srv_inv_def)
qed

lemma srv_exec_inv:
  assumes "srv_inv n x" and "n < 2 ^ 63"
  shows "srv_inv (Suc n) (srv_exec E e x)"
proof (cases e)
  case (StartStep inp)
  with exec_start_inv [OF assms] show ?thesis by simp
next
  case CallStop
  show ?thesis
  proof (cases "srv_running (srv x)")
    case True
    with CallStop srv_inv_mono [OF assms(1)] show ?thesis by (simp add: srv_inv_stoppers)
  next
    case False
    then have pc: "start_pc x = NotStarted \<or> (\<exists>b. start_pc x = Returned b)" using assms(1) by (auto simp: srv_inv_def)
    then have rest: "at_rest (srv x)" using srv_invD(3) [OF assms(1)] by auto
    obtain s' where s': "Stop_idle (srv x) = Some s'" "at_rest s'" "worker_count s' = worker_count (srv x)"
        "next_worker s' = next_worker (srv x)" "srv_running s' = srv_running (srv x)" "srv_workers s' = []"
      using Stop_idle_rest [OF rest] by blast
    have ws: "srv_workers (srv x) = []" using rest by (simp add: at_rest_def)
    have ph: "phase_ok (start_pc x) s'" using pc s'(2) by auto
    have "srv_exec E e x = x\<lparr>srv := s', stoppers := stoppers x @ [StopReturned]\<rparr>"
      using CallStop False s'(1) by simp
    with srv_inv_mono [OF assms(1)] ph s'(3-6) ws show ?thesis by (simp add: srv_inv_def session_workers_def)
  qed
next
  case (StopStep k)
  then show ?thesis
    using srv_inv_mono [OF assms(1)] srv_inv_request by (auto simp: srv_inv_stoppers split: stop_pc.split)
next
  case (WorkerStep i ev)
  let ?ws = "srv_workers (srv x)" and ?w = "srv_workers (srv x) ! i"
  show ?thesis
  proof (cases "i < length ?ws \<and> own_event ev")
    case True
    have ok: "worker_ok n ?w" using True srv_invD(1) [OF assms(1)] by simp
    then obtain w' where w': "wl_exec E (the (owner_thread ?w)) ev ?w = Some w'"
      using wl_exec_returns [of ?w E "the (owner_thread ?w)" ev] assms(2) by (auto simp: worker_ok_def)
    have "given_fd ev = []" using True by (cases ev) auto
    with wl_exec_ok [OF ok assms(2) w'] have v: "worker_ok (Suc n) w'" "owned w' = owned ?w" by simp_all
    have "\<forall>v \<in> set (?ws[i := w']). worker_ok (Suc n) v"
      using srv_invD(1) [OF assms(1)] v(1) worker_ok_mono [of n _ "Suc n"] by (auto dest!: subsetD [OF set_update_subset_insert])
    moreover have "hands_ok (accepted x) (?ws[i := w'])" if "hands_ok (accepted x) ?ws"
      using that v(2) True by (auto simp: hands_ok_def nth_list_update)
    moreover have "phase_ok (start_pc x) ((srv x)\<lparr>srv_workers := ?ws[i := w']\<rparr>)"
      using srv_invD(3) [OF assms(1)] True by (cases "(start_pc x, srv x)" rule: phase_ok.cases) (auto simp: at_rest_def split: if_splits)
    moreover have "session_workers x = ?ws" "session_workers (x\<lparr>srv := (srv x)\<lparr>srv_workers := ?ws[i := w']\<rparr>\<rparr>) = ?ws[i := w']"
      using True by (auto simp: session_workers_def)
    moreover have "srv_exec E e x = x\<lparr>srv := (srv x)\<lparr>srv_workers := ?ws[i := w']\<rparr>\<rparr>"
      using WorkerStep True w' by simp
    ultimately show ?thesis using assms(1) True by (simp add: srv_inv_def)
  qed (use WorkerStep srv_inv_mono [OF assms(1)] in auto)
qed

lemma srv_run_inv:
  "srv_inv n x \<Longrightarrow> n + length events \<le> 2 ^ 63 \<Longrightarrow> srv_inv (n + length events) (fold (srv_exec E) events x)"
proof (induction events arbitrary: n x)
  case (Cons e events)
  then have "srv_inv (Suc n) (srv_exec E e x)" by (intro srv_exec_inv) simp_all
  from Cons.IH [OF this] Cons.prems(2) show ?case by simp
qed simp

lemma srv_init_inv: "srv_inv 0 (srv_init (RpcServer_make p reg n k))"
  by (simp add: srv_inv_def srv_init_def RpcServer_make_def UniqueFd_default_def at_rest_def session_workers_def hands_ok_def round_robin_def)

text \<open>The number of workers is configured once.\<close>

lemma worker_count_start_workers: "start_workers envs me k s = (r, s') \<Longrightarrow> worker_count s' = worker_count s"
  by (induction k arbitrary: s) (auto simp: Let_def split: option.splits prod.splits)

lemma worker_count_set_up: "set_up ae pe envs me s = (pc, s') \<Longrightarrow> worker_count s' = worker_count s"
  by (auto simp: set_up_def StartBusinessThreadPool_def StartWorkers_def split: prod.splits option.splits if_splits
      dest!: InitAcceptor_fields worker_count_start_workers)

lemma worker_count_stops:
  "StopBusinessThreadPool s = Some s' \<Longrightarrow> worker_count s' = worker_count s"
  "join_workers s = Some s' \<Longrightarrow> worker_count s' = worker_count s"
  "worker_count (request_stops s) = worker_count s"
  by (auto simp: StopBusinessThreadPool_def join_workers_def request_stops_def split: if_splits)

lemma worker_count_step: "worker_count (srv (srv_exec E e x)) = worker_count (srv x)"
proof (cases e)
  case (StartStep inp)
  obtain pc s acc where st: "start_step inp (start_pc x) (srv x) = (pc, s, acc)" by (metis prod_cases3)
  then have "worker_count s = worker_count (srv x)"
    by (cases "(inp, start_pc x, srv x)" rule: start_step.cases)
      (auto simp: hand_over_def SelectWorker_def worker_count_stops split: if_splits sum.splits option.splits prod.splits
        dest!: worker_count_set_up worker_count_stops(1,2))
  with StartStep st show ?thesis by (simp add: exec_start_def)
next
  case CallStop
  then show ?thesis
    by (auto simp: Stop_idle_def worker_count_stops split: option.splits dest!: worker_count_stops(1,2))
qed (auto simp: Stop_request_def split: stop_pc.split option.split)

lemma worker_count_run: "worker_count (srv (fold (srv_exec E) events x)) = worker_count (srv x)"
  by (induction events arbitrary: x) (simp_all add: worker_count_step)

lemma srv_run_facts:
  assumes "length events < 2 ^ 63" and "x = fold (srv_exec E) events (srv_init (RpcServer_make p reg n k))"
  shows "srv_inv (length events) x" and "worker_count (srv x) = max 1 n"
  using srv_run_inv [OF srv_init_inv [of p reg n k], of events E] assms worker_count_run [of E events "srv_init (RpcServer_make p reg n k)"]
  by (auto simp: srv_init_def RpcServer_make_def max_def)

section \<open>A sample run\<close>

text \<open>A server with one worker whose set-up succeeds, and a client that connects.\<close>

definition good_acceptor :: acceptor_env where
  "good_acceptor = \<lparr>ae_socket = Inr 3, ae_reuseaddr = None, ae_reuseport = None, ae_getfl = None, ae_setfl = None,
     ae_bind = None, ae_listen = None, ae_epoll_create = Inr 4, ae_epoll_ctl = None\<rparr>"

definition good_worker :: "nat \<Rightarrow> worker_env" where
  "good_worker i = \<lparr>we_epoll_create = None, we_eventfd = Inr 6, we_ctl = [], we_thread = 7\<rparr>"

definition one_worker_server :: "nat \<Rightarrow> RpcServer" where
  "one_worker_server threads = RpcServer_make 8080 ServiceRegistry_init 1 threads"

definition good_setup :: start_input where
  "good_setup = SetupAnswers good_acceptor None good_worker 1"

definition fresh_worker :: "nat \<Rightarrow> WorkerLoop" where
  "fresh_worker threads = snd (the (start_worker (good_worker 0) 1 0 ((one_worker_server threads)\<lparr>business_thread_pool :=
     if threads = 0 then None else Some threads\<rparr>)))"

definition served_server :: "nat \<Rightarrow> RpcServer" where
  "served_server threads = (one_worker_server threads)\<lparr>listen_fd := 3, accept_epoll_fd := 4,
     business_thread_pool := (if threads = 0 then None else Some threads), srv_workers := [fresh_worker threads],
     srv_accepting := True, srv_running := True\<rparr>"

lemma fresh_worker_started:
  "start_worker (good_worker 0) 1 0 ((one_worker_server threads)\<lparr>business_thread_pool := if threads = 0 then None else Some threads\<rparr>)
     = Some (None, fresh_worker threads)"
  "running (fresh_worker threads)" "accepting_new_connections (fresh_worker threads)" "\<not> stop_requested (fresh_worker threads)"
  "thread_pool (dispatch (fresh_worker threads)) = (if threads = 0 then None else Some \<lparr>pool_accepting = True, pool_tasks = []\<rparr>)"
  "epoll_open (fresh_worker threads)" "wake_fd (fresh_worker threads) = Some 6"
  by (simp_all add: fresh_worker_def start_worker_def good_worker_def WorkerLoop_Init_def WorkerLoop_Start_def WorkerLoop_make_def
      epoll_ctl_def wok_def wthen_def Let_def pool_view_def)

lemma good_setup_result:
  "start_step good_setup SetUp ((one_worker_server threads)\<lparr>srv_running := True, srv_accepting := True\<rparr>)
     = (AcceptLoop, served_server threads, [])"
proof -
  have "start_worker (good_worker 0) 1 0 ((one_worker_server threads)\<lparr>srv_running := True, srv_accepting := True,
      listen_fd := 3, accept_epoll_fd := 4, business_thread_pool := b, srv_workers := []\<rparr>)
    = start_worker (good_worker 0) 1 0 ((one_worker_server threads)\<lparr>business_thread_pool := b\<rparr>)" for b
    by (simp add: start_worker_def pool_view_def)
  then show ?thesis
    using fresh_worker_started(1) [of threads]
    by (cases "threads = 0") (simp_all add: good_setup_def set_up_def InitAcceptor_def good_acceptor_def StartBusinessThreadPool_def StartWorkers_def
        served_server_def one_worker_server_def RpcServer_make_def set_listen_def set_epoll_def Reset_def UniqueFd_default_def)
qed

definition up :: "srv_event list" where
  "up = [StartStep Go, StartStep Go, StartStep good_setup]"

lemma run_up:
  "fold (srv_exec E) up (srv_init (one_worker_server threads)) =
     \<lparr>srv = served_server threads, start_pc = AcceptLoop, stoppers = [], accepted = [], retired = []\<rparr>"
proof -
  have "(one_worker_server threads)\<lparr>srv_running := True, srv_stop_requested := False, srv_accepting := True, next_worker := 0\<rparr>
      = (one_worker_server threads)\<lparr>srv_running := True, srv_accepting := True\<rparr>"
    by (simp add: one_worker_server_def RpcServer_make_def)
  then show ?thesis
    using good_setup_result [of threads]
    by (simp add: up_def srv_init_def exec_start_def) (simp add: one_worker_server_def RpcServer_make_def)
qed

definition one_client :: "srv_event list" where
  "one_client = up @ [StartStep (Waited (Inr [3])), StartStep (AcceptedConn (Inr (5, ''client'')))]"

lemma one_client_accepted: "accepted (fold (srv_exec E) one_client (srv_init (one_worker_server 0))) = [(5, 0)]"
proof -
  obtain w where "EnqueueConnection 5 ''client'' (fresh_worker 0) = Some (None, w)"
    using fresh_worker_started(3,6,7) [of 0] by (simp add: EnqueueConnection_def Let_def wok_def)
  then show ?thesis
    by (simp add: one_client_def run_up exec_start_def served_server_def hand_over_def SelectWorker_def Get_def)
      (simp add: one_worker_server_def RpcServer_make_def)
qed

text \<open>Starting, stopping and returning.\<close>

definition up_and_down :: "srv_event list" where
  "up_and_down = up @ [CallStop, StopStep 0, StartStep (Waited (Inr [])), StartStep Go, StartStep Go, StartStep Go,
     WorkerStep 0 (Turn 0 [] [] (Inr [])), StartStep Go, StartStep Go]"

lemma fresh_worker_exits:
  "\<exists>w. Run_turn E 7 [] [] (Inr []) (RequestStop (fresh_worker 0)) = Some w \<and> \<not> running w \<and> owner_thread w = Some 7"
  by (simp add: fresh_worker_def start_worker_def good_worker_def WorkerLoop_Init_def WorkerLoop_Start_def WorkerLoop_make_def
      epoll_ctl_def wok_def wthen_def Let_def pool_view_def RequestStop_def wl_Wakeup_def Run_turn_def Run_exit_def DrainWakeFd_def
      EnsureOwnerThread_def wl_IsOnOwnerThread_def drop_result_def DrainPendingConnections_def DrainCompletedResponses_def
      CloseAllConnections_def keys_def one_worker_server_def RpcServer_make_def)

lemma up_and_down_returns: "start_pc (fold (srv_exec E) up_and_down (srv_init (one_worker_server 0))) = Returned True"
proof -
  obtain w where w: "Run_turn (E\<lparr>now := 0\<rparr>) 7 [] [] (Inr []) (RequestStop (fresh_worker 0)) = Some w" "\<not> running w"
    using fresh_worker_exits by blast
  have "owner_thread (RequestStop (fresh_worker 0)) = Some 7"
    by (simp add: fresh_worker_def start_worker_def good_worker_def WorkerLoop_Init_def WorkerLoop_Start_def WorkerLoop_make_def
      epoll_ctl_def wok_def wthen_def Let_def pool_view_def RequestStop_def wl_Wakeup_def)
  with w show ?thesis
    by (simp add: up_and_down_def run_up exec_start_def served_server_def Stop_request_def StopBusinessThreadPool_def
        request_stops_def join_workers_def WorkerLoop_Join_def CloseAcceptor_def set_listen_def set_epoll_def Reset_def)
qed

section \<open>Properties\<close>

text \<open>
  C26: the acceptor distributes the connections. In every run of a server, whatever the system calls
  return and however the threads interleave, the \<open>k\<close>-th connection accepted since the server was
  started goes to worker \<open>k mod n\<close> of its \<open>n\<close> workers; and at every moment each worker has exactly
  the connections given to it, each of them waiting, connected or closed once.
\<close>

theorem server_distributes:
  assumes "length events < 2 ^ 63" and "x = fold (srv_exec E) events (srv_init (RpcServer_make p reg n k))"
  shows "(\<forall>j<length (accepted x). snd (accepted x ! j) = j mod max 1 n)
    \<and> (\<forall>a \<in> set (accepted x). snd a < length (session_workers x))
    \<and> (\<forall>i<length (session_workers x). let w = session_workers x ! i in
         mset (keys (connections w)) + mset (map pc_fd (pending_connections w)) + mset (closed_fds w)
           = mset (map fst (filter (\<lambda>a. snd a = i) (accepted x))))"
proof -
  note inv = srv_run_facts [OF assms]
  show ?thesis
    using inv(1) unfolding srv_inv_def inv(2) by (simp add: round_robin_def hands_ok_def given_to_def owned_def Let_def)
qed

theorem server_distributes_witness:
  "let x = fold (srv_exec sample_env) one_client (srv_init (one_worker_server 0)); w = session_workers x ! 0 in
   accepted x = [(5, 0)]
   \<and> mset (keys (connections w)) + mset (map pc_fd (pending_connections w)) + mset (closed_fds w) = {#5#}"
proof -
  let ?x = "fold (srv_exec sample_env) one_client (srv_init (one_worker_server 0))"
  have l: "length one_client < 2 ^ 63" by (simp add: one_client_def up_def)
  have x: "?x = fold (srv_exec sample_env) one_client (srv_init (RpcServer_make 8080 ServiceRegistry_init 1 0))"
    by (simp add: one_worker_server_def)
  note d = server_distributes [OF l x]
  have "0 < length (session_workers ?x)" using d by (simp add: one_client_accepted)
  with d show ?thesis by (simp add: one_client_accepted Let_def)
qed

text \<open>
  C27: a server that has returned from \<open>Start\<close> has released everything. It is not running, the
  descriptors of the acceptor are closed, the thread pool and all workers are gone, and every
  connection accepted in the meantime has been closed by the worker it was given to, once.
\<close>

theorem server_returns_clean:
  assumes "length events < 2 ^ 63" and "x = fold (srv_exec E) events (srv_init (RpcServer_make p reg n k))"
    and "start_pc x = Returned b"
  shows "\<not> srv_running (srv x) \<and> listen_fd (srv x) = - 1 \<and> accept_epoll_fd (srv x) = - 1
    \<and> business_thread_pool (srv x) = None \<and> srv_workers (srv x) = []
    \<and> (\<forall>a \<in> set (accepted x). snd a < length (retired x))
    \<and> (\<forall>i<length (retired x). mset (closed_fds (retired x ! i)) = mset (map fst (filter (\<lambda>a. snd a = i) (accepted x))))"
proof -
  note inv = srv_run_facts(1) [OF assms(1,2)]
  then have rest: "at_rest (srv x)" and r: "\<forall>w \<in> set (retired x). connections w = [] \<and> pending_connections w = []"
    using assms(3) by (simp_all add: srv_inv_def)
  then have "session_workers x = retired x" by (simp add: session_workers_def at_rest_def)
  with inv rest r assms(3) show ?thesis
    by (auto simp: srv_inv_def at_rest_def hands_ok_def given_to_def owned_def keys_def)
qed

theorem server_returns_clean_witness:
  "let x = fold (srv_exec sample_env) up_and_down (srv_init (one_worker_server 0)) in
   \<not> srv_running (srv x) \<and> srv_workers (srv x) = [] \<and> listen_fd (srv x) = - 1"
proof -
  let ?x = "fold (srv_exec sample_env) up_and_down (srv_init (one_worker_server 0))"
  have l: "length up_and_down < 2 ^ 63" by (simp add: up_and_down_def up_def)
  have x: "?x = fold (srv_exec sample_env) up_and_down (srv_init (RpcServer_make 8080 ServiceRegistry_init 1 0))"
    by (simp add: one_worker_server_def)
  show ?thesis using server_returns_clean [OF l x up_and_down_returns] by (simp add: Let_def)
qed

text \<open>
  Events after which a server that is in its accept loop stays there: nobody calls \<open>Stop\<close>, and
  \<open>epoll_wait\<close> does not fail.
\<close>

fun quiet :: "srv_event \<Rightarrow> bool" where
  "quiet CallStop = False"
| "quiet (StartStep (Waited (Inl e))) = (e = EINTR)"
| "quiet _ = True"

definition stop_in_start :: "srv_event list" where
  "stop_in_start = [StartStep Go, CallStop, StopStep 0, StartStep Go, StartStep good_setup]"

definition stop_lost :: "srv_sys \<Rightarrow> bool" where
  "stop_lost x \<longleftrightarrow> (start_pc x = AcceptLoop \<or> (\<exists>evs. start_pc x = Accepting evs)) \<and> srv_running (srv x)
     \<and> \<not> srv_stop_requested (srv x) \<and> stoppers x = [StopWaiting]"

lemma hand_over_flags:
  "hand_over fd peer s = (i, s') \<Longrightarrow> srv_running s' = srv_running s \<and> srv_stop_requested s' = srv_stop_requested s"
  by (auto simp: hand_over_def SelectWorker_def split: option.splits)

lemma stop_lost_step: "stop_lost x \<Longrightarrow> quiet e \<Longrightarrow> stop_lost (srv_exec E e x)"
proof (cases e)
  case (StartStep inp)
  assume "stop_lost x" "quiet e"
  with StartStep show ?thesis
    by (cases "(inp, start_pc x, srv x)" rule: start_step.cases)
      (auto simp: stop_lost_def exec_start_def dest: hand_over_flags split: if_splits sum.splits prod.splits)
next
  case (StopStep k)
  assume "stop_lost x"
  with StopStep show ?thesis by (cases k) (auto simp: stop_lost_def)
next
  case (WorkerStep i ev)
  assume "stop_lost x"
  with WorkerStep show ?thesis by (auto simp: stop_lost_def split: option.split)
qed simp

lemma stop_lost_run: "stop_lost x \<Longrightarrow> \<forall>e \<in> set events. quiet e \<Longrightarrow> stop_lost (fold (srv_exec E) events x)"
  by (induction events arbitrary: x) (simp_all add: stop_lost_step)

lemma stop_in_start_lost: "stop_lost (fold (srv_exec E) stop_in_start (srv_init (one_worker_server threads)))"
proof -
  have "(one_worker_server threads)\<lparr>srv_running := True, srv_accepting := True, srv_stop_requested := False, next_worker := 0\<rparr>
      = (one_worker_server threads)\<lparr>srv_running := True, srv_accepting := True\<rparr>"
    by (simp add: one_worker_server_def RpcServer_make_def)
  then show ?thesis
    using good_setup_result [of threads]
    by (simp add: stop_in_start_def srv_init_def exec_start_def stop_lost_def Stop_request_def)
      (simp add: one_worker_server_def RpcServer_make_def served_server_def)
qed

text \<open>
  C28: a call of \<open>Stop\<close> can be lost. \<open>Start\<close> marks the server as running and resets the stop flag
  afterwards, outside the lock; a request that arrives in between is overwritten. From then on, until
  somebody calls \<open>Stop\<close> again or \<open>epoll_wait\<close> fails, the server keeps accepting and the first caller of \<open>Stop\<close>
  never returns, whatever else happens.
\<close>

theorem stop_can_be_lost:
  assumes "\<forall>e \<in> set later. quiet e"
  shows "let x = fold (srv_exec E) (stop_in_start @ later) (srv_init (one_worker_server threads)) in
     stoppers x = [StopWaiting] \<and> srv_running (srv x) \<and> \<not> srv_stop_requested (srv x)"
  using stop_lost_run [OF stop_in_start_lost [of E threads] assms, of E] by (simp add: stop_lost_def Let_def)

theorem stop_can_be_lost_witness:
  "stoppers (fold (srv_exec sample_env) (stop_in_start @ [StartStep (Waited (Inr [])), StopStep 0, StartStep (Waited (Inl EINTR))])
     (srv_init (one_worker_server 2))) = [StopWaiting]"
  using stop_can_be_lost [of "[StartStep (Waited (Inr [])), StopStep 0, StartStep (Waited (Inl EINTR))]" sample_env 2]
  by (simp add: Let_def)

text \<open>
  C29: the thread pool is destroyed too early. In an ordinary shut-down of a server with a thread
  pool there is a moment at which the pool has been destroyed while a worker still runs, has not been
  asked to stop, and holds a pointer to the pool: the next request it reads is submitted to freed
  memory.
\<close>

theorem pool_freed_before_workers_stop:
  "\<exists>events. let x = fold (srv_exec E) events (srv_init (one_worker_server 2)); w = srv_workers (srv x) ! 0 in
     business_thread_pool (srv x) = None \<and> length (srv_workers (srv x)) = 1
     \<and> running w \<and> \<not> stop_requested w \<and> thread_pool (dispatch w) \<noteq> None"
proof -
  let ?evs = "up @ [CallStop, StopStep 0, StartStep (Waited (Inr [])), StartStep Go, StartStep Go]"
  have "pool_idle (fresh_worker 2)" using fresh_worker_started(5) [of 2] by (simp add: pool_idle_def)
  then show ?thesis
    using fresh_worker_started(2,4,5) [of 2]
    by (intro exI [of _ ?evs]) (simp add: run_up exec_start_def served_server_def Stop_request_def StopBusinessThreadPool_def
        CloseAcceptor_def set_listen_def set_epoll_def Reset_def Let_def refuse_tasks_def)
qed

end
