(* ===== verification/Async_Logger.thy ===== *)
theory Async_Logger
  imports Mpsc_Ring
begin

text \<open>
  The asynchronous logger: \<open>src/common/log.{h,cpp}\<close> and \<open>src/common/async_logger.cpp\<close>. Producers
  fill in an entry and push it into the lock-free ring; a worker thread pops batches, formats them
  and writes them to a file, or to \<open>stderr\<close> where the file does not take them.

  The results of the library calls are arguments: how many bytes \<open>fwrite\<close> took, whether \<open>fopen\<close>
  succeeded, the clocks, and the text \<open>strftime\<close> makes of a second (\<^const>\<open>None\<close>: it returns 0).
  \<open>written\<close> lists what was written where. System time does not lie before the epoch.
\<close>

section \<open>Levels and options\<close>

datatype LogLevel = kInfo | kWarn | kError | kOff

datatype DropPolicy = DropNewest | DropOldest

fun LevelValue :: "LogLevel \<Rightarrow> nat" where
  "LevelValue kInfo = 0"
| "LevelValue kWarn = 1"
| "LevelValue kError = 2"
| "LevelValue kOff = 3"

fun LogLevelName :: "LogLevel \<Rightarrow> string" where
  "LogLevelName kInfo = ''INFO''"
| "LogLevelName kWarn = ''WARN''"
| "LogLevelName kError = ''ERROR''"
| "LogLevelName kOff = ''OFF''"

record LoggerOptions =
  log_file_path :: string
  queue_capacity :: nat
  lo_max_batch_size :: nat
  lo_flush_interval :: int
  lo_spin_before_sleep :: nat
  lo_idle_sleep :: int
  lo_drop_policy :: DropPolicy
  lo_min_level :: LogLevel
  lo_inline_message_threshold :: nat
  file_path :: string

definition LoggerOptions_default :: LoggerOptions where
  "LoggerOptions_default =
     \<lparr>log_file_path = ''./rpc.log'', queue_capacity = 2 ^ 16, lo_max_batch_size = 512, lo_flush_interval = 500,
      lo_spin_before_sleep = 128, lo_idle_sleep = 150, lo_drop_policy = DropNewest, lo_min_level = kInfo,
      lo_inline_message_threshold = 112, file_path = []\<rparr>"

definition ThroughputFirstLoggerOptions :: LoggerOptions where
  "ThroughputFirstLoggerOptions =
     LoggerOptions_default\<lparr>queue_capacity := 2 ^ 18, lo_max_batch_size := 1024, lo_flush_interval := 500,
       lo_spin_before_sleep := 256, lo_idle_sleep := 50, lo_drop_policy := DropNewest, lo_inline_message_threshold := 112\<rparr>"

definition BalancedLoggerOptions :: LoggerOptions where
  "BalancedLoggerOptions =
     LoggerOptions_default\<lparr>queue_capacity := 2 ^ 16, lo_max_batch_size := 512, lo_flush_interval := 500,
       lo_spin_before_sleep := 128, lo_idle_sleep := 150, lo_drop_policy := DropNewest, lo_inline_message_threshold := 112\<rparr>"

section \<open>Text\<close>

definition is_space :: "char \<Rightarrow> bool" where
  "is_space c \<longleftrightarrow> of_char c = (32::nat) \<or> 9 \<le> (of_char c :: nat) \<and> (of_char c :: nat) \<le> 13"

definition TrimPath :: "string \<Rightarrow> string" where
  "TrimPath raw = rev (dropWhile is_space (rev (dropWhile is_space raw)))"

fun basename_scan :: "string \<Rightarrow> string \<Rightarrow> string" where
  "basename_scan base [] = base"
| "basename_scan base (c # cs) = (if c = CHR ''/'' \<or> c = CHR 0x5C then basename_scan cs cs else basename_scan base cs)"

definition Basename :: "string \<Rightarrow> string" where
  "Basename full_path = basename_scan full_path full_path"

definition AppendUnsigned :: "string \<Rightarrow> u64 \<Rightarrow> string" where
  "AppendUnsigned out v = out @ to_string (unat v)"

definition AppendMilliseconds3 :: "string \<Rightarrow> int \<Rightarrow> string" where
  "AppendMilliseconds3 out t =
     (let safe_ms = nat (max 0 (min 999 t)) in
      out @ [digit (safe_ms div 100), digit (safe_ms div 10 mod 10), digit (safe_ms mod 10)])"

record ThreadIdCache =
  tid_cache_text :: string
  tid_cache_size :: nat

definition CurrentThreadIdCache :: "u64 \<Rightarrow> ThreadIdCache" where
  "CurrentThreadIdCache tid_hash =
     (let t = to_string (unat tid_hash) in
      \<lparr>tid_cache_text = t @ replicate (24 - length t) (CHR 0x00), tid_cache_size = length t\<rparr>)"

section \<open>Messages\<close>

definition kInlineCapacity :: nat where
  "kInlineCapacity = 112"

record SmallLogMessage =
  using_heap :: bool
  inline_size :: nat
  inline_buffer :: string
  heap_buffer :: string

definition SmallLogMessage_init :: SmallLogMessage where
  "SmallLogMessage_init =
     \<lparr>using_heap = False, inline_size = 0, inline_buffer = replicate kInlineCapacity (CHR 0x00), heap_buffer = []\<rparr>"

definition Assign :: "string \<Rightarrow> nat \<Rightarrow> SmallLogMessage \<Rightarrow> SmallLogMessage" where
  "Assign msg inline_limit m =
     (let threshold = max 1 (min inline_limit kInlineCapacity) in
      if length msg \<le> threshold
      then m\<lparr>using_heap := False, inline_size := length msg mod 2 ^ 16,
             inline_buffer := msg @ drop (length msg) (inline_buffer m), heap_buffer := []\<rparr>
      else m\<lparr>using_heap := True, inline_size := 0, heap_buffer := msg\<rparr>)"

definition View :: "SmallLogMessage \<Rightarrow> string" where
  "View m = (if using_heap m then heap_buffer m else take (inline_size m) (inline_buffer m))"

record LogEntry =
  timestamp :: nat
  le_level :: LogLevel
  tid_text :: string
  tid_size :: nat
  file_name :: string
  line :: u32
  function_name :: string
  message :: SmallLogMessage

section \<open>The engine\<close>

definition kRingBits :: nat where "kRingBits = 18"
definition kRingCapacity :: nat where "kRingCapacity = 2 ^ 18"
definition kDefaultQueueCapacity :: nat where "kDefaultQueueCapacity = 2 ^ 16"
definition kDefaultBatchSize :: nat where "kDefaultBatchSize = 512"
definition kDropSummaryInterval :: duration where "kDropSummaryInterval = ms 500"
definition kDefaultLogFilePath :: string where "kDefaultLogFilePath = ''./rpc.log''"

text \<open>The place of the worker thread in \<open>WorkerLoop\<close>.\<close>

datatype wk_pc =
    NoThread | Opening | LoopTop | Batch "LogEntry list" | Idling | Draining | DrainBatch "LogEntry list" | Final | Exited

record AsyncLoggerEngine =
  lg_queue :: "LogEntry ring"
  inflight_count :: u64
  queue_capacity_soft :: nat
  max_batch_size :: nat
  flush_interval_ms :: int
  spin_before_sleep :: nat
  idle_sleep_us :: int
  inline_message_threshold :: nat
  drop_policy :: DropPolicy
  min_level :: LogLevel
  accepting_logs :: bool
  worker_started :: bool
  flush_requested :: bool
  reopen_requested :: bool
  submit_calls :: u64
  filtered_by_level :: u64
  enqueued :: u64
  consumed :: u64
  dropped :: u64
  dropped_for_summary :: u64
  pending_drop_summary :: u64
  pending_log_path :: string
  log_file :: "string option"
  formatted_batch_buffer :: string
  cached_second :: int
  cached_second_text :: string
  stop_token :: bool
  worker :: wk_pc
  batch_limit :: nat
  last_flush :: time_point
  last_drop_report :: time_point
  written :: "(string option \<times> string) list"

definition StartWorkerIfNeeded :: "AsyncLoggerEngine \<Rightarrow> AsyncLoggerEngine" where
  "StartWorkerIfNeeded e = (if worker_started e then e else e\<lparr>worker_started := True, worker := Opening\<rparr>)"

definition AsyncLoggerEngine_make :: AsyncLoggerEngine where
  "AsyncLoggerEngine_make = StartWorkerIfNeeded
     \<lparr>lg_queue = MpscRingQueue_make kRingBits, inflight_count = 0, queue_capacity_soft = kDefaultQueueCapacity,
      max_batch_size = kDefaultBatchSize, flush_interval_ms = 500, spin_before_sleep = 128, idle_sleep_us = 150,
      inline_message_threshold = 112, drop_policy = DropNewest, min_level = kInfo, accepting_logs = True,
      worker_started = False, flush_requested = False, reopen_requested = False, submit_calls = 0,
      filtered_by_level = 0, enqueued = 0, consumed = 0, dropped = 0, dropped_for_summary = 0,
      pending_drop_summary = 0, pending_log_path = kDefaultLogFilePath, log_file = None,
      formatted_batch_buffer = [], cached_second = - 1, cached_second_text = [], stop_token = False,
      worker = NoThread, batch_limit = 0, last_flush = 0, last_drop_report = 0, written = []\<rparr>"

subsection \<open>Configuration\<close>

definition SetLogLevel :: "LogLevel \<Rightarrow> AsyncLoggerEngine \<Rightarrow> AsyncLoggerEngine" where
  "SetLogLevel level e = e\<lparr>min_level := level\<rparr>"

definition GetLogLevel :: "AsyncLoggerEngine \<Rightarrow> LogLevel" where
  "GetLogLevel e = min_level e"

definition ResolveLogPath :: "LoggerOptions \<Rightarrow> string" where
  "ResolveLogPath options =
     (let compat = TrimPath (file_path options) in
      if compat \<noteq> [] then compat
      else if log_file_path options \<noteq> [] then log_file_path options
      else kDefaultLogFilePath)"

definition Init :: "LoggerOptions \<Rightarrow> AsyncLoggerEngine \<Rightarrow> AsyncLoggerEngine" where
  "Init options e =
     (if \<not> accepting_logs e then e
      else StartWorkerIfNeeded ((SetLogLevel (lo_min_level options) e)
        \<lparr>queue_capacity_soft := max 1 (min (queue_capacity options) kRingCapacity),
         max_batch_size := max 1 (lo_max_batch_size options),
         flush_interval_ms := max 1 (lo_flush_interval options),
         spin_before_sleep := max 1 (lo_spin_before_sleep options),
         idle_sleep_us := max 0 (lo_idle_sleep options),
         inline_message_threshold := max 1 (min (lo_inline_message_threshold options) kInlineCapacity),
         drop_policy := lo_drop_policy options,
         pending_log_path := ResolveLogPath options,
         reopen_requested := True\<rparr>))"

definition SetLogFile :: "string \<Rightarrow> AsyncLoggerEngine \<Rightarrow> AsyncLoggerEngine" where
  "SetLogFile path e =
     (let normalized = TrimPath path in
      if normalized = [] then e else e\<lparr>pending_log_path := normalized, reopen_requested := True\<rparr>)"

definition Flush :: "AsyncLoggerEngine \<Rightarrow> AsyncLoggerEngine" where
  "Flush e = e\<lparr>flush_requested := True\<rparr>"

record LoggerRuntimeStats =
  rs_submit_calls :: u64
  rs_filtered_by_level :: u64
  rs_enqueued :: u64
  rs_consumed :: u64
  rs_dropped :: u64

definition GetRuntimeStats :: "AsyncLoggerEngine \<Rightarrow> LoggerRuntimeStats" where
  "GetRuntimeStats e =
     \<lparr>rs_submit_calls = submit_calls e, rs_filtered_by_level = filtered_by_level e, rs_enqueued = enqueued e,
      rs_consumed = consumed e, rs_dropped = dropped e\<rparr>"

subsection \<open>Producers\<close>

text \<open>
  \<open>Submit\<close> in three steps: the checks, which end with an entry to push or with the call being over
  (\<^const>\<open>None\<close>); the push; and the counters after it.
\<close>

record log_call =
  lc_level :: LogLevel
  lc_message :: string
  lc_file :: string
  lc_line :: u32
  lc_function :: string
  lc_time :: nat
  lc_tid_hash :: u64

definition make_entry :: "nat \<Rightarrow> log_call \<Rightarrow> LogEntry" where
  "make_entry threshold c =
     (let tid = CurrentThreadIdCache (lc_tid_hash c) in
      \<lparr>timestamp = lc_time c, le_level = lc_level c, tid_text = tid_cache_text tid, tid_size = tid_cache_size tid,
       file_name = Basename (lc_file c), line = lc_line c, function_name = lc_function c,
       message = Assign (lc_message c) threshold SmallLogMessage_init\<rparr>)"

definition count_dropped :: "AsyncLoggerEngine \<Rightarrow> AsyncLoggerEngine" where
  "count_dropped e = e\<lparr>dropped := dropped e + 1, dropped_for_summary := dropped_for_summary e + 1\<rparr>"

definition Submit_checks :: "log_call \<Rightarrow> AsyncLoggerEngine \<Rightarrow> LogEntry option \<times> AsyncLoggerEngine" where
  "Submit_checks c e =
     (let e1 = e\<lparr>submit_calls := submit_calls e + 1\<rparr> in
      if \<not> accepting_logs e then (None, e1)
      else if LevelValue (lc_level c) < LevelValue (min_level e)
      then (None, e1\<lparr>filtered_by_level := filtered_by_level e + 1\<rparr>)
      else if queue_capacity_soft e < kRingCapacity \<and> queue_capacity_soft e \<le> unat (inflight_count e)
      then (None, count_dropped e1)
      else (Some (make_entry (inline_message_threshold e) c), e1))"

definition Submit_push :: "LogEntry \<Rightarrow> AsyncLoggerEngine \<Rightarrow> (bool \<times> AsyncLoggerEngine) option" where
  "Submit_push entry e =
     (case TryPush entry (lg_queue e) of
        None \<Rightarrow> None
      | Some (True, q) \<Rightarrow> Some (True, e\<lparr>lg_queue := q\<rparr>)
      | Some (False, q) \<Rightarrow> Some (False, count_dropped (e\<lparr>lg_queue := q\<rparr>)))"

definition Submit_count :: "AsyncLoggerEngine \<Rightarrow> AsyncLoggerEngine" where
  "Submit_count e = e\<lparr>inflight_count := inflight_count e + 1, enqueued := enqueued e + 1\<rparr>"

definition SubmitAsyncLog_checks :: "log_call \<Rightarrow> AsyncLoggerEngine \<Rightarrow> LogEntry option \<times> AsyncLoggerEngine" where
  "SubmitAsyncLog_checks c e = (if lc_level c = kOff then (None, e) else Submit_checks c e)"

subsection \<open>Formatting\<close>

type_synonym second_format = "int \<Rightarrow> string option"

text \<open>Durations are cut towards zero; time stamps are not negative, so this is division.\<close>

definition second_text :: "second_format \<Rightarrow> int \<Rightarrow> string" where
  "second_text fmt sec = (case fmt sec of Some t \<Rightarrow> t | None \<Rightarrow> ''1970-01-01 00:00:00'')"

definition AppendFormattedEntry :: "second_format \<Rightarrow> LogEntry \<Rightarrow> string \<times> AsyncLoggerEngine \<Rightarrow> string \<times> AsyncLoggerEngine" where
  "AppendFormattedEntry fmt entry oe =
     (case oe of (out, e) \<Rightarrow>
        let t = int (timestamp entry) div 1000000 mod 1000;
            sec = int (timestamp entry) div 1000000000;
            e1 = (if sec \<noteq> cached_second e
                  then e\<lparr>cached_second_text := second_text fmt sec, cached_second := sec\<rparr> else e);
            out1 = AppendMilliseconds3 (out @ ''['' @ cached_second_text e1 @ ''.'') t;
            out2 = out1 @ ''][''  @ LogLevelName (le_level entry) @ ''][tid='' @ take (tid_size entry) (tid_text entry)
                     @ ''] '' @ file_name entry @ '':'';
            out3 = AppendUnsigned out2 (ucast (line entry))
        in (out3 @ '' '' @ function_name entry @ '' | '' @ View (message entry) @ [CHR 0x0A], e1))"

definition FormatBatch :: "second_format \<Rightarrow> LogEntry list \<Rightarrow> AsyncLoggerEngine \<Rightarrow> AsyncLoggerEngine" where
  "FormatBatch fmt batch e =
     (case fold (AppendFormattedEntry fmt) batch ([], e) of (out, e1) \<Rightarrow> e1\<lparr>formatted_batch_buffer := out\<rparr>)"

subsection \<open>Files\<close>

definition WriteFallback :: "string \<Rightarrow> AsyncLoggerEngine \<Rightarrow> AsyncLoggerEngine" where
  "WriteFallback bytes e = (if bytes = [] then e else e\<lparr>written := written e @ [(None, bytes)]\<rparr>)"

definition WriteBuffer :: "nat \<Rightarrow> string \<Rightarrow> AsyncLoggerEngine \<Rightarrow> AsyncLoggerEngine" where
  "WriteBuffer taken bytes e =
     (if bytes = [] then e
      else case log_file e of
             Some f \<Rightarrow>
               (let n = min taken (length bytes); e1 = e\<lparr>written := written e @ [(Some f, take n bytes)]\<rparr> in
                if n = length bytes then e1 else WriteFallback (drop n bytes) e1)
           | None \<Rightarrow> WriteFallback bytes e)"

definition CloseFile :: "AsyncLoggerEngine \<Rightarrow> AsyncLoggerEngine" where
  "CloseFile e = e\<lparr>log_file := None\<rparr>"

definition open_failed :: "string \<Rightarrow> string" where
  "open_failed resolved = ''[LOGGER][ERROR] open file failed: '' @ resolved @ [CHR 0x0A]"

definition OpenFile :: "bool \<Rightarrow> string \<Rightarrow> AsyncLoggerEngine \<Rightarrow> AsyncLoggerEngine" where
  "OpenFile opens path e =
     (let resolved = (if path = [] then kDefaultLogFilePath else path); e1 = CloseFile e in
      if opens then e1\<lparr>log_file := Some resolved\<rparr>
      else WriteFallback (open_failed resolved) e1)"

definition FlushInterval :: "AsyncLoggerEngine \<Rightarrow> duration" where
  "FlushInterval e = ms (flush_interval_ms e)"

subsection \<open>The worker thread\<close>

text \<open>What the library calls of one step of the worker return.\<close>

record turn_env =
  te_now :: time_point
  te_system :: nat
  te_tid_hash :: u64
  te_opens :: bool
  te_taken :: nat
  te_summary_taken :: nat

definition summary_entry :: "turn_env \<Rightarrow> u64 \<Rightarrow> LogEntry" where
  "summary_entry t n =
     (let tid = CurrentThreadIdCache (te_tid_hash t) in
      \<lparr>timestamp = te_system t, le_level = kWarn, tid_text = tid_cache_text tid, tid_size = tid_cache_size tid,
       file_name = ''async_logger'', line = 0, function_name = ''EmitDropSummaryIfNeeded'',
       message = Assign (''dropped '' @ to_string (unat n) @ '' log entries because queue is full'') kInlineCapacity SmallLogMessage_init\<rparr>)"

definition EmitDropSummaryIfNeeded :: "second_format \<Rightarrow> bool \<Rightarrow> turn_env \<Rightarrow> AsyncLoggerEngine \<Rightarrow> AsyncLoggerEngine" where
  "EmitDropSummaryIfNeeded fmt force_emit t e =
     (let e1 = e\<lparr>pending_drop_summary := pending_drop_summary e + dropped_for_summary e, dropped_for_summary := 0\<rparr> in
      if pending_drop_summary e1 = 0 then e1
      else if \<not> force_emit \<and> te_now t - last_drop_report e1 < kDropSummaryInterval then e1
      else let e2 = FormatBatch fmt [summary_entry t (pending_drop_summary e1)]
                      (e1\<lparr>last_drop_report := te_now t, pending_drop_summary := 0\<rparr>)
           in WriteBuffer (te_summary_taken t) (formatted_batch_buffer e2) e2)"

definition write_batch :: "second_format \<Rightarrow> nat \<Rightarrow> LogEntry list \<Rightarrow> AsyncLoggerEngine \<Rightarrow> AsyncLoggerEngine" where
  "write_batch fmt taken b e =
     (let e1 = FormatBatch fmt b (e\<lparr>inflight_count := inflight_count e - of_nat (length b),
                                    consumed := consumed e + of_nat (length b)\<rparr>)
      in WriteBuffer taken (formatted_batch_buffer e1) e1)"

definition flush_turn :: "turn_env \<Rightarrow> AsyncLoggerEngine \<Rightarrow> AsyncLoggerEngine" where
  "flush_turn t e =
     (if flush_requested e \<or> te_now t - last_flush e \<ge> FlushInterval e
      then e\<lparr>flush_requested := False, last_flush := te_now t\<rparr> else e)"

definition WorkerLoop_step :: "second_format \<Rightarrow> turn_env \<Rightarrow> AsyncLoggerEngine \<Rightarrow> AsyncLoggerEngine" where
  "WorkerLoop_step fmt t e =
     (case worker e of
        Opening \<Rightarrow>
          (OpenFile (te_opens t) (pending_log_path e) e)
            \<lparr>batch_limit := max_batch_size e, last_flush := te_now t, last_drop_report := te_now t, worker := LoopTop\<rparr>
      | LoopTop \<Rightarrow>
          (let e1 = (if reopen_requested e then OpenFile (te_opens t) (pending_log_path e) (e\<lparr>reopen_requested := False\<rparr>) else e)
           in case PopBatch (max_batch_size e1) (lg_queue e1) of
                (b, q) \<Rightarrow> e1\<lparr>lg_queue := q, batch_limit := max_batch_size e1, worker := Batch b\<rparr>)
      | Batch b \<Rightarrow>
          (let e1 = (if b = [] then e else write_batch fmt (te_taken t) b e);
               e2 = flush_turn t (EmitDropSummaryIfNeeded fmt False t e1)
           in e2\<lparr>worker := (if b = [] then Idling else LoopTop)\<rparr>)
      | Idling \<Rightarrow> e\<lparr>worker := (if stop_token e then Draining else LoopTop)\<rparr>
      | Draining \<Rightarrow>
          (case PopBatch (batch_limit e) (lg_queue e) of
             (b, q) \<Rightarrow> e\<lparr>lg_queue := q, worker := (if b = [] then Final else DrainBatch b)\<rparr>)
      | DrainBatch b \<Rightarrow> (write_batch fmt (te_taken t) b e)\<lparr>worker := Draining\<rparr>
      | Final \<Rightarrow> (EmitDropSummaryIfNeeded fmt True t e)\<lparr>worker := Exited\<rparr>
      | Exited \<Rightarrow> e
      | NoThread \<Rightarrow> e)"

subsection \<open>Shutting down\<close>

text \<open>\<open>Shutdown\<close> up to the join, which waits for the worker (\<^const>\<open>None\<close>), and after it.\<close>

definition Shutdown_begin :: "AsyncLoggerEngine \<Rightarrow> bool \<times> AsyncLoggerEngine" where
  "Shutdown_begin e =
     (if \<not> accepting_logs e then (False, e)
      else (True, e\<lparr>accepting_logs := False, stop_token := (if worker e = NoThread then stop_token e else True)\<rparr>))"

definition Shutdown_end :: "AsyncLoggerEngine \<Rightarrow> AsyncLoggerEngine option" where
  "Shutdown_end e = (if worker e = Exited \<or> worker e = NoThread then Some (CloseFile e) else None)"

section \<open>The logger at work\<close>

text \<open>
  Any number of producers, the worker, and calls that configure or shut down the logger. \<open>pushed\<close>
  lists the entries that went into the queue, \<open>stop_mark\<close> how many there were when the shut-down was
  requested, \<open>late_calls\<close> counts the calls that found the logger shut down.
\<close>

datatype prod_pc = PIdle | PPush LogEntry | PCount

record log_sys =
  eng :: AsyncLoggerEngine
  producers :: "prod_pc list"
  pushed :: "LogEntry list"
  stop_mark :: "nat option"
  late_calls :: u64

definition log_init :: "nat \<Rightarrow> log_sys" where
  "log_init n = \<lparr>eng = AsyncLoggerEngine_make, producers = replicate n PIdle, pushed = [], stop_mark = None, late_calls = 0\<rparr>"

datatype log_event =
    LInit LoggerOptions | LSetLogFile string | LSetLogLevel LogLevel | LFlush
  | LCall nat log_call | LStep nat | LWorker turn_env | LShutdown | LShutdownEnd

definition begin_log :: "nat \<Rightarrow> log_call \<Rightarrow> log_sys \<Rightarrow> log_sys" where
  "begin_log i c x =
     (case SubmitAsyncLog_checks c (eng x) of
        (r, e) \<Rightarrow>
          x\<lparr>eng := e, producers := (producers x)[i := (case r of None \<Rightarrow> PIdle | Some entry \<Rightarrow> PPush entry)],
            late_calls := (if accepting_logs (eng x) \<or> lc_level c = kOff then late_calls x else late_calls x + 1)\<rparr>)"

definition step_log :: "nat \<Rightarrow> log_sys \<Rightarrow> log_sys" where
  "step_log i x =
     (case producers x ! i of
        PIdle \<Rightarrow> x
      | PPush entry \<Rightarrow>
          (case Submit_push entry (eng x) of
             None \<Rightarrow> x
           | Some (True, e) \<Rightarrow> x\<lparr>eng := e, producers := (producers x)[i := PCount], pushed := pushed x @ [entry]\<rparr>
           | Some (False, e) \<Rightarrow> x\<lparr>eng := e, producers := (producers x)[i := PIdle]\<rparr>)
      | PCount \<Rightarrow> x\<lparr>eng := Submit_count (eng x), producers := (producers x)[i := PIdle]\<rparr>)"

fun log_exec :: "second_format \<Rightarrow> log_event \<Rightarrow> log_sys \<Rightarrow> log_sys" where
  "log_exec fmt (LInit options) x = x\<lparr>eng := Init options (eng x)\<rparr>"
| "log_exec fmt (LSetLogFile path) x = x\<lparr>eng := SetLogFile path (eng x)\<rparr>"
| "log_exec fmt (LSetLogLevel level) x = x\<lparr>eng := SetLogLevel level (eng x)\<rparr>"
| "log_exec fmt LFlush x = x\<lparr>eng := Flush (eng x)\<rparr>"
| "log_exec fmt (LCall i c) x =
     (if i < length (producers x) \<and> producers x ! i = PIdle then begin_log i c x else x)"
| "log_exec fmt (LStep i) x = (if i < length (producers x) then step_log i x else x)"
| "log_exec fmt (LWorker t) x = x\<lparr>eng := WorkerLoop_step fmt t (eng x)\<rparr>"
| "log_exec fmt LShutdown x =
     (case Shutdown_begin (eng x) of
        (first, e) \<Rightarrow> x\<lparr>eng := e, stop_mark := (if first then Some (length (pushed x)) else stop_mark x)\<rparr>)"
| "log_exec fmt LShutdownEnd x =
     (if stop_mark x = None then x
      else case Shutdown_end (eng x) of None \<Rightarrow> x | Some e \<Rightarrow> x\<lparr>eng := e\<rparr>)"

end
