(* ===== verification/Logger_Run.thy ===== *)
theory Logger_Run
  imports Async_Logger
begin

text \<open>
  The worker thread of the logger: what it writes for an entry, and what every turn of its loop does with
  the entries that were pushed.
\<close>

section \<open>Messages and lines\<close>

lemma View_Assign [simp]: "View (Assign msg inline_limit m) = msg"
proof (cases "length msg \<le> max 1 (min inline_limit kInlineCapacity)")
  case True
  moreover from this have "length msg mod 2 ^ 16 = length msg" by (simp add: kInlineCapacity_def)
  ultimately show ?thesis by (simp add: Assign_def View_def)
qed (simp add: Assign_def View_def)

text \<open>The line of an entry, without the cache of the formatted second.\<close>

definition log_line :: "second_format \<Rightarrow> LogEntry \<Rightarrow> string" where
  "log_line fmt entry =
     AppendUnsigned (AppendMilliseconds3 (''['' @ second_text fmt (int (timestamp entry) div 1000000000) @ ''.'')
                       (int (timestamp entry) div 1000000 mod 1000)
       @ ''][''  @ LogLevelName (le_level entry) @ ''][tid='' @ take (tid_size entry) (tid_text entry)
       @ ''] '' @ file_name entry @ '':'') (ucast (line entry))
     @ '' '' @ function_name entry @ '' | '' @ View (message entry) @ [CHR 0x0A]"

definition cache_ok :: "second_format \<Rightarrow> AsyncLoggerEngine \<Rightarrow> bool" where
  "cache_ok fmt e \<longleftrightarrow> cached_second e = - 1 \<or> cached_second_text e = second_text fmt (cached_second e)"

definition set_cache :: "int \<times> string \<Rightarrow> AsyncLoggerEngine \<Rightarrow> AsyncLoggerEngine" where
  "set_cache c e = e\<lparr>cached_second := fst c, cached_second_text := snd c\<rparr>"

lemma AppendFormattedEntry_line:
  assumes "cache_ok fmt e"
  shows "\<exists>c. AppendFormattedEntry fmt entry (out, e) = (out @ log_line fmt entry, set_cache c e) \<and> cache_ok fmt (set_cache c e)"
proof -
  let ?sec = "int (timestamp entry) div 1000000000"
  let ?e = "if ?sec \<noteq> cached_second e then e\<lparr>cached_second_text := second_text fmt ?sec, cached_second := ?sec\<rparr> else e"
  let ?c = "(cached_second ?e, cached_second_text ?e)"
  have "0 \<le> ?sec" by simp
  with assms have shown: "cached_second_text ?e = second_text fmt ?sec" by (auto simp: cache_ok_def)
  have e: "?e = set_cache ?c e" by (simp add: set_cache_def)
  have "AppendFormattedEntry fmt entry (out, e) = (out @ log_line fmt entry, ?e)"
    unfolding AppendFormattedEntry_def Let_def prod.case shown log_line_def
      AppendUnsigned_def AppendMilliseconds3_def append_assoc ..
  moreover have "cache_ok fmt ?e" using assms by (simp add: cache_ok_def)
  ultimately have "AppendFormattedEntry fmt entry (out, e) = (out @ log_line fmt entry, set_cache ?c e) \<and> cache_ok fmt (set_cache ?c e)"
    by (simp only: e [symmetric])
  then show ?thesis by (rule exI)
qed

lemma set_cache_twice [simp]: "set_cache c (set_cache d e) = set_cache c e"
  by (simp add: set_cache_def)

lemma set_cache_refl: "set_cache (cached_second e, cached_second_text e) e = e"
  by (simp add: set_cache_def)

lemma format_fold:
  "cache_ok fmt e \<Longrightarrow>
   \<exists>c. fold (AppendFormattedEntry fmt) b (out, e) = (out @ concat (map (log_line fmt) b), set_cache c e) \<and> cache_ok fmt (set_cache c e)"
proof (induction b arbitrary: out e)
  case Nil
  then show ?case by (intro exI [of _ "(cached_second e, cached_second_text e)"]) (simp add: set_cache_refl)
next
  case (Cons x b)
  obtain c where c: "AppendFormattedEntry fmt x (out, e) = (out @ log_line fmt x, set_cache c e)" "cache_ok fmt (set_cache c e)"
    using AppendFormattedEntry_line [OF Cons.prems] by blast
  from Cons.IH [OF c(2), of "out @ log_line fmt x"] c(1) show ?case by auto
qed

lemma FormatBatch_eq:
  assumes "cache_ok fmt e"
  obtains c where "FormatBatch fmt b e = (set_cache c e)\<lparr>formatted_batch_buffer := concat (map (log_line fmt) b)\<rparr>"
    and "cache_ok fmt (set_cache c e)"
  using format_fold [OF assms, of b "[]"] by (auto simp: FormatBatch_def)

section \<open>Writing\<close>

lemma WriteFallback_eq:
  "\<exists>ws. WriteFallback bytes e = e\<lparr>written := written e @ ws\<rparr> \<and> concat (map snd ws) = bytes \<and> (\<forall>w\<in>set ws. sublist (snd w) bytes)"
  by (intro exI [of _ "if bytes = [] then [] else [(None, bytes)]"]) (simp add: WriteFallback_def)

lemma WriteBuffer_eq:
  "\<exists>ws. WriteBuffer n bytes e = e\<lparr>written := written e @ ws\<rparr> \<and> concat (map snd ws) = bytes \<and> (\<forall>w\<in>set ws. sublist (snd w) bytes)"
proof (cases "bytes = [] \<or> log_file e = None")
  case True
  then have "WriteBuffer n bytes e = WriteFallback bytes e"
    by (cases "bytes = []") (simp_all add: WriteBuffer_def WriteFallback_def)
  with WriteFallback_eq [of bytes e] show ?thesis by simp
next
  case False
  then obtain f where f: "log_file e = Some f" "bytes \<noteq> []" by blast
  let ?n = "min n (length bytes)" and ?e = "e\<lparr>written := written e @ [(Some f, take (min n (length bytes)) bytes)]\<rparr>"
  show ?thesis
  proof (cases "?n = length bytes")
    case True
    with f show ?thesis
      by (intro exI [of _ "[(Some f, bytes)]"]) (simp add: WriteBuffer_def Let_def)
  next
    case False
    obtain ws where ws: "WriteFallback (drop ?n bytes) ?e = ?e\<lparr>written := written ?e @ ws\<rparr>" "concat (map snd ws) = drop ?n bytes"
        "\<forall>w\<in>set ws. sublist (snd w) (drop ?n bytes)"
      using WriteFallback_eq by blast
    then have "\<forall>w\<in>set ws. sublist (snd w) bytes" using sublist_drop sublist_order.order.trans by blast
    with f False ws(1,2) show ?thesis
      by (intro exI [of _ "(Some f, take ?n bytes) # ws"]) (simp add: WriteBuffer_def Let_def)
  qed
qed

text \<open>Writes that do not belong to an entry: the report of a failed open, and the summary of dropped entries.\<close>

definition is_notice :: "second_format \<Rightarrow> string option \<times> string \<Rightarrow> bool" where
  "is_notice fmt w \<longleftrightarrow> (\<exists>path. sublist (snd w) (open_failed path)) \<or> (\<exists>t n. sublist (snd w) (log_line fmt (summary_entry t n)))"

text \<open>
  Two engines that differ only in what the output functions touch: the cache, the format buffer, the
  drop summary, the file, the flush marks and the bytes written, to which something may have been added.
\<close>

definition books :: "AsyncLoggerEngine \<Rightarrow> _" where
  "books e = (lg_queue e, inflight_count e, enqueued e, consumed e, submit_calls e, filtered_by_level e, dropped e,
     max_batch_size e, batch_limit e, accepting_logs e, worker_started e, stop_token e,
     queue_capacity_soft e, min_level e)"

definition only_output :: "second_format \<Rightarrow> AsyncLoggerEngine \<Rightarrow> AsyncLoggerEngine \<Rightarrow> bool" where
  "only_output fmt e e' \<longleftrightarrow> books e' = books e \<and> (cache_ok fmt e \<longrightarrow> cache_ok fmt e') \<and> (\<exists>ws. written e' = written e @ ws \<and> (\<forall>w\<in>set ws. is_notice fmt w))"

lemma only_output_refl [simp]: "only_output fmt e e"
  by (simp add: only_output_def)

lemma only_output_trans: "only_output fmt e e1 \<Longrightarrow> only_output fmt e1 e2 \<Longrightarrow> only_output fmt e e2"
  by (fastforce simp: only_output_def)

lemma OpenFile_output: "only_output fmt e (OpenFile opens path e)"
proof -
  let ?path = "if path = [] then kDefaultLogFilePath else path"
  obtain ws where ws: "WriteFallback (open_failed ?path) (CloseFile e) = (CloseFile e)\<lparr>written := written (CloseFile e) @ ws\<rparr>"
      "\<forall>w\<in>set ws. sublist (snd w) (open_failed ?path)"
    using WriteFallback_eq by blast
  then have "\<forall>w\<in>set ws. is_notice fmt w" unfolding is_notice_def by blast
  with ws(1) show ?thesis
    by (simp add: OpenFile_def only_output_def books_def CloseFile_def Let_def cache_ok_def)
qed

lemma Emit_output:
  assumes "cache_ok fmt e"
  shows "only_output fmt e (EmitDropSummaryIfNeeded fmt force t e)"
proof -
  let ?e1 = "e\<lparr>pending_drop_summary := pending_drop_summary e + dropped_for_summary e, dropped_for_summary := 0\<rparr>"
  let ?e2 = "?e1\<lparr>last_drop_report := te_now t, pending_drop_summary := 0\<rparr>"
  have "cache_ok fmt ?e2" using assms by (simp add: cache_ok_def)
  then obtain c where c: "FormatBatch fmt [summary_entry t (pending_drop_summary ?e1)] ?e2
      = (set_cache c ?e2)\<lparr>formatted_batch_buffer := concat (map (log_line fmt) [summary_entry t (pending_drop_summary ?e1)])\<rparr>"
      "cache_ok fmt (set_cache c ?e2)"
    using FormatBatch_eq by blast
  obtain ws where "WriteBuffer (te_summary_taken t) (formatted_batch_buffer (FormatBatch fmt [summary_entry t (pending_drop_summary ?e1)] ?e2))
      (FormatBatch fmt [summary_entry t (pending_drop_summary ?e1)] ?e2)
      = (FormatBatch fmt [summary_entry t (pending_drop_summary ?e1)] ?e2)\<lparr>written := written (FormatBatch fmt [summary_entry t (pending_drop_summary ?e1)] ?e2) @ ws\<rparr>"
      "\<forall>w\<in>set ws. sublist (snd w) (formatted_batch_buffer (FormatBatch fmt [summary_entry t (pending_drop_summary ?e1)] ?e2))"
    using WriteBuffer_eq by blast
  moreover from this(2) c(1) have "\<forall>w\<in>set ws. is_notice fmt w" unfolding is_notice_def by auto
  ultimately show ?thesis using c assms
    unfolding EmitDropSummaryIfNeeded_def Let_def
    by (auto simp: only_output_def books_def cache_ok_def set_cache_def)
qed

lemma flush_output: "only_output fmt e (flush_turn t e)"
  by (simp add: flush_turn_def only_output_def books_def cache_ok_def)

lemma write_batch_eq:
  assumes "cache_ok fmt e"
  shows "\<exists>ws. written (write_batch fmt n b e) = written e @ ws \<and> concat (map snd ws) = concat (map (log_line fmt) b)
    \<and> cache_ok fmt (write_batch fmt n b e)
    \<and> books (write_batch fmt n b e) = books (e\<lparr>inflight_count := inflight_count e - of_nat (length b), consumed := consumed e + of_nat (length b)\<rparr>)"
proof -
  let ?e = "e\<lparr>inflight_count := inflight_count e - of_nat (length b), consumed := consumed e + of_nat (length b)\<rparr>"
  have "cache_ok fmt ?e" using assms by (simp add: cache_ok_def)
  then obtain c where c: "FormatBatch fmt b ?e = (set_cache c ?e)\<lparr>formatted_batch_buffer := concat (map (log_line fmt) b)\<rparr>"
      "cache_ok fmt (set_cache c ?e)"
    using FormatBatch_eq by blast
  obtain ws where "WriteBuffer n (formatted_batch_buffer (FormatBatch fmt b ?e)) (FormatBatch fmt b ?e)
      = (FormatBatch fmt b ?e)\<lparr>written := written (FormatBatch fmt b ?e) @ ws\<rparr>"
      "concat (map snd ws) = formatted_batch_buffer (FormatBatch fmt b ?e)"
    using WriteBuffer_eq by blast
  with c show ?thesis
    by (intro exI [of _ ws]) (simp add: write_batch_def Let_def cache_ok_def set_cache_def books_def)
qed

section \<open>The worker\<close>

text \<open>The batch in the hands of the worker, and how far it is from its end.\<close>

fun hand :: "wk_pc \<Rightarrow> LogEntry list" where
  "hand (Batch b) = b"
| "hand (DrainBatch b) = b"
| "hand _ = []"

fun ending :: "wk_pc \<Rightarrow> bool" where
  "ending Draining = True"
| "ending (DrainBatch b) = True"
| "ending Final = True"
| "ending Exited = True"
| "ending _ = False"

fun turns_left :: "wk_pc \<Rightarrow> nat" where
  "turns_left NoThread = 0"
| "turns_left Opening = 7"
| "turns_left LoopTop = 6"
| "turns_left (Batch b) = (if b = [] then 5 else 7)"
| "turns_left Idling = 4"
| "turns_left Draining = 3"
| "turns_left (DrainBatch b) = 4"
| "turns_left Final = 1"
| "turns_left Exited = 0"

text \<open>An upper bound of the turns until the end, with \<open>k\<close> entries in the queue or still to come.\<close>

definition work :: "wk_pc \<Rightarrow> nat \<Rightarrow> nat" where
  "work w k = (if w = Exited then 0 else turns_left w + 2 * k)"

lemma work_le: "work w k \<le> 7 + 2 * k"
  by (cases w) (auto simp: work_def)

text \<open>The writes split into those of the entries \<open>fin\<close>, which make up their lines one after the other, and notices.\<close>

definition log_out :: "second_format \<Rightarrow> LogEntry list \<Rightarrow> AsyncLoggerEngine \<Rightarrow> bool" where
  "log_out fmt fin e \<longleftrightarrow>
     cache_ok fmt e \<and> (\<exists>tagged. written e = map fst tagged \<and> (\<forall>(w, of_entry) \<in> set tagged. of_entry \<or> is_notice fmt w)
       \<and> concat (map (snd \<circ> fst) (filter snd tagged)) = concat (map (log_line fmt) fin))"

lemma log_out_update [simp]:
  "log_out fmt fin (e\<lparr>lg_queue := q\<rparr>) = log_out fmt fin e" "log_out fmt fin (e\<lparr>worker := w\<rparr>) = log_out fmt fin e"
  "log_out fmt fin (e\<lparr>batch_limit := l\<rparr>) = log_out fmt fin e" "log_out fmt fin (e\<lparr>inflight_count := c\<rparr>) = log_out fmt fin e"
  "log_out fmt fin (e\<lparr>enqueued := c\<rparr>) = log_out fmt fin e" "log_out fmt fin (e\<lparr>submit_calls := c\<rparr>) = log_out fmt fin e"
  "log_out fmt fin (e\<lparr>filtered_by_level := c\<rparr>) = log_out fmt fin e" "log_out fmt fin (e\<lparr>dropped := c\<rparr>) = log_out fmt fin e"
  "log_out fmt fin (e\<lparr>dropped_for_summary := c\<rparr>) = log_out fmt fin e"
  by (simp_all add: log_out_def cache_ok_def)

lemma log_out_only_output:
  assumes "log_out fmt fin e" and "only_output fmt e e'"
  shows "log_out fmt fin e'"
proof -
  obtain tagged ws where t: "written e = map fst tagged" "\<forall>(w, of_entry) \<in> set tagged. of_entry \<or> is_notice fmt w"
      "concat (map (snd \<circ> fst) (filter snd tagged)) = concat (map (log_line fmt) fin)"
      "written e' = written e @ ws" "\<forall>w\<in>set ws. is_notice fmt w"
    using assms unfolding log_out_def only_output_def by blast
  then have "written e' = map fst (tagged @ map (\<lambda>w. (w, False)) ws)"
    "\<forall>(w, of_entry) \<in> set (tagged @ map (\<lambda>w. (w, False)) ws). of_entry \<or> is_notice fmt w"
    "concat (map (snd \<circ> fst) (filter snd (tagged @ map (\<lambda>w. (w, False)) ws))) = concat (map (log_line fmt) fin)"
    by (auto simp: filter_map comp_def)
  with assms show ?thesis unfolding log_out_def only_output_def by blast
qed

lemma log_out_written:
  assumes "log_out fmt fin e" and "written e' = written e @ ws" and "concat (map snd ws) = concat (map (log_line fmt) b)" and "cache_ok fmt e'"
  shows "log_out fmt (fin @ b) e'"
proof -
  obtain tagged where t: "written e = map fst tagged" "\<forall>(w, of_entry) \<in> set tagged. of_entry \<or> is_notice fmt w"
      "concat (map (snd \<circ> fst) (filter snd tagged)) = concat (map (log_line fmt) fin)"
    using assms(1) unfolding log_out_def by blast
  with assms(2,3) have "written e' = map fst (tagged @ map (\<lambda>w. (w, True)) ws)"
    "\<forall>(w, of_entry) \<in> set (tagged @ map (\<lambda>w. (w, True)) ws). of_entry \<or> is_notice fmt w"
    "concat (map (snd \<circ> fst) (filter snd (tagged @ map (\<lambda>w. (w, True)) ws))) = concat (map (log_line fmt) (fin @ b))"
    by (auto simp: filter_map comp_def)
  with assms(4) show ?thesis unfolding log_out_def by blast
qed

text \<open>
  The state of the engine when the entries \<open>ps\<close> have been pushed: the first \<open>fin\<close> of them are written,
  then comes the batch of the worker, and \<open>xs\<close> is still in the queue.
\<close>

definition eng_inv :: "second_format \<Rightarrow> LogEntry list \<Rightarrow> LogEntry list \<Rightarrow> LogEntry list \<Rightarrow> AsyncLoggerEngine \<Rightarrow> bool" where
  "eng_inv fmt ps fin xs e \<longleftrightarrow>
     ps = fin @ hand (worker e) @ xs \<and> queue_of 18 (lg_queue e) (length ps) xs
     \<and> consumed e = of_nat (length fin) \<and> inflight_count e = enqueued e - consumed e \<and> log_out fmt fin e
     \<and> 1 \<le> max_batch_size e \<and> (worker e \<noteq> Opening \<longrightarrow> 1 \<le> batch_limit e)
     \<and> worker e \<noteq> NoThread \<and> worker_started e \<and> (stop_token e \<longleftrightarrow> \<not> accepting_logs e) \<and> (ending (worker e) \<longrightarrow> stop_token e)"

definition counters :: "AsyncLoggerEngine \<Rightarrow> _" where
  "counters e = (enqueued e, submit_calls e, filtered_by_level e, dropped e, accepting_logs e, stop_token e)"

definition turn_ok :: "second_format \<Rightarrow> LogEntry list \<Rightarrow> LogEntry list \<Rightarrow> LogEntry list \<Rightarrow> AsyncLoggerEngine \<Rightarrow> AsyncLoggerEngine \<Rightarrow> bool" where
  "turn_ok fmt ps fin xs e e' \<longleftrightarrow>
     (\<exists>fin' xs'. eng_inv fmt ps fin' xs' e' \<and> length fin \<le> length fin' \<and> counters e' = counters e
        \<and> (stop_token e \<longrightarrow> (\<forall>k. work (worker e') (length xs' + k) \<le> work (worker e) (length xs + k) - 1))
        \<and> (worker e' = Final \<or> worker e' = Exited \<longrightarrow> worker e = Final \<or> worker e = Exited \<or> fin' = ps))"

lemma eng_inv_output:
  assumes "eng_inv fmt ps fin xs e" and "only_output fmt e e1" and "hand (worker e) = hand w" and "w \<noteq> NoThread"
    and "ending w \<longrightarrow> stop_token e" and "1 \<le> l"
  shows "eng_inv fmt ps fin xs (e1\<lparr>worker := w, batch_limit := l\<rparr>)"
proof -
  have "log_out fmt fin e1" using assms(1,2) log_out_only_output unfolding eng_inv_def by blast
  with assms show ?thesis by (auto simp: eng_inv_def only_output_def books_def)
qed

lemma only_output_update:
  "only_output fmt e e1 \<Longrightarrow> only_output fmt e (e1\<lparr>last_flush := f, last_drop_report := d\<rparr>)"
  by (auto simp: only_output_def books_def cache_ok_def)

lemma eng_inv_pop:
  assumes "eng_inv fmt ps fin xs e" and "hand (worker e) = []" and "PopBatch m (lg_queue e) = (b, q)"
    and "hand w = b" and "w \<noteq> NoThread" and "ending w \<longrightarrow> stop_token e" and "1 \<le> l"
  shows "eng_inv fmt ps fin (drop m xs) (e\<lparr>lg_queue := q, worker := w, batch_limit := l\<rparr>) \<and> b = take m xs"
proof -
  obtain r where "PopBatch m (lg_queue e) = (take m xs, r)" "queue_of 18 r (length ps) (drop m xs)"
    using assms(1) PopBatch_queue [of 18 "lg_queue e" "length ps" xs m] unfolding eng_inv_def by blast
  moreover from this assms(3,4) have "xs = hand w @ drop m xs" by auto
  ultimately show ?thesis using assms by (auto simp: eng_inv_def)
qed

lemma eng_inv_write:
  assumes "eng_inv fmt ps fin xs e" and "hand (worker e) = b" and "worker e \<noteq> Opening" and "hand w = []" and "w \<noteq> NoThread"
    and "ending w \<longrightarrow> stop_token e" and out: "cache_ok fmt (write_batch fmt n b e) \<Longrightarrow> only_output fmt (write_batch fmt n b e) e2"
  shows "eng_inv fmt ps (fin @ b) xs (e2\<lparr>worker := w\<rparr>) \<and> counters e2 = counters e"
proof -
  have "cache_ok fmt e" "log_out fmt fin e" using assms(1) by (auto simp: eng_inv_def log_out_def)
  then obtain ws where ws: "written (write_batch fmt n b e) = written e @ ws" "concat (map snd ws) = concat (map (log_line fmt) b)"
      "cache_ok fmt (write_batch fmt n b e)"
      "books (write_batch fmt n b e) = books (e\<lparr>inflight_count := inflight_count e - of_nat (length b), consumed := consumed e + of_nat (length b)\<rparr>)"
    using write_batch_eq by blast
  have "log_out fmt (fin @ b) e2"
    using log_out_only_output [OF log_out_written [OF \<open>log_out fmt fin e\<close> ws(1-3)] out [OF ws(3)]] .
  moreover have "books e2 = books (e\<lparr>inflight_count := inflight_count e - of_nat (length b), consumed := consumed e + of_nat (length b)\<rparr>)"
    using out [OF ws(3)] ws(4) by (simp add: only_output_def)
  ultimately show ?thesis using assms(1-6) by (auto simp: eng_inv_def books_def counters_def)
qed

text \<open>One turn of the worker, place by place.\<close>

lemma turn_okI:
  "eng_inv fmt ps fin' xs' e' \<Longrightarrow> length fin \<le> length fin' \<Longrightarrow> counters e' = counters e
   \<Longrightarrow> (\<And>k. work (worker e') (length xs' + k) \<le> work (worker e) (length xs + k) - 1 \<or> \<not> stop_token e)
   \<Longrightarrow> (worker e' = Final \<or> worker e' = Exited \<Longrightarrow> worker e = Final \<or> worker e = Exited \<or> fin' = ps)
   \<Longrightarrow> turn_ok fmt ps fin xs e e'"
  unfolding turn_ok_def by blast

lemma only_output_counters: "only_output fmt e e' \<Longrightarrow> counters e' = counters e"
  by (simp add: only_output_def books_def counters_def)

lemma counters_update [simp]:
  "counters (e\<lparr>worker := w\<rparr>) = counters e" "counters (e\<lparr>batch_limit := l\<rparr>) = counters e" "counters (e\<lparr>lg_queue := q\<rparr>) = counters e"
  by (simp_all add: counters_def)

lemma drop_shorter: "1 \<le> m \<Longrightarrow> xs \<noteq> [] \<Longrightarrow> Suc (Suc (2 * (length xs - m))) \<le> 2 * length xs"
  by (cases xs) auto

lemma turn_Opening:
  assumes inv: "eng_inv fmt ps fin xs e" and w: "worker e = Opening"
  shows "turn_ok fmt ps fin xs e (WorkerLoop_step fmt t e)"
proof -
  let ?e1 = "(OpenFile (te_opens t) (pending_log_path e) e)\<lparr>last_flush := te_now t, last_drop_report := te_now t\<rparr>"
  have out: "only_output fmt e ?e1" by (intro only_output_update OpenFile_output)
  have step: "WorkerLoop_step fmt t e = ?e1\<lparr>worker := LoopTop, batch_limit := max_batch_size e\<rparr>" using w by (simp add: WorkerLoop_step_def)
  have "eng_inv fmt ps fin xs (WorkerLoop_step fmt t e)"
    unfolding step using inv w by (intro eng_inv_output [OF inv out]) (auto simp: eng_inv_def)
  then show ?thesis
    by (rule turn_okI) (use only_output_counters [OF out] w in \<open>simp_all add: step work_def\<close>)
qed

lemma turn_LoopTop:
  assumes inv: "eng_inv fmt ps fin xs e" and w: "worker e = LoopTop"
  shows "turn_ok fmt ps fin xs e (WorkerLoop_step fmt t e)"
proof -
  define e1 where "e1 = (if reopen_requested e then OpenFile (te_opens t) (pending_log_path e) (e\<lparr>reopen_requested := False\<rparr>) else e)"
  have "only_output fmt e (e\<lparr>reopen_requested := False\<rparr>)" by (simp add: only_output_def books_def cache_ok_def)
  then have out: "only_output fmt e e1"
    unfolding e1_def by (simp add: only_output_trans [OF _ OpenFile_output])
  then have same: "max_batch_size e1 = max_batch_size e" "stop_token e1 = stop_token e" by (simp_all add: only_output_def books_def)
  let ?e1 = "e1\<lparr>worker := LoopTop, batch_limit := max_batch_size e\<rparr>"
  have inv1: "eng_inv fmt ps fin xs ?e1" using inv w by (intro eng_inv_output [OF inv out]) (auto simp: eng_inv_def)
  obtain b q where pop: "PopBatch (max_batch_size e) (lg_queue e1) = (b, q)" by fastforce
  have step: "WorkerLoop_step fmt t e = ?e1\<lparr>lg_queue := q, worker := Batch b, batch_limit := max_batch_size e\<rparr>"
    unfolding WorkerLoop_step_def w wk_pc.case Let_def e1_def [symmetric] same(1) pop prod.case by simp
  have "eng_inv fmt ps fin (drop (max_batch_size e) xs) (WorkerLoop_step fmt t e) \<and> b = take (max_batch_size e) xs"
    unfolding step using inv by (intro eng_inv_pop [OF inv1]) (auto simp: pop eng_inv_def)
  moreover have "1 \<le> max_batch_size e" using inv by (simp add: eng_inv_def)
  ultimately show ?thesis
    by (intro turn_okI [of fmt ps fin "drop (max_batch_size e) xs"])
      (use only_output_counters [OF out] w drop_shorter [of "max_batch_size e" xs] in \<open>auto simp: step work_def\<close>)
qed

lemma turn_Batch:
  assumes inv: "eng_inv fmt ps fin xs e" and w: "worker e = Batch b"
  shows "turn_ok fmt ps fin xs e (WorkerLoop_step fmt t e)"
proof (cases "b = []")
  case True
  let ?e1 = "flush_turn t (EmitDropSummaryIfNeeded fmt False t e)"
  have "cache_ok fmt e" using inv by (simp add: eng_inv_def log_out_def)
  then have out: "only_output fmt e ?e1" using only_output_trans [OF Emit_output flush_output] by blast
  have step: "WorkerLoop_step fmt t e = ?e1\<lparr>worker := Idling, batch_limit := batch_limit e\<rparr>"
    using w True out by (simp add: WorkerLoop_step_def only_output_def books_def)
  have "eng_inv fmt ps fin xs (WorkerLoop_step fmt t e)"
    unfolding step using inv w True by (intro eng_inv_output [OF inv out]) (auto simp: eng_inv_def)
  then show ?thesis by (rule turn_okI) (use only_output_counters [OF out] w True in \<open>simp_all add: step work_def\<close>)
next
  case False
  let ?e2 = "flush_turn t (EmitDropSummaryIfNeeded fmt False t (write_batch fmt (te_taken t) b e))"
  have step: "WorkerLoop_step fmt t e = ?e2\<lparr>worker := LoopTop\<rparr>" using w False by (simp add: WorkerLoop_step_def)
  have "eng_inv fmt ps (fin @ b) xs (?e2\<lparr>worker := LoopTop\<rparr>) \<and> counters ?e2 = counters e"
    using inv w by (intro eng_inv_write [where n = "te_taken t"] only_output_trans [OF Emit_output flush_output]) auto
  then show ?thesis
    by (intro turn_okI [of fmt ps "fin @ b" xs]) (use w False in \<open>auto simp: step work_def\<close>)
qed

lemma turn_Idling:
  assumes inv: "eng_inv fmt ps fin xs e" and w: "worker e = Idling"
  shows "turn_ok fmt ps fin xs e (WorkerLoop_step fmt t e)"
proof -
  let ?w = "if stop_token e then Draining else LoopTop"
  have step: "WorkerLoop_step fmt t e = e\<lparr>worker := ?w, batch_limit := batch_limit e\<rparr>"
    unfolding WorkerLoop_step_def w wk_pc.case by simp
  have "eng_inv fmt ps fin xs (WorkerLoop_step fmt t e)"
    unfolding step using inv w by (intro eng_inv_output [OF inv only_output_refl]) (auto simp: eng_inv_def)
  then show ?thesis by (rule turn_okI) (use w in \<open>simp_all add: step work_def split: if_splits\<close>)
qed

lemma turn_Exited:
  assumes inv: "eng_inv fmt ps fin xs e" and w: "worker e = Exited"
  shows "turn_ok fmt ps fin xs e (WorkerLoop_step fmt t e)"
proof -
  have step: "WorkerLoop_step fmt t e = e" unfolding WorkerLoop_step_def w wk_pc.case ..
  show ?thesis unfolding step using inv by (rule turn_okI) (use w in \<open>simp_all add: work_def\<close>)
qed

lemma turn_Draining:
  assumes inv: "eng_inv fmt ps fin xs e" and w: "worker e = Draining"
  shows "turn_ok fmt ps fin xs e (WorkerLoop_step fmt t e)"
proof -
  obtain b q where pop: "PopBatch (batch_limit e) (lg_queue e) = (b, q)" by fastforce
  let ?w = "if b = [] then Final else DrainBatch b" and ?l = "batch_limit e"
  have l: "1 \<le> ?l" using inv w by (simp add: eng_inv_def)
  have step: "WorkerLoop_step fmt t e = e\<lparr>lg_queue := q, worker := ?w, batch_limit := ?l\<rparr>"
    unfolding WorkerLoop_step_def w wk_pc.case pop prod.case by simp
  have inv': "eng_inv fmt ps fin (drop ?l xs) (WorkerLoop_step fmt t e) \<and> b = take ?l xs"
    unfolding step using inv w l by (intro eng_inv_pop [OF inv _ pop]) (auto simp: eng_inv_def)
  then have b: "b = [] \<longleftrightarrow> xs = []" using l by (cases xs) auto
  have "ps = fin" if "xs = []" using inv w that by (simp add: eng_inv_def)
  with inv' b show ?thesis
    by (intro turn_okI [of fmt ps fin "drop ?l xs"]) (use w l drop_shorter [of ?l xs] in \<open>auto simp: step work_def split: if_splits\<close>)
qed

lemma turn_DrainBatch:
  assumes inv: "eng_inv fmt ps fin xs e" and w: "worker e = DrainBatch b"
  shows "turn_ok fmt ps fin xs e (WorkerLoop_step fmt t e)"
proof -
  let ?e2 = "write_batch fmt (te_taken t) b e"
  have step: "WorkerLoop_step fmt t e = ?e2\<lparr>worker := Draining\<rparr>" using w by (simp add: WorkerLoop_step_def)
  have "eng_inv fmt ps (fin @ b) xs (?e2\<lparr>worker := Draining\<rparr>) \<and> counters ?e2 = counters e"
    using inv w by (intro eng_inv_write [where n = "te_taken t"]) (auto simp: eng_inv_def)
  then show ?thesis
    by (intro turn_okI [of fmt ps "fin @ b" xs]) (use w in \<open>auto simp: step work_def\<close>)
qed

lemma turn_Final:
  assumes inv: "eng_inv fmt ps fin xs e" and w: "worker e = Final"
  shows "turn_ok fmt ps fin xs e (WorkerLoop_step fmt t e)"
proof -
  let ?e1 = "EmitDropSummaryIfNeeded fmt True t e"
  have "cache_ok fmt e" using inv by (simp add: eng_inv_def log_out_def)
  then have out: "only_output fmt e ?e1" by (rule Emit_output)
  have step: "WorkerLoop_step fmt t e = ?e1\<lparr>worker := Exited, batch_limit := batch_limit e\<rparr>"
    using w out by (simp add: WorkerLoop_step_def only_output_def books_def)
  have "eng_inv fmt ps fin xs (WorkerLoop_step fmt t e)"
    unfolding step using inv w by (intro eng_inv_output [OF inv out]) (auto simp: eng_inv_def)
  then show ?thesis by (rule turn_okI) (use only_output_counters [OF out] w in \<open>simp_all add: step work_def\<close>)
qed

lemma turn:
  assumes inv: "eng_inv fmt ps fin xs e"
  shows "turn_ok fmt ps fin xs e (WorkerLoop_step fmt t e)"
proof -
  have "worker e \<noteq> NoThread" using inv by (simp add: eng_inv_def)
  then show ?thesis
    by (cases "worker e") (simp_all add: turn_Opening [OF inv] turn_LoopTop [OF inv] turn_Batch [OF inv] turn_Idling [OF inv] turn_Exited [OF inv]
      turn_Draining [OF inv] turn_DrainBatch [OF inv] turn_Final [OF inv])
qed

end
