(* ===== verification/Logger_Service.thy ===== *)
theory Logger_Service
  imports Logger_Run
begin

text \<open>
  What the logger promises to its callers under every interleaving of producers, worker and
  configuration: every entry that went into the queue is written exactly once, in the order of the queue;
  the counters balance; after a shut-down request the worker ends and everything that was in the queue is
  written.
\<close>

section \<open>The system\<close>

definition pushing :: "prod_pc \<Rightarrow> bool" where
  "pushing p = (case p of PPush _ \<Rightarrow> True | _ \<Rightarrow> False)"

lemma pushing_simps [simp]: "\<not> pushing PIdle" "pushing (PPush entry)" "\<not> pushing PCount"
  by (simp_all add: pushing_def)

text \<open>How many producers are at a place.\<close>

definition at :: "(prod_pc \<Rightarrow> bool) \<Rightarrow> log_sys \<Rightarrow> nat" where
  "at P x = length (filter P (producers x))"

lemma at_update: "i < length ps \<Longrightarrow> length (filter P (ps[i := v])) + of_bool (P (ps ! i)) = length (filter P ps) + of_bool (P v)"
proof (induction ps arbitrary: i)
  case (Cons p ps)
  then show ?case by (cases i) auto
qed simp

definition log_books :: "log_sys \<Rightarrow> bool" where
  "log_books x \<longleftrightarrow>
     enqueued (eng x) + of_nat (at ((=) PCount) x) = of_nat (length (pushed x))
     \<and> submit_calls (eng x) = filtered_by_level (eng x) + dropped (eng x) + enqueued (eng x) + late_calls x
         + of_nat (at ((=) PCount) x) + of_nat (at pushing x)"

definition log_stop :: "LogEntry list \<Rightarrow> log_sys \<Rightarrow> bool" where
  "log_stop fin x \<longleftrightarrow>
     (stop_mark x = None \<longleftrightarrow> accepting_logs (eng x)) \<and> (\<forall>m. stop_mark x = Some m \<longrightarrow> m \<le> length (pushed x))
     \<and> (worker (eng x) = Final \<or> worker (eng x) = Exited \<longrightarrow> (\<forall>m. stop_mark x = Some m \<longrightarrow> m \<le> length fin))"

definition log_inv :: "second_format \<Rightarrow> LogEntry list \<Rightarrow> LogEntry list \<Rightarrow> log_sys \<Rightarrow> bool" where
  "log_inv fmt fin xs x \<longleftrightarrow> eng_inv fmt (pushed x) fin xs (eng x) \<and> log_books x \<and> log_stop fin x"

lemma limit_ring: "n < 2 ^ 62 \<Longrightarrow> Suc n + 2 ^ 18 < 2 ^ 63"
  by simp

text \<open>The ring of the logger as a bounded queue.\<close>

interpretation log_queue: bounded_fifo "queue_of 18" TryPush TryPopOne "2 ^ 18" "2 ^ 62"
proof
  fix r :: "'a ring" and n xs v
  assume q: "queue_of 18 r n xs"
  show "\<exists>r'. TryPush v r = Some (True, r') \<and> queue_of 18 r' (Suc n) (xs @ [v])" if "length xs < 2 ^ 18" "n < 2 ^ 62"
    using TryPush_room [OF q that(1) limit_ring [OF that(2)]] .
  show "TryPush v r = Some (False, r)" if "\<not> length xs < 2 ^ 18" using TryPush_full [OF q that] .
  show "length xs \<le> 2 ^ 18 \<and> length xs \<le> n" using queue_of_bounded [OF q] .
qed (simp_all add: TryPopOne_Cons TryPopOne_Nil)

subsection \<open>Every event keeps the invariant\<close>

lemma log_init_inv: "log_inv fmt [] [] (log_init n)"
proof -
  have "queue_of 18 (MpscRingQueue_make 18) 0 ([] :: LogEntry list)" by (rule queue_of_make) simp_all
  then show ?thesis
    by (auto simp: log_inv_def eng_inv_def log_books_def log_stop_def log_init_def AsyncLoggerEngine_make_def StartWorkerIfNeeded_def
        log_out_def cache_ok_def at_def kRingBits_def kDefaultBatchSize_def intro: exI [of _ "[]"])
qed

text \<open>Calls that leave the queue, the counters and the worker alone.\<close>

definition same_run :: "AsyncLoggerEngine \<Rightarrow> AsyncLoggerEngine \<Rightarrow> bool" where
  "same_run e e' \<longleftrightarrow> lg_queue e' = lg_queue e \<and> inflight_count e' = inflight_count e \<and> consumed e' = consumed e
     \<and> counters e' = counters e \<and> cached_second e' = cached_second e \<and> cached_second_text e' = cached_second_text e
     \<and> written e' = written e \<and> worker e' = worker e \<and> batch_limit e' = batch_limit e
     \<and> worker_started e' = worker_started e \<and> (1 \<le> max_batch_size e \<longrightarrow> 1 \<le> max_batch_size e')"

lemma same_run_inv: "log_inv fmt fin xs x \<Longrightarrow> same_run (eng x) e' \<Longrightarrow> log_inv fmt fin xs (x\<lparr>eng := e'\<rparr>)"
  by (clarsimp simp: log_inv_def eng_inv_def log_books_def log_stop_def at_def log_out_def cache_ok_def same_run_def counters_def)

lemma same_run_calls:
  "worker_started e \<Longrightarrow> same_run e (Init options e)" "same_run e (SetLogFile path e)" "same_run e (SetLogLevel level e)"
  "same_run e (Flush e)" "Shutdown_end e = Some e' \<Longrightarrow> same_run e e'"
  by (auto simp: same_run_def Init_def SetLogFile_def SetLogLevel_def Flush_def Shutdown_end_def CloseFile_def StartWorkerIfNeeded_def
      counters_def Let_def split: if_splits)

lemma eng_inv_counts [simp]:
  "eng_inv fmt ps fin xs (e\<lparr>submit_calls := c\<rparr>) = eng_inv fmt ps fin xs e"
  "eng_inv fmt ps fin xs (e\<lparr>filtered_by_level := c\<rparr>) = eng_inv fmt ps fin xs e"
  "eng_inv fmt ps fin xs (count_dropped e) = eng_inv fmt ps fin xs e"
  by (simp_all add: eng_inv_def count_dropped_def)

text \<open>A producer moves from one place to another.\<close>

lemma at_moved:
  assumes "i < length (producers x)" and "producers x ! i = p" and "producers y = (producers x)[i := q]"
  shows "of_nat (at P y) + of_bool (P p) = (of_nat (at P x) + of_bool (P q) :: u64)"
  using arg_cong [OF at_update [OF assms(1), of P q], of "of_nat :: nat \<Rightarrow> u64"] assms(2,3) by (simp add: at_def)

lemma begin_log_inv:
  assumes inv: "log_inv fmt fin xs x" and i: "i < length (producers x)" "producers x ! i = PIdle"
  shows "log_inv fmt fin xs (begin_log i c x)"
proof -
  let ?y = "begin_log i c x"
  define q where "q = (case fst (SubmitAsyncLog_checks c (eng x)) of None \<Rightarrow> PIdle | Some entry \<Rightarrow> PPush entry)"
  have y: "producers ?y = (producers x)[i := q]" by (simp add: begin_log_def q_def split: prod.split)
  have q: "\<not> PCount = q" by (simp add: q_def split: option.split)
  note moved = at_moved [OF i y]
  have c: "of_nat (at ((=) PCount) ?y) = (of_nat (at ((=) PCount) x) :: u64)" using moved [of "(=) PCount"] q by simp
  have p: "of_nat (at pushing ?y) = (of_nat (at pushing x) + of_bool (pushing q) :: u64)" using moved [of pushing] by simp
  have "eng_inv fmt (pushed ?y) fin xs (eng ?y)"
    using inv by (auto simp: log_inv_def begin_log_def SubmitAsyncLog_checks_def Submit_checks_def Let_def)
  moreover have "log_stop fin ?y"
    using inv by (simp add: log_inv_def log_stop_def begin_log_def SubmitAsyncLog_checks_def Submit_checks_def Let_def count_dropped_def)
  moreover have "log_books ?y"
    using inv unfolding log_inv_def log_books_def c p
    by (auto simp: q_def begin_log_def SubmitAsyncLog_checks_def Submit_checks_def Let_def count_dropped_def)
  ultimately show ?thesis by (simp add: log_inv_def)
qed

text \<open>
  What one event does: the invariant holds again, nothing pushed is forgotten, and once the stop
  is requested the work that is left does not grow, by \<open>d\<close> it shrinks.
\<close>

definition todo :: "LogEntry list \<Rightarrow> log_sys \<Rightarrow> nat" where
  "todo xs x = work (worker (eng x)) (length xs + at pushing x)"

definition step_ok :: "second_format \<Rightarrow> LogEntry list \<Rightarrow> LogEntry list \<Rightarrow> log_sys \<Rightarrow> nat \<Rightarrow> log_sys \<Rightarrow> bool" where
  "step_ok fmt fin xs x d y \<longleftrightarrow>
     (\<exists>fin' xs'. log_inv fmt fin' xs' y \<and> length (pushed y) \<le> Suc (length (pushed x))
        \<and> (stop_mark x \<noteq> None \<longrightarrow> stop_mark y = stop_mark x \<and> todo xs' y \<le> todo xs x - d))"

lemma step_okI:
  "log_inv fmt fin' xs' y \<Longrightarrow> length (pushed y) \<le> Suc (length (pushed x))
   \<Longrightarrow> (stop_mark x \<noteq> None \<Longrightarrow> stop_mark y = stop_mark x \<and> todo xs' y \<le> todo xs x - d) \<Longrightarrow> step_ok fmt fin xs x d y"
  unfolding step_ok_def by blast

lemma same_run_ok: "log_inv fmt fin xs x \<Longrightarrow> same_run (eng x) e' \<Longrightarrow> step_ok fmt fin xs x 0 (x\<lparr>eng := e'\<rparr>)"
  by (rule step_okI [OF same_run_inv]) (auto simp: todo_def at_def same_run_def)

lemma begin_log_ok:
  assumes inv: "log_inv fmt fin xs x" and i: "i < length (producers x)" "producers x ! i = PIdle"
  shows "step_ok fmt fin xs x 0 (begin_log i c x)"
proof (rule step_okI [OF begin_log_inv [OF assms]])
  show "length (pushed (begin_log i c x)) \<le> Suc (length (pushed x))" by (simp add: begin_log_def split: prod.split)
  assume "stop_mark x \<noteq> None"
  with inv have "\<not> accepting_logs (eng x)" by (auto simp: log_inv_def log_stop_def)
  then have "producers (begin_log i c x) = producers x" "worker (eng (begin_log i c x)) = worker (eng x)" "stop_mark (begin_log i c x) = stop_mark x"
    using list_update_id [of "producers x" i] i(2)
    by (simp_all add: begin_log_def SubmitAsyncLog_checks_def Submit_checks_def)
  then show "stop_mark (begin_log i c x) = stop_mark x \<and> todo xs (begin_log i c x) \<le> todo xs x - 0"
    by (simp add: todo_def at_def)
qed

lemma worker_ok:
  assumes "log_inv fmt fin xs x"
  shows "step_ok fmt fin xs x 1 (x\<lparr>eng := WorkerLoop_step fmt t (eng x)\<rparr>)"
proof -
  let ?e = "eng x" and ?e' = "WorkerLoop_step fmt t (eng x)"
  have inv: "eng_inv fmt (pushed x) fin xs ?e" "log_books x" "log_stop fin x" using assms by (simp_all add: log_inv_def)
  obtain fin' xs' where inv': "eng_inv fmt (pushed x) fin' xs' ?e'" and len: "length fin \<le> length fin'" and same: "counters ?e' = counters ?e"
    and less: "stop_token ?e \<longrightarrow> (\<forall>k. work (worker ?e') (length xs' + k) \<le> work (worker ?e) (length xs + k) - 1)"
    and last: "worker ?e' = Final \<or> worker ?e' = Exited \<longrightarrow> worker ?e = Final \<or> worker ?e = Exited \<or> fin' = pushed x"
    using turn [OF inv(1), of t] unfolding turn_ok_def by blast
  have stop: "m \<le> length fin'" if "worker ?e' = Final \<or> worker ?e' = Exited" "stop_mark x = Some m" for m
    using last that inv(3) len unfolding log_stop_def by (meson le_trans)
  have "log_books (x\<lparr>eng := ?e'\<rparr>)" using inv(2) same by (simp add: log_books_def counters_def at_def)
  moreover have "log_stop fin' (x\<lparr>eng := ?e'\<rparr>)" using inv(3) stop same by (simp add: log_stop_def counters_def)
  ultimately have "log_inv fmt fin' xs' (x\<lparr>eng := ?e'\<rparr>)" using inv' by (simp add: log_inv_def)
  moreover have "stop_token ?e" if "stop_mark x \<noteq> None" using inv that by (auto simp: log_stop_def eng_inv_def)
  ultimately show ?thesis
    by (intro step_okI [of fmt fin' xs']) (use less in \<open>auto simp: todo_def at_def\<close>)
qed

lemma push_ok:
  assumes "log_inv fmt fin xs x" and i: "i < length (producers x)" and p: "producers x ! i = PPush entry"
    and room: "length (pushed x) < 2 ^ 62"
  shows "step_ok fmt fin xs x 0 (step_log i x)"
proof -
  have inv: "eng_inv fmt (pushed x) fin xs (eng x)" "log_books x" "log_stop fin x" using assms(1) by (simp_all add: log_inv_def)
  have "queue_of 18 (lg_queue (eng x)) (length (pushed x)) xs" using inv(1) unfolding eng_inv_def by blast
  from log_queue.push_returns [OF this room, of entry] obtain b q where push: "TryPush entry (lg_queue (eng x)) = Some (b, q)"
      and q: "queue_of 18 q (length (pushed x) + of_bool b) (xs @ (if b then [entry] else []))"
    by auto
  let ?xs = "xs @ (if b then [entry] else [])" and ?y = "step_log i x"
  let ?e = "(eng x)\<lparr>lg_queue := q\<rparr>"
  have step: "?y = (if b then x\<lparr>eng := ?e, producers := (producers x)[i := PCount], pushed := pushed x @ [entry]\<rparr>
      else x\<lparr>eng := count_dropped ?e, producers := (producers x)[i := PIdle]\<rparr>)"
    using p push by (cases b) (simp_all add: step_log_def Submit_push_def)
  then have y: "producers ?y = (producers x)[i := (if b then PCount else PIdle)]" "worker (eng ?y) = worker (eng x)"
    "stop_mark ?y = stop_mark x" "length (pushed ?y) = length (pushed x) + of_bool b" "accepting_logs (eng ?y) = accepting_logs (eng x)"
    by (simp_all add: count_dropped_def)
  note moved = at_moved [OF i p y(1)]
  have c: "of_nat (at ((=) PCount) ?y) = (of_nat (at ((=) PCount) x) + of_bool b :: u64)" using moved [of "(=) PCount"] by simp
  have n: "of_nat (at pushing ?y) = (of_nat (at pushing x) - 1 :: u64)" using moved [of pushing] by (auto simp: algebra_simps)
  have "at pushing ?y + 1 = at pushing x" using at_update [OF i, of pushing "if b then PCount else PIdle"] p y(1) by (simp add: at_def)
  then have left: "length ?xs + at pushing ?y \<le> length xs + at pushing x" by simp
  have "eng_inv fmt (pushed ?y) fin ?xs (eng ?y)"
    unfolding step using inv(1) q by (cases b) (clarsimp simp: eng_inv_def count_dropped_def)+
  moreover have "log_books ?y"
    using inv(2) unfolding log_books_def c n y(4) by (auto simp: step count_dropped_def)
  moreover have "log_stop fin ?y" using inv(3) unfolding log_stop_def y by auto
  ultimately have "log_inv fmt fin ?xs ?y" by (simp add: log_inv_def)
  then show ?thesis
    by (rule step_okI) (use left y(2-4) in \<open>auto simp: todo_def work_def\<close>)
qed

lemma count_ok:
  assumes "log_inv fmt fin xs x" and i: "i < length (producers x)" and p: "producers x ! i = PCount"
  shows "step_ok fmt fin xs x 0 (step_log i x)"
proof -
  have inv: "eng_inv fmt (pushed x) fin xs (eng x)" "log_books x" "log_stop fin x" using assms(1) by (simp_all add: log_inv_def)
  let ?y = "step_log i x"
  have y: "?y = x\<lparr>eng := Submit_count (eng x), producers := (producers x)[i := PIdle]\<rparr>" using p by (simp add: step_log_def)
  have moved: "of_nat (at P ?y) + of_bool (P PCount) = (of_nat (at P x) + of_bool (P PIdle) :: u64)" for P
    using at_moved [OF i p] by (simp add: y)
  have c: "of_nat (at ((=) PCount) ?y) = (of_nat (at ((=) PCount) x) - 1 :: u64)"
    using moved [of "(=) PCount"] by (auto simp: algebra_simps)
  have n: "of_nat (at pushing ?y) = (of_nat (at pushing x) :: u64)" using moved [of pushing] by simp
  have "at pushing ?y = at pushing x" using at_update [OF i, of pushing PIdle] p by (simp add: at_def y)
  moreover have "eng_inv fmt (pushed ?y) fin xs (eng ?y)" using inv(1) by (clarsimp simp: y eng_inv_def Submit_count_def)
  moreover have "log_books ?y" using inv(2) unfolding log_books_def c n by (simp add: y Submit_count_def)
  moreover have "log_stop fin ?y" using inv(3) by (simp add: y log_stop_def Submit_count_def)
  ultimately show ?thesis
    by (intro step_okI [of fmt fin xs]) (auto simp: log_inv_def todo_def y Submit_count_def)
qed

lemma shutdown_ok:
  assumes inv: "log_inv fmt fin xs x"
  shows "step_ok fmt fin xs x 0 (log_exec fmt LShutdown x)"
proof (cases "accepting_logs (eng x)")
  case True
  let ?e = "(eng x)\<lparr>accepting_logs := False, stop_token := True\<rparr>"
  have step: "log_exec fmt LShutdown x = x\<lparr>eng := ?e, stop_mark := Some (length (pushed x))\<rparr>"
    using inv True by (simp add: Shutdown_begin_def log_inv_def eng_inv_def)
  have "\<not> ending (worker (eng x))" using inv True by (auto simp: log_inv_def eng_inv_def)
  then have "worker (eng x) \<noteq> Final" "worker (eng x) \<noteq> Exited" by auto
  moreover have "eng_inv fmt (pushed x) fin xs ?e"
    using inv by (clarsimp simp: log_inv_def eng_inv_def log_out_def cache_ok_def)
  moreover have "stop_mark x = None" using inv True by (simp add: log_inv_def log_stop_def)
  ultimately show ?thesis unfolding step using inv
    by (intro step_okI [of fmt fin xs]) (simp_all add: log_inv_def log_books_def log_stop_def at_def)
next
  case False
  then have step: "log_exec fmt LShutdown x = x" by (simp add: Shutdown_begin_def)
  show ?thesis unfolding step using inv by (rule step_okI) auto
qed

subsection \<open>Runs\<close>

fun is_turn :: "log_event \<Rightarrow> bool" where
  "is_turn (LWorker t) = True"
| "is_turn _ = False"

lemma unchanged_ok: "log_inv fmt fin xs x \<Longrightarrow> step_ok fmt fin xs x 0 x"
  by (rule step_okI) auto

lemma log_exec_ok:
  assumes inv: "log_inv fmt fin xs x" and room: "length (pushed x) < 2 ^ 62"
  shows "step_ok fmt fin xs x (of_bool (is_turn ev)) (log_exec fmt ev x)"
proof (cases ev)
  case (LStep i)
  then show ?thesis
    using unchanged_ok [OF inv] push_ok [OF inv, of i] room count_ok [OF inv, of i]
    by (cases "producers x ! i") (auto simp: step_log_def [of i x, unfolded prod_pc.case])
next
  case LShutdown
  with shutdown_ok [OF inv] show ?thesis by simp
next
  case LShutdownEnd
  then show ?thesis
    using unchanged_ok [OF inv] same_run_ok [OF inv same_run_calls(5)] by (auto split: option.split)
next
  case (LWorker t)
  with worker_ok [OF inv, of t] show ?thesis by simp
next
  case (LCall i c)
  with begin_log_ok [OF inv, of i c] unchanged_ok [OF inv] show ?thesis by simp
next
  case (LInit options)
  moreover have "worker_started (eng x)" using inv by (simp add: log_inv_def eng_inv_def)
  ultimately show ?thesis using same_run_ok [OF inv same_run_calls(1)] by simp
qed (use same_run_ok [OF inv] same_run_calls in simp_all)

lemma log_fold:
  assumes "log_inv fmt fin xs x" and "length (pushed x) + length es < 2 ^ 62"
  shows "\<exists>fin' xs'. log_inv fmt fin' xs' (fold (log_exec fmt) es x)
    \<and> length (pushed (fold (log_exec fmt) es x)) \<le> length (pushed x) + length es
    \<and> (stop_mark x \<noteq> None \<longrightarrow> stop_mark (fold (log_exec fmt) es x) = stop_mark x
         \<and> todo xs' (fold (log_exec fmt) es x) \<le> todo xs x - length (filter is_turn es))"
  using assms
proof (induction es arbitrary: fin xs x)
  case Nil
  then show ?case by auto
next
  case (Cons ev es)
  let ?y = "log_exec fmt ev x"
  obtain fin1 xs1 where y: "log_inv fmt fin1 xs1 ?y" "length (pushed ?y) \<le> Suc (length (pushed x))"
      "stop_mark x \<noteq> None \<longrightarrow> stop_mark ?y = stop_mark x \<and> todo xs1 ?y \<le> todo xs x - of_bool (is_turn ev)"
    using log_exec_ok [OF Cons.prems(1), of ev] Cons.prems(2) unfolding step_ok_def by auto
  obtain fin' xs' where "log_inv fmt fin' xs' (fold (log_exec fmt) es ?y)"
      "length (pushed (fold (log_exec fmt) es ?y)) \<le> length (pushed ?y) + length es"
      "stop_mark ?y \<noteq> None \<longrightarrow> stop_mark (fold (log_exec fmt) es ?y) = stop_mark ?y
         \<and> todo xs' (fold (log_exec fmt) es ?y) \<le> todo xs1 ?y - length (filter is_turn es)"
    using Cons.IH [OF y(1)] y(2) Cons.prems(2) by auto
  with y(2,3) show ?case by (intro exI [of _ fin'] exI [of _ xs']) auto
qed

lemma log_run_inv:
  assumes "length es < 2 ^ 62" and "x = fold (log_exec fmt) es (log_init n)"
  obtains fin xs where "log_inv fmt fin xs x" and "length (pushed x) \<le> length es"
  using log_fold [OF log_init_inv [of fmt n], of es] assms by (auto simp: log_init_def)

lemma log_inv_fin:
  assumes "log_inv fmt fin xs x" and "length (pushed x) < 2 ^ 62"
  shows "unat (consumed (eng x)) = length fin" "fin = take (length fin) (pushed x)" "length fin + length xs \<le> length (pushed x)"
proof -
  have inv: "pushed x = fin @ hand (worker (eng x)) @ xs" "consumed (eng x) = of_nat (length fin)"
    using assms(1) unfolding log_inv_def eng_inv_def by blast+
  then show "fin = take (length fin) (pushed x)" and len: "length fin + length xs \<le> length (pushed x)" by simp_all
  have "length fin < 2 ^ 64" using len assms(2) by simp
  then show "unat (consumed (eng x)) = length fin" unfolding inv(2) by (simp add: unat_of_nat)
qed

subsection \<open>A run with one entry\<close>

definition sample_turn :: turn_env where
  "sample_turn = \<lparr>te_now = 0, te_system = 0, te_tid_hash = 7, te_opens = True, te_taken = 4096, te_summary_taken = 4096\<rparr>"

definition sample_log :: log_call where
  "sample_log = \<lparr>lc_level = kInfo, lc_message = ''ready'', lc_file = ''src/main.cpp'', lc_line = 10, lc_function = ''main'', lc_time = 0, lc_tid_hash = 7\<rparr>"

text \<open>The worker takes and writes an entry before the producer has counted it.\<close>

definition early_worker :: "log_event list" where
  "early_worker = [LWorker sample_turn, LCall 0 sample_log, LStep 0, LWorker sample_turn, LWorker sample_turn]"

lemma early_worker_state:
  assumes "x = fold (log_exec fmt) early_worker (log_init 2)"
  shows "pushed x = [make_entry 112 sample_log]" "producers x = [PCount, PIdle]" "worker (eng x) = LoopTop" "dropped (eng x) = 0"
    "accepting_logs (eng x)" "min_level (eng x) = kInfo" "queue_capacity_soft (eng x) = 2 ^ 16" "consumed (eng x) = 1"
proof -
  let ?entry = "make_entry 112 sample_log" and ?r0 = "MpscRingQueue_make 18 :: LogEntry ring"
  let ?t = "te_taken sample_turn"
  have level: "lc_level sample_log = kInfo" by (simp add: sample_log_def)
  have q0: "queue_of 18 ?r0 0 []" by (rule queue_of_make) simp_all
  obtain r1 where r1: "TryPush ?entry ?r0 = Some (True, r1)" "queue_of 18 r1 1 [?entry]"
    using log_queue.push_room [OF q0, of ?entry] by auto
  obtain r2 where r2: "PopBatch 512 r1 = ([?entry], r2)" using PopBatch_queue [OF r1(2), of 512] by auto
  define x0 where "x0 = fold (log_exec fmt) [LWorker sample_turn, LCall 0 sample_log, LStep 0, LWorker sample_turn] (log_init 2)"
  have x0: "pushed x0 = [?entry]" "producers x0 = [PCount, PIdle]" "worker (eng x0) = Batch [?entry]" "dropped (eng x0) = 0"
    "accepting_logs (eng x0)" "min_level (eng x0) = kInfo" "queue_capacity_soft (eng x0) = 2 ^ 16" "consumed (eng x0) = 0"
    by (simp_all add: x0_def r1(1) r2 log_init_def AsyncLoggerEngine_make_def StartWorkerIfNeeded_def WorkerLoop_step_def OpenFile_def
        CloseFile_def sample_turn_def begin_log_def SubmitAsyncLog_checks_def Submit_checks_def level step_log_def
        Submit_push_def kRingBits_def kDefaultBatchSize_def kDefaultQueueCapacity_def kRingCapacity_def Let_def numeral_2_eq_2)
  have x: "x = x0\<lparr>eng := WorkerLoop_step fmt sample_turn (eng x0)\<rparr>" using assms by (simp add: early_worker_def x0_def)
  obtain fin xs where "log_inv fmt fin xs x0" by (rule log_run_inv [OF _ x0_def]) simp
  then have cache: "cache_ok fmt (eng x0)" by (simp add: log_inv_def eng_inv_def log_out_def)
  let ?e1 = "write_batch fmt ?t [?entry] (eng x0)"
  obtain ws where "cache_ok fmt ?e1" and b1: "books ?e1 = books ((eng x0)\<lparr>inflight_count := inflight_count (eng x0) - of_nat (length [?entry]),
      consumed := consumed (eng x0) + of_nat (length [?entry])\<rparr>)"
    using write_batch_eq [OF cache, of ?t "[?entry]"] by blast
  then have "only_output fmt ?e1 (flush_turn sample_turn (EmitDropSummaryIfNeeded fmt False sample_turn ?e1))"
    by (intro only_output_trans [OF Emit_output flush_output])
  with b1 x0 show "pushed x = [make_entry 112 sample_log]" "producers x = [PCount, PIdle]" "worker (eng x) = LoopTop" "dropped (eng x) = 0"
    "accepting_logs (eng x)" "min_level (eng x) = kInfo" "queue_capacity_soft (eng x) = 2 ^ 16" "consumed (eng x) = 1"
    by (simp_all add: x WorkerLoop_step_def only_output_def books_def of_nat_Suc)
qed

section \<open>What the logger promises\<close>

text \<open>
  C30: under every interleaving the worker writes the entries in the order in which they were pushed,
  each exactly once. The writes fall into two kinds: those of entries, which put together are the lines
  of the first \<open>consumed\<close> entries that were pushed, and notices of the logger itself. It does not matter where
  the file is changed, fails to open or takes only a part of the bytes.
\<close>

theorem logger_writes_in_order:
  assumes "length es < 2 ^ 62" and "x = fold (log_exec fmt) es (log_init n)"
  shows "unat (consumed (eng x)) \<le> length (pushed x)
    \<and> (\<exists>tagged. written (eng x) = map fst tagged \<and> (\<forall>(w, of_entry) \<in> set tagged. of_entry \<or> is_notice fmt w)
       \<and> concat (map (snd \<circ> fst) (filter snd tagged)) = concat (map (log_line fmt) (take (unat (consumed (eng x))) (pushed x))))"
proof -
  obtain fin xs where inv: "log_inv fmt fin xs x" and l: "length (pushed x) \<le> length es" using log_run_inv [OF assms] .
  have "length (pushed x) < 2 ^ 62" using l assms(1) by simp
  note fin = log_inv_fin [OF inv this]
  have "log_out fmt fin (eng x)" using inv unfolding log_inv_def eng_inv_def by blast
  then show ?thesis using fin unfolding log_out_def by simp
qed

theorem logger_writes_in_order_witness:
  "let x = fold (log_exec (\<lambda>_. None)) early_worker (log_init 2) in
   pushed x = [make_entry 112 sample_log] \<and> unat (consumed (eng x)) \<le> 1
   \<and> (\<exists>tagged. written (eng x) = map fst tagged \<and> (\<forall>(w, of_entry) \<in> set tagged. of_entry \<or> is_notice (\<lambda>_. None) w)
       \<and> concat (map (snd \<circ> fst) (filter snd tagged))
         = concat (map (log_line (\<lambda>_. None)) (take (unat (consumed (eng x))) [make_entry 112 sample_log])))"
proof -
  let ?x = "fold (log_exec (\<lambda>_. None)) early_worker (log_init 2)"
  have l: "length early_worker < 2 ^ 62" by (simp add: early_worker_def)
  show ?thesis
    using logger_writes_in_order [OF l, of ?x "\<lambda>_. None" 2] early_worker_state(1) [of ?x "\<lambda>_. None"] by (simp add: Let_def)
qed

text \<open>
  C32: the statistics balance at every moment. Each call was filtered, dropped or entered into the
  queue, or came too late, or is still under way; the in-flight counter is what was counted in minus what
  was counted out, modulo \<open>2\<^sup>6\<^sup>4\<close>; and when no call is under way everything pushed is counted.
\<close>

theorem logger_accounts:
  assumes "length es < 2 ^ 62" and "x = fold (log_exec fmt) es (log_init n)"
  shows "(let s = GetRuntimeStats (eng x); busy = length (filter (\<lambda>p. p \<noteq> PIdle) (producers x)) in
      rs_submit_calls s = rs_filtered_by_level s + rs_dropped s + rs_enqueued s + late_calls x + of_nat busy
      \<and> inflight_count (eng x) = rs_enqueued s - rs_consumed s
      \<and> (busy = 0 \<longrightarrow> unat (rs_enqueued s) = length (pushed x)))"
proof -
  obtain fin xs where inv: "log_inv fmt fin xs x" and l: "length (pushed x) \<le> length es" using log_run_inv [OF assms] .
  have busy: "length (filter (\<lambda>p. p \<noteq> PIdle) ps) = length (filter ((=) PCount) ps) + length (filter pushing ps)" for ps
  proof (induction ps)
    case (Cons p ps)
    then show ?case by (cases p) auto
  qed simp
  have books: "log_books x" "inflight_count (eng x) = enqueued (eng x) - consumed (eng x)"
    using inv unfolding log_inv_def eng_inv_def by blast+
  have "unat (enqueued (eng x)) = length (pushed x)" if "at ((=) PCount) x = 0"
    using books(1) that l assms(1) by (simp add: log_books_def unat_of_nat)
  then show ?thesis using books by (simp add: log_books_def GetRuntimeStats_def Let_def busy at_def)
qed

theorem logger_accounts_witness:
  "let e = eng (fold (log_exec (\<lambda>_. None)) early_worker (log_init 2)) in
   inflight_count e = rs_enqueued (GetRuntimeStats e) - rs_consumed (GetRuntimeStats e)"
  using logger_accounts [of early_worker _ "\<lambda>_. None" 2, OF _ refl] by (simp add: Let_def early_worker_def)



text \<open>
  The logger drops entries while its queue is empty. The worker may take an entry before the
  producer has counted it; the unsigned in-flight counter is then \<open>2\<^sup>6\<^sup>4 - 1\<close> for a moment, which is above
  every soft limit, and a call in that moment is dropped.
\<close>

lemma logger_drops_while_empty:
  "\<exists>es c. let x = fold (log_exec fmt) es (log_init 2); y = log_exec fmt (LCall 1 c) x in
     accepting_logs (eng x) \<and> Empty (lg_queue (eng x)) \<and> hand (worker (eng x)) = [] \<and> length (pushed x) = 1
     \<and> dropped (eng x) = 0 \<and> dropped (eng y) = 1"
proof -
  define x where "x = fold (log_exec fmt) early_worker (log_init 2)"
  note s = early_worker_state [OF x_def]
  have small: "length early_worker < 2 ^ 62" by (simp add: early_worker_def)
  obtain fin xs where inv: "log_inv fmt fin xs x" and "length (pushed x) \<le> length early_worker"
    by (rule log_run_inv [OF small x_def])
  have "length (pushed x) < 2 ^ 62" by (simp add: s(1))
  note fin = log_inv_fin [OF inv this]
  have "xs = []" "length fin = 1" using fin(1,3) by (simp_all add: s(1,8))
  then have empty: "Empty (lg_queue (eng x))" using inv Empty_queue unfolding log_inv_def eng_inv_def by blast
  have "enqueued (eng x) + 1 = 1"
    using inv unfolding log_inv_def log_books_def by (simp add: at_def s(1,2))
  then have inflight: "inflight_count (eng x) = - 1" using inv s(8) by (simp add: log_inv_def eng_inv_def)
  have big: "queue_capacity_soft (eng x) \<le> unat (inflight_count (eng x))"
    unfolding inflight s(7) by (simp add: unsigned_minus_1_eq_mask mask_eq_exp_minus_1)
  have soft: "queue_capacity_soft (eng x) < kRingCapacity" unfolding s(7) by (simp add: kRingCapacity_def)
  have level: "lc_level sample_log = kInfo" by (simp add: sample_log_def)
  have "Submit_checks sample_log (eng x) = (None, count_dropped ((eng x)\<lparr>submit_calls := submit_calls (eng x) + 1\<rparr>))"
    unfolding Submit_checks_def using s(5,6) big soft level by simp
  then have "dropped (eng (log_exec fmt (LCall 1 sample_log) x)) = 1"
    using s(2,4) level by (simp add: begin_log_def SubmitAsyncLog_checks_def count_dropped_def)
  with empty show ?thesis
    using s(1,3-5) by (intro exI [of _ early_worker] exI [of _ sample_log]) (simp add: x_def [symmetric])
qed

end
