(* ===== verification/Task_Co.thy ===== *)
theory Task_Co
  imports Rpc_Prelude
begin

text \<open>
  The coroutine type: \<open>coroutine/task.h\<close>. The promise of a coroutine keeps its result until the final
  suspension point, where it is published in a shared future; after that the coroutine that waits for it
  is resumed. A \<open>Task\<close> owns the frame of its coroutine.

  Exceptions are strings, handles are numbers. An operation may return, block for ever in this state of affairs,
  or have no defined meaning (a frame that has been destroyed, a missing result).
\<close>

datatype 'b outcome = Returns 'b | Blocks | Undefined

type_synonym coroutine_handle = nat

section \<open>The promise\<close>

record 'a promise_type =
  completion_future :: "(string + 'a) option"
  continuation :: "coroutine_handle option"
  result_value :: "'a option"
  unhandled_error :: "string option"
  completion_set :: bool

definition promise_type_make :: "'a promise_type" where
  "promise_type_make =
     \<lparr>completion_future = None, continuation = None, result_value = None, unhandled_error = None, completion_set = False\<rparr>"

definition return_value :: "'a \<Rightarrow> 'a promise_type \<Rightarrow> 'a promise_type" where
  "return_value v p = p\<lparr>result_value := Some v\<rparr>"

definition return_void :: "unit promise_type \<Rightarrow> unit promise_type" where
  "return_void p = p"

definition unhandled_exception :: "string \<Rightarrow> 'a promise_type \<Rightarrow> 'a promise_type" where
  "unhandled_exception ex p = p\<lparr>unhandled_error := Some ex\<rparr>"

definition PublishCompletion :: "'a promise_type \<Rightarrow> 'a promise_type outcome" where
  "PublishCompletion p =
     (if completion_set p then Returns p
      else let p1 = p\<lparr>completion_set := True\<rparr> in
        case unhandled_error p of
          Some ex \<Rightarrow> Returns (p1\<lparr>completion_future := Some (Inl ex)\<rparr>)
        | None \<Rightarrow>
            (case result_value p of
               Some v \<Rightarrow> Returns (p1\<lparr>completion_future := Some (Inr v)\<rparr>)
             | None \<Rightarrow> Undefined))"

text \<open>The specialisation for \<open>void\<close> has no stored result.\<close>

definition PublishCompletion_void :: "unit promise_type \<Rightarrow> unit promise_type" where
  "PublishCompletion_void p =
     (if completion_set p then p
      else let p1 = p\<lparr>completion_set := True\<rparr> in
        case unhandled_error p of
          Some ex \<Rightarrow> p1\<lparr>completion_future := Some (Inl ex)\<rparr>
        | None \<Rightarrow> p1\<lparr>completion_future := Some (Inr ())\<rparr>)"

text \<open>\<open>FinalAwaiter::await_suspend\<close>: the coroutine to go on with, \<^const>\<open>None\<close> for \<open>noop_coroutine\<close>.\<close>

definition final_await_suspend :: "'a promise_type \<Rightarrow> (coroutine_handle option \<times> 'a promise_type) outcome" where
  "final_await_suspend p =
     (case PublishCompletion p of Returns p1 \<Rightarrow> Returns (continuation p1, p1) | Blocks \<Rightarrow> Blocks | Undefined \<Rightarrow> Undefined)"

section \<open>Waiting for a task\<close>

definition task_ready :: "'a promise_type \<Rightarrow> bool" where
  "task_ready p \<longleftrightarrow> completion_future p \<noteq> None"

definition await_ready :: "'a promise_type \<Rightarrow> bool" where
  "await_ready p = task_ready p"

text \<open>\<open>Awaiter::await_suspend\<close> in its two accesses; the result says whether the caller stays suspended.\<close>

definition await_suspend_set :: "coroutine_handle \<Rightarrow> 'a promise_type \<Rightarrow> 'a promise_type" where
  "await_suspend_set awaiting p = p\<lparr>continuation := Some awaiting\<rparr>"

definition await_suspend_check :: "'a promise_type \<Rightarrow> bool" where
  "await_suspend_check p \<longleftrightarrow> \<not> task_ready p"

definition await_resume :: "'a promise_type \<Rightarrow> (string + 'a) outcome" where
  "await_resume p = (case completion_future p of Some r \<Rightarrow> Returns r | None \<Rightarrow> Blocks)"

section \<open>The task object\<close>

text \<open>Frames that are alive, by handle; a \<open>Task\<close> is its handle.\<close>

type_synonym 'a frames = "coroutine_handle \<Rightarrow> 'a promise_type option"
type_synonym Task = "coroutine_handle option"

definition Get :: "Task \<Rightarrow> 'a frames \<Rightarrow> (string + 'a) outcome" where
  "Get t fs = (case Option.bind t fs of Some p \<Rightarrow> await_resume p | None \<Rightarrow> Undefined)"

definition IsReady :: "Task \<Rightarrow> 'a frames \<Rightarrow> bool outcome" where
  "IsReady t fs =
     (case t of
        None \<Rightarrow> Returns True
      | Some h \<Rightarrow> (case fs h of Some p \<Rightarrow> Returns (task_ready p) | None \<Rightarrow> Undefined))"

definition Reset :: "Task \<Rightarrow> 'a frames \<Rightarrow> (Task \<times> 'a frames) outcome" where
  "Reset t fs =
     (case t of
        None \<Rightarrow> Returns (None, fs)
      | Some h \<Rightarrow>
          (case fs h of
             None \<Rightarrow> Undefined
           | Some p \<Rightarrow> if task_ready p then Returns (None, fs(h := None)) else Blocks))"

definition Task_move :: "Task \<Rightarrow> Task \<times> Task" where
  "Task_move other = (other, None)"

text \<open>\<open>operator=\<close>: the receiver, the source, and whether they are the same object.\<close>

definition Task_move_assign :: "bool \<Rightarrow> Task \<Rightarrow> Task \<Rightarrow> 'a frames \<Rightarrow> (Task \<times> Task \<times> 'a frames) outcome" where
  "Task_move_assign same t other fs =
     (if same then Returns (t, t, fs)
      else case Reset t fs of
             Returns (_, fs1) \<Rightarrow> Returns (other, None, fs1)
           | Blocks \<Rightarrow> Blocks
           | Undefined \<Rightarrow> Undefined)"

definition Task_destroy :: "Task \<Rightarrow> 'a frames \<Rightarrow> 'a frames outcome" where
  "Task_destroy t fs = (case Reset t fs of Returns (_, fs1) \<Rightarrow> Returns fs1 | Blocks \<Rightarrow> Blocks | Undefined \<Rightarrow> Undefined)"

definition SyncWait :: "Task \<Rightarrow> 'a frames \<Rightarrow> ((string + 'a) \<times> 'a frames) outcome" where
  "SyncWait t fs =
     (case Get t fs of
        Returns r \<Rightarrow> (case Task_destroy t fs of Returns fs1 \<Rightarrow> Returns (r, fs1) | Blocks \<Rightarrow> Blocks | Undefined \<Rightarrow> Undefined)
      | Blocks \<Rightarrow> Blocks
      | Undefined \<Rightarrow> Undefined)"

section \<open>A coroutine and the one that waits for it, on two threads\<close>

text \<open>
  One thread brings the coroutine to its end: the body leaves its result in the promise, the final
  awaiter publishes it and then reads the continuation. The other one awaits it from a coroutine, access by access, or
  waits in \<open>SyncWait\<close> and destroys the frame. \<open>resumed\<close> counts how often the waiting coroutine goes on
  after its \<open>co_await\<close>, \<open>results\<close> lists what it or \<open>Get\<close> obtains, \<open>undefined_access\<close> says that a destroyed frame was accessed.
\<close>

datatype comp_pc = CBody | CPublish | CRead | CDone
datatype wait_pc = AwReady | AwSet | AwCheck | AwSuspended | SwGet | SwReset | WDone

record 'a await_sys =
  frame :: "'a promise_type option"
  comp_at :: comp_pc
  wait_at :: wait_pc
  resumed :: nat
  results :: "(string + 'a) list"
  undefined_access :: bool

definition await_init :: "wait_pc \<Rightarrow> 'a await_sys" where
  "await_init w = \<lparr>frame = Some promise_type_make, comp_at = CBody, wait_at = w, resumed = 0, results = [], undefined_access = False\<rparr>"

definition finish_body :: "string + 'a \<Rightarrow> 'a promise_type \<Rightarrow> 'a promise_type" where
  "finish_body r p = (case r of Inl ex \<Rightarrow> unhandled_exception ex p | Inr v \<Rightarrow> return_value v p)"

text \<open>The waiting coroutine goes on: it takes the result.\<close>

definition go_on :: "'a promise_type \<Rightarrow> 'a await_sys \<Rightarrow> 'a await_sys" where
  "go_on p x = x\<lparr>resumed := Suc (resumed x), results := results x @ (case await_resume p of Returns r \<Rightarrow> [r] | _ \<Rightarrow> [])\<rparr>"

definition comp_step :: "string + 'a \<Rightarrow> 'a await_sys \<Rightarrow> 'a await_sys" where
  "comp_step r x =
     (case comp_at x of
        CDone \<Rightarrow> x
      | at \<Rightarrow>
          (case frame x of
             None \<Rightarrow> x\<lparr>undefined_access := True, comp_at := CDone\<rparr>
           | Some p \<Rightarrow>
               (case at of
                  CBody \<Rightarrow> x\<lparr>frame := Some (finish_body r p), comp_at := CPublish\<rparr>
                | CPublish \<Rightarrow>
                    (case PublishCompletion p of
                       Returns p1 \<Rightarrow> x\<lparr>frame := Some p1, comp_at := CRead\<rparr>
                     | _ \<Rightarrow> x\<lparr>undefined_access := True, comp_at := CDone\<rparr>)
                | _ \<Rightarrow> (case continuation p of
                         Some h \<Rightarrow> go_on p (x\<lparr>comp_at := CDone\<rparr>)
                       | None \<Rightarrow> x\<lparr>comp_at := CDone\<rparr>))))"

definition wait_step :: "coroutine_handle \<Rightarrow> 'a await_sys \<Rightarrow> 'a await_sys" where
  "wait_step me x =
     (case frame x of
        None \<Rightarrow> x
      | Some p \<Rightarrow>
          (case wait_at x of
             AwReady \<Rightarrow> if await_ready p then go_on p (x\<lparr>wait_at := WDone\<rparr>) else x\<lparr>wait_at := AwSet\<rparr>
           | AwSet \<Rightarrow> x\<lparr>frame := Some (await_suspend_set me p), wait_at := AwCheck\<rparr>
           | AwCheck \<Rightarrow> if await_suspend_check p then x\<lparr>wait_at := AwSuspended\<rparr> else go_on p (x\<lparr>wait_at := WDone\<rparr>)
           | SwGet \<Rightarrow> (case await_resume p of Returns r \<Rightarrow> x\<lparr>results := results x @ [r], wait_at := SwReset\<rparr> | _ \<Rightarrow> x)
           | SwReset \<Rightarrow> if task_ready p then x\<lparr>frame := None, wait_at := WDone\<rparr> else x
           | _ \<Rightarrow> x))"

datatype await_event = Completer | Waiter

fun await_exec :: "string + 'a \<Rightarrow> coroutine_handle \<Rightarrow> await_event \<Rightarrow> 'a await_sys \<Rightarrow> 'a await_sys" where
  "await_exec r me Completer x = comp_step r x"
| "await_exec r me Waiter x = wait_step me x"

section \<open>What a task promises\<close>

lemmas await_defs = finish_body_def return_value_def unhandled_exception_def PublishCompletion_def final_await_suspend_def
  task_ready_def await_ready_def await_suspend_set_def await_suspend_check_def await_resume_def

text \<open>
  A task delivers what its body returned or threw. Until the final suspension point nobody
  sees a result: the task is not ready, and waiting for it or destroying it blocks. There the
  result is published and the registered continuation is the coroutine to go on with; from then on every way of
  asking gives this result, as often as one asks, and only destroying the task releases the frame.
\<close>

lemma task_result_delivered:
  "let p = (finish_body r promise_type_make)\<lparr>continuation := c\<rparr> in
     IsReady (Some h) (fs(h \<mapsto> p)) = Returns False \<and> Get (Some h) (fs(h \<mapsto> p)) = Blocks \<and> Task_destroy (Some h) (fs(h \<mapsto> p)) = Blocks
     \<and> (\<exists>p1. final_await_suspend p = Returns (c, p1) \<and> PublishCompletion p1 = Returns p1
          \<and> await_ready p1 \<and> \<not> await_suspend_check (await_suspend_set me p1) \<and> await_resume p1 = Returns r
          \<and> IsReady (Some h) (fs(h \<mapsto> p1)) = Returns True \<and> Get (Some h) (fs(h \<mapsto> p1)) = Returns r
          \<and> SyncWait (Some h) (fs(h \<mapsto> p1)) = Returns (r, fs(h := None)))"
  by (cases r)
    (simp_all add: await_defs promise_type_make_def IsReady_def Get_def SyncWait_def Task_destroy_def Reset_def Let_def)

lemma task_void_result: "completion_future (PublishCompletion_void (return_void promise_type_make)) = Some (Inr ())"
  by (simp add: PublishCompletion_void_def return_void_def promise_type_make_def Let_def)

text \<open>A moved-from task is empty: destroying it does nothing, and the frame is destroyed once.\<close>

lemma moved_task_owns_frame:
  assumes "fs h = Some p" and "task_ready p" and "Task_move (Some h) = (t, old)"
  shows "Task_destroy old fs = Returns fs \<and> Task_destroy t fs = Returns (fs(h := None))"
  using assms by (auto simp: Task_move_def Task_destroy_def Reset_def)

section \<open>Two threads\<close>

definition published :: "comp_pc \<Rightarrow> bool" where
  "published at \<longleftrightarrow> at = CRead \<or> at = CDone"

text \<open>The promise as the two sides have left it.\<close>

definition frame_ok :: "string + 'a \<Rightarrow> 'a await_sys \<Rightarrow> bool" where
  "frame_ok r x \<longleftrightarrow>
     (\<exists>p. frame x = Some p \<and> completion_set p = published (comp_at x)
        \<and> completion_future p = (if published (comp_at x) then Some r else None)
        \<and> (comp_at x = CPublish \<longrightarrow> (case r of Inl ex \<Rightarrow> unhandled_error p = Some ex
                                            | Inr v \<Rightarrow> unhandled_error p = None \<and> result_value p = Some v))
        \<and> (comp_at x = CBody \<longrightarrow> unhandled_error p = None)
        \<and> (wait_at x = AwReady \<or> wait_at x = AwSet \<longrightarrow> continuation p = None)
        \<and> (wait_at x = AwCheck \<or> wait_at x = AwSuspended \<longrightarrow> continuation p \<noteq> None))"

definition await_inv :: "string + 'a \<Rightarrow> 'a await_sys \<Rightarrow> bool" where
  "await_inv r x \<longleftrightarrow>
     frame_ok r x \<and> \<not> undefined_access x \<and> wait_at x \<in> {AwReady, AwSet, AwCheck, AwSuspended, WDone}
     \<and> results x = replicate (resumed x) r
     \<and> (wait_at x = AwReady \<or> wait_at x = AwSet \<longrightarrow> resumed x = 0)
     \<and> (wait_at x = AwSuspended \<longrightarrow> resumed x = of_bool (comp_at x = CDone))
     \<and> (wait_at x = AwCheck \<longrightarrow> resumed x \<le> of_bool (comp_at x = CDone))
     \<and> (wait_at x = WDone \<longrightarrow> published (comp_at x) \<and> 1 \<le> resumed x \<and> resumed x \<le> 1 + of_bool (comp_at x = CDone))"

lemma await_init_inv: "await_inv r (await_init AwReady)"
  by (simp add: await_inv_def frame_ok_def await_init_def promise_type_make_def published_def)

lemma await_inv_frame: "await_inv r x \<Longrightarrow> \<exists>p. frame x = Some p"
  unfolding await_inv_def frame_ok_def by blast

lemma comp_step_inv:
  assumes inv: "await_inv r x"
  shows "await_inv r (comp_step r x)"
proof -
  obtain p where p: "frame x = Some p" using await_inv_frame [OF inv] by blast
  show ?thesis
  proof (cases "comp_at x")
    case CBody
    then have step: "comp_step r x = x\<lparr>frame := Some (finish_body r p), comp_at := CPublish\<rparr>" using p by (simp add: comp_step_def)
    show ?thesis unfolding step using inv p CBody
      by (cases r; cases "wait_at x"; simp add: await_inv_def frame_ok_def published_def await_defs)
  next
    case CPublish
    have "PublishCompletion p = Returns (p\<lparr>completion_set := True, completion_future := Some r\<rparr>)"
      using inv p CPublish by (cases r; simp add: await_inv_def frame_ok_def published_def PublishCompletion_def)
    then have step: "comp_step r x = x\<lparr>frame := Some (p\<lparr>completion_set := True, completion_future := Some r\<rparr>), comp_at := CRead\<rparr>"
      using p CPublish by (simp add: comp_step_def)
    show ?thesis unfolding step using inv p CPublish
      by (cases "wait_at x"; simp add: await_inv_def frame_ok_def published_def)
  next
    case CRead
    have r: "await_resume p = Returns r" using inv p CRead by (simp add: await_inv_def frame_ok_def published_def await_resume_def)
    show ?thesis
    proof (cases "continuation p")
      case None
      then have step: "comp_step r x = x\<lparr>comp_at := CDone\<rparr>" using p CRead by (simp add: comp_step_def)
      show ?thesis unfolding step using inv p CRead None
        by (cases "wait_at x"; simp add: await_inv_def frame_ok_def published_def)
    next
      case (Some h)
      then have step: "comp_step r x = x\<lparr>comp_at := CDone, resumed := Suc (resumed x), results := results x @ [r]\<rparr>"
        using p CRead r by (simp add: comp_step_def go_on_def)
      show ?thesis unfolding step using inv p CRead Some
        by (cases "wait_at x"; simp add: await_inv_def frame_ok_def published_def replicate_append_same)
    qed
  next
    case CDone
    with inv show ?thesis by (simp add: comp_step_def)
  qed
qed

lemma wait_step_inv:
  assumes inv: "await_inv r x"
  shows "await_inv r (wait_step me x)"
proof -
  obtain p where p: "frame x = Some p" using await_inv_frame [OF inv] by blast
  have ready: "task_ready p = published (comp_at x)" "published (comp_at x) \<Longrightarrow> await_resume p = Returns r"
    using inv p by (simp_all add: await_inv_def frame_ok_def task_ready_def await_resume_def)
  show ?thesis
  proof (cases "wait_at x = AwSet")
    case True
    then have step: "wait_step me x = x\<lparr>frame := Some (await_suspend_set me p), wait_at := AwCheck\<rparr>" using p by (simp add: wait_step_def)
    show ?thesis unfolding step using inv p True by (cases r) (simp_all add: await_inv_def frame_ok_def await_suspend_set_def)
  next
    case False
    have "wait_step me x = x \<or> (wait_at x = AwReady \<or> wait_at x = AwCheck) \<and>
        (wait_step me x = (if published (comp_at x) then x\<lparr>wait_at := WDone, resumed := Suc (resumed x), results := results x @ [r]\<rparr>
           else x\<lparr>wait_at := (if wait_at x = AwReady then AwSet else AwSuspended)\<rparr>))"
      using inv p ready False
      by (cases "wait_at x") (simp_all add: wait_step_def await_ready_def await_suspend_check_def go_on_def await_inv_def)
    then consider "wait_step me x = x" | "published (comp_at x)" "wait_at x = AwReady \<or> wait_at x = AwCheck"
        "wait_step me x = x\<lparr>wait_at := WDone, resumed := Suc (resumed x), results := results x @ [r]\<rparr>"
      | "\<not> published (comp_at x)" "wait_at x = AwReady" "wait_step me x = x\<lparr>wait_at := AwSet\<rparr>"
      | "\<not> published (comp_at x)" "wait_at x = AwCheck" "wait_step me x = x\<lparr>wait_at := AwSuspended\<rparr>"
      by (auto split: if_splits)
    then show ?thesis
    proof cases
      case 2
      then show ?thesis unfolding 2(3) using inv p
        by (elim disjE) (simp_all add: await_inv_def frame_ok_def replicate_append_same)
    next
      case 3
      then show ?thesis unfolding 3(3) using inv p by (simp add: await_inv_def frame_ok_def)
    next
      case 4
      then show ?thesis unfolding 4(3) using inv p by (simp add: await_inv_def frame_ok_def published_def)
    qed (use inv in simp)
  qed
qed

lemma await_run_inv: "await_inv r (fold (await_exec r me) es (await_init AwReady))"
proof (induction es rule: rev_induct)
  case Nil
  show ?case by (simp add: await_init_inv)
next
  case (snoc ev es)
  then show ?case by (cases ev) (simp_all add: comp_step_inv wait_step_inv)
qed

text \<open>
  C33: no wake-up is lost between two threads. Whatever the order of the accesses, a
  coroutine that stays suspended on a task is resumed exactly once when the task is complete, one
  that is not suspended goes on by itself, and it always gets the result of the task.
\<close>

theorem await_never_lost:
  "let x = fold (await_exec r me) es (await_init AwReady) in
     \<not> undefined_access x \<and> set (results x) \<subseteq> {r} \<and> length (results x) = resumed x
     \<and> (comp_at x = CDone \<and> wait_at x = AwSuspended \<longrightarrow> resumed x = 1)
     \<and> (wait_at x = WDone \<longrightarrow> 1 \<le> resumed x)"
  using await_run_inv [of r me es] by (auto simp: await_inv_def Let_def)

definition suspend_first :: "await_event list" where
  "suspend_first = [Waiter, Waiter, Waiter, Completer, Completer, Completer]"

lemma suspend_first_run:
  fixes x :: "int await_sys"
  assumes "x = fold (await_exec (Inr 7) 3) suspend_first (await_init AwReady)"
  shows "comp_at x = CDone" "wait_at x = AwSuspended"
  unfolding assms suspend_first_def
  by (simp_all add: await_init_def promise_type_make_def comp_step_def wait_step_def await_defs go_on_def Let_def)

theorem await_never_lost_witness: "resumed (fold (await_exec (Inr (7::int)) 3) suspend_first (await_init AwReady)) = 1"
  using await_never_lost [of "Inr (7::int)" 3 suspend_first] suspend_first_run [OF refl] by (simp add: Let_def)

text \<open>On one thread, where the await and the completion do not overlap, the coroutine goes on exactly once.\<close>

lemma await_once_without_overlap:
  fixes r :: "string + 'a" and me :: coroutine_handle
  defines "run es \<equiv> fold (await_exec r me) es (await_init AwReady)"
  shows "resumed (run [Waiter, Waiter, Waiter, Completer, Completer, Completer]) = 1"
    and "resumed (run [Completer, Completer, Completer, Waiter, Waiter, Waiter]) = 1"
  unfolding run_def
  by (cases r; simp add: await_init_def promise_type_make_def comp_step_def wait_step_def await_defs go_on_def Let_def)+


text \<open>
  And the frame can be used after it was destroyed. The result is published before the final
  awaiter reads the continuation; a thread in \<open>SyncWait\<close> may return in between and destroy
  the frame from which the continuation is then read.
\<close>

lemma frame_read_after_destroy:
  "let x = fold (await_exec r me) [Completer, Completer, Waiter, Waiter, Completer] (await_init SwGet) in
     results x = [r] \<and> frame x = None \<and> undefined_access x"
  by (cases r) (simp_all add: await_init_def promise_type_make_def comp_step_def wait_step_def await_defs go_on_def Let_def)

end
