(* ===== verification/Code_Graph.thy ===== *)
theory Code_Graph
  imports Service_Registry
begin

text \<open>
  The code graph service: \<open>codegraph/codegraph_rpc_service.{h,cpp}\<close>. A set of tools, each a method of the
  RPC service \<open>CodeGraph\<close>; the arguments and the answers are JSON texts, a back end computes the answers.

  The JSON library is not part of the sources. Its values are a datatype here, objects are maps;
  its parser and printer are arguments, which may fail with the text of an exception.
\<close>

section \<open>JSON values\<close>

datatype json =
    JNull
  | JBool bool
  | JInt int
  | JFloat string
  | JString string
  | JArray "json list"
  | JObject "string \<Rightarrow> json option"

datatype json_failure = ParseFailure string | RangeFailure string

fun what :: "json_failure \<Rightarrow> string" where
  "what (ParseFailure w) = w"
| "what (RangeFailure w) = w"

record json_lib =
  jparse :: "string \<Rightarrow> json_failure + json"
  jdump :: "nat option \<Rightarrow> json \<Rightarrow> string + string"

definition obj :: "(string \<times> json) list \<Rightarrow> json" where
  "obj kvs = JObject (map_of kvs)"

definition json_find :: "string \<Rightarrow> json \<Rightarrow> json option" where
  "json_find key j = (case j of JObject m \<Rightarrow> m key | _ \<Rightarrow> None)"

text \<open>\<open>j[key] = v\<close> on an object; null becomes an object. The code uses it on nothing else.\<close>

definition json_put :: "string \<Rightarrow> json \<Rightarrow> json \<Rightarrow> json" where
  "json_put key v j = (case j of JObject m \<Rightarrow> JObject (m(key \<mapsto> v)) | _ \<Rightarrow> JObject [key \<mapsto> v])"

definition is_object :: "json \<Rightarrow> bool" where
  "is_object j = (case j of JObject _ \<Rightarrow> True | _ \<Rightarrow> False)"

text \<open>\<open>get<int>()\<close> of an integer value is a cast to 32 bits.\<close>

definition get_int :: "int \<Rightarrow> int" where
  "get_int i = sint (word_of_int i :: u32)"

definition int_text :: "int \<Rightarrow> string" where
  "int_text i = (if i < 0 then ''-'' @ to_string (nat (- i)) else to_string (nat i))"

text \<open>Exceptions: those of the framework, and the others with their text.\<close>

datatype exn = RpcError RpcException | InvalidArgument string | OtherException string

section \<open>Arguments\<close>

definition rpc_error :: "ErrorCode \<Rightarrow> string \<Rightarrow> exn" where
  "rpc_error code message = RpcError (RpcException_make (\<lambda>_ _. []) (make_error_code code) message)"

definition ParseError :: "string \<Rightarrow> exn" where
  "ParseError message = rpc_error kParseError message"

definition RequiredString :: "json \<Rightarrow> string \<Rightarrow> string \<Rightarrow> exn + string" where
  "RequiredString args meth key =
     (let err = Inl (ParseError (''CodeGraph.'' @ meth @ '' requires non-empty string field '' @ [CHR 0x27] @ key @ [CHR 0x27])) in
      case json_find key args of
        Some (JString s) \<Rightarrow> if s = [] then err else Inr s
      | _ \<Rightarrow> err)"

definition field_error :: "string \<Rightarrow> string \<Rightarrow> string \<Rightarrow> exn" where
  "field_error meth key problem =
     ParseError (''CodeGraph.'' @ meth @ '' field '' @ [CHR 0x27] @ key @ [CHR 0x27] @ problem)"

definition OptionalInt :: "json \<Rightarrow> string \<Rightarrow> string \<Rightarrow> int \<Rightarrow> int \<Rightarrow> int \<Rightarrow> exn + int" where
  "OptionalInt args meth key default_value min_value max_value =
     (case json_find key args of
        None \<Rightarrow> Inr default_value
      | Some JNull \<Rightarrow> Inr default_value
      | Some (JInt i) \<Rightarrow>
          (let v = get_int i in
           if v < min_value \<or> v > max_value then Inl (field_error meth key '' is out of range'') else Inr v)
      | Some _ \<Rightarrow> Inl (field_error meth key '' must be an integer''))"

definition ParsePayload :: "json_lib \<Rightarrow> string \<Rightarrow> string \<Rightarrow> exn + json" where
  "ParsePayload L meth payload =
     (if payload = [] then Inr (JObject Map.empty)
      else case jparse L payload of
             Inl bad \<Rightarrow> Inl (ParseError (''CodeGraph.'' @ meth @ '' received invalid JSON payload: '' @ what bad))
           | Inr parsed \<Rightarrow>
               if is_object parsed then Inr parsed
               else Inl (ParseError (''CodeGraph.'' @ meth @ '' payload must be a JSON object'')))"

section \<open>The tools\<close>

record ToolSpec =
  mcp_name :: string
  rpc_method :: string
  description :: string
  input_schema :: json

definition ObjectSchema :: "json \<Rightarrow> json list \<Rightarrow> json" where
  "ObjectSchema properties required =
     (let schema = json_put ''properties'' properties (json_put ''type'' (JString ''object'') JNull) in
      if required \<noteq> [] then json_put ''required'' (JArray required) schema else schema)"

definition StringProperty :: "string \<Rightarrow> json" where
  "StringProperty d = obj [(''type'', JString ''string''), (''description'', JString d)]"

definition IntegerProperty :: "string \<Rightarrow> int \<Rightarrow> json" where
  "IntegerProperty d default_value =
     obj [(''type'', JString ''integer''), (''description'', JString d), (''default'', JInt default_value)]"

definition symbol_property :: "string \<times> json" where
  "symbol_property = (''symbol'', StringProperty ''Symbol name'')"

definition CodeGraphToolSpecs :: "ToolSpec list" where
  "CodeGraphToolSpecs =
     [\<lparr>mcp_name = ''codegraph_search'', rpc_method = ''Search'',
       description = ''Search for code symbols by name and return matching symbols.'',
       input_schema = ObjectSchema (obj [(''query'', StringProperty ''Symbol name or search query''), (''limit'', IntegerProperty ''Max results'' 20)])
         [JString ''query'']\<rparr>,
      \<lparr>mcp_name = ''codegraph_context'', rpc_method = ''Context'',
       description = ''Get rich context for a symbol: definition, callers and callees.'',
       input_schema = ObjectSchema (obj [symbol_property, (''limit'', IntegerProperty ''Max results'' 10)]) [JString ''symbol'']\<rparr>,
      \<lparr>mcp_name = ''codegraph_callers'', rpc_method = ''Callers'', description = ''Find callers of a function or method.'',
       input_schema = ObjectSchema (obj [symbol_property, (''max_depth'', IntegerProperty ''Max traversal depth'' 3)]) [JString ''symbol'']\<rparr>,
      \<lparr>mcp_name = ''codegraph_callees'', rpc_method = ''Callees'', description = ''Find callees of a function or method.'',
       input_schema = ObjectSchema (obj [symbol_property, (''max_depth'', IntegerProperty ''Max traversal depth'' 3)]) [JString ''symbol'']\<rparr>,
      \<lparr>mcp_name = ''codegraph_impact'', rpc_method = ''Impact'', description = ''Analyze the impact radius of changing a symbol.'',
       input_schema = ObjectSchema (obj [symbol_property, (''max_depth'', IntegerProperty ''Max traversal depth'' 5)]) [JString ''symbol'']\<rparr>,
      \<lparr>mcp_name = ''codegraph_node'', rpc_method = ''Node'', description = ''Get details for a single symbol.'',
       input_schema = ObjectSchema (obj [symbol_property]) [JString ''symbol'']\<rparr>,
      \<lparr>mcp_name = ''codegraph_status'', rpc_method = ''Status'', description = ''Get CodeGraph service and index statistics.'',
       input_schema = ObjectSchema (obj []) []\<rparr>,
      \<lparr>mcp_name = ''codegraph_files'', rpc_method = ''Files'', description = ''List indexed files.'',
       input_schema = ObjectSchema (obj []) []\<rparr>]"

definition FindToolByMcpName :: "string \<Rightarrow> ToolSpec option" where
  "FindToolByMcpName name = find (\<lambda>spec. mcp_name spec = name) CodeGraphToolSpecs"

definition FindToolByRpcMethod :: "string \<Rightarrow> ToolSpec option" where
  "FindToolByRpcMethod meth = find (\<lambda>spec. rpc_method spec = meth) CodeGraphToolSpecs"

section \<open>The back end without an index\<close>

type_synonym backend = "string \<Rightarrow> json \<Rightarrow> exn + json"

definition EmptyBackendEnvelope :: "string \<Rightarrow> json \<Rightarrow> json" where
  "EmptyBackendEnvelope meth args =
     obj [(''backend'', JString ''empty''), (''method'', JString meth), (''args'', args),
          (''warning'', JString ''CodeGraph backend is not configured yet; transport and MCP adapter are ready'')]"

definition EmptyNodeResult :: "string \<Rightarrow> json \<Rightarrow> json" where
  "EmptyNodeResult meth args = json_put ''edges'' (JArray []) (json_put ''nodes'' (JArray []) (EmptyBackendEnvelope meth args))"

text \<open>Sequencing of calls that may throw.\<close>

definition andThen :: "exn + 'a \<Rightarrow> ('a \<Rightarrow> exn + 'b) \<Rightarrow> exn + 'b" where
  "andThen m f = (case m of Inl e \<Rightarrow> Inl e | Inr x \<Rightarrow> f x)"

definition EmptyBackend_Invoke :: backend where
  "EmptyBackend_Invoke meth args =
     (if meth = ''Status'' then
        Inr (obj [(''service'', JString ''CodeGraph''), (''backend'', JString ''empty''), (''ready'', JBool True),
                  (''transport'', JString ''mini_rpc''),
                  (''tools'', JArray (map (\<lambda>spec. obj [(''mcp_name'', JString (mcp_name spec)),
                                                      (''rpc_method'', JString (''CodeGraph.'' @ rpc_method spec))]) CodeGraphToolSpecs)),
                  (''note'', JString ''MVP transport is live; attach a real CodeGraph backend next'')])
      else if meth = ''Search'' then
        andThen (RequiredString args meth ''query'') (\<lambda>query.
        andThen (OptionalInt args meth ''limit'' 20 1 200) (\<lambda>limit.
          Inr (json_put ''nodes'' (JArray []) (json_put ''limit'' (JInt limit)
            (json_put ''query'' (JString query) (EmptyBackendEnvelope meth args))))))
      else if meth = ''Context'' then
        andThen (RequiredString args meth ''symbol'') (\<lambda>symbol.
        andThen (OptionalInt args meth ''limit'' 10 1 200) (\<lambda>_.
          Inr (json_put ''edges'' (JArray []) (json_put ''callees'' (JArray []) (json_put ''callers'' (JArray [])
            (json_put ''symbol'' (JString symbol) (EmptyBackendEnvelope meth args)))))))
      else if meth = ''Callers'' \<or> meth = ''Callees'' \<or> meth = ''Impact'' then
        andThen (RequiredString args meth ''symbol'') (\<lambda>symbol.
        andThen (OptionalInt args meth ''max_depth'' (if meth = ''Impact'' then 5 else 3) 1 20) (\<lambda>_.
          Inr (json_put ''symbol'' (JString symbol) (EmptyNodeResult meth args))))
      else if meth = ''Node'' then
        andThen (RequiredString args meth ''symbol'') (\<lambda>symbol.
          Inr (json_put ''node'' JNull (json_put ''symbol'' (JString symbol) (EmptyBackendEnvelope meth args))))
      else if meth = ''Files'' then
        Inr (json_put ''files'' (JArray []) (EmptyBackendEnvelope meth args))
      else Inl (rpc_error kMethodNotFound (''unknown CodeGraph method: '' @ meth)))"

section \<open>The handlers\<close>

definition thrown :: "exn \<Rightarrow> handler_outcome" where
  "thrown e = (case e of RpcError x \<Rightarrow> ThrowsRpcError x | InvalidArgument w \<Rightarrow> ThrowsStdException w | OtherException w \<Rightarrow> ThrowsStdException w)"

definition HandleRpcCall :: "json_lib \<Rightarrow> backend \<Rightarrow> string \<Rightarrow> Handler" where
  "HandleRpcCall L invoke meth payload =
     (case andThen (ParsePayload L meth payload) (invoke meth) of
        Inl e \<Rightarrow> thrown e
      | Inr result \<Rightarrow> (case jdump L (Some 2) result of Inl problem \<Rightarrow> ThrowsStdException problem | Inr reply \<Rightarrow> Returns reply))"

definition RegisterCodeGraphService :: "json_lib \<Rightarrow> backend \<Rightarrow> ServiceRegistry \<Rightarrow> bool \<times> ServiceRegistry" where
  "RegisterCodeGraphService L invoke reg =
     fold (\<lambda>spec (ok, r). case Register ''CodeGraph'' (rpc_method spec) (Some (HandleRpcCall L invoke (rpc_method spec))) r of
                            (b, r1) \<Rightarrow> (b \<and> ok, r1))
       CodeGraphToolSpecs (True, reg)"

section \<open>Facts\<close>

lemma json_find_obj [simp]: "json_find key (obj kvs) = map_of kvs key"
  by (simp add: json_find_def obj_def)

lemma is_object_obj [simp]: "is_object (obj kvs)"
  by (simp add: is_object_def obj_def)

text \<open>An integer argument is the default or lies between its bounds.\<close>

lemma OptionalInt_bounds:
  "OptionalInt args meth key d lo hi = Inr v \<Longrightarrow> v = d \<or> lo \<le> v \<and> v \<le> hi"
  by (auto simp: OptionalInt_def Let_def split: option.splits json.splits if_splits)

lemma get_int_small: "- (2 ^ 31) \<le> i \<Longrightarrow> i < 2 ^ 31 \<Longrightarrow> get_int i = i"
  by (simp add: get_int_def sint_sbintrunc' signed_take_bit_int_eq_self)

text \<open>Within 32 bits the range check is exact.\<close>

lemma OptionalInt_exact:
  assumes "json_find key args = Some (JInt i)" and "- (2 ^ 31) \<le> i" and "i < 2 ^ 31"
  shows "(\<exists>v. OptionalInt args meth key d lo hi = Inr v) \<longleftrightarrow> lo \<le> i \<and> i \<le> hi"
  using assms get_int_small [OF assms(2,3)] by (auto simp: OptionalInt_def Let_def not_less)

text \<open>
  The range check of an integer argument is done after the conversion to 32 bits, so a value
  far outside the range is accepted, as another number.
\<close>

lemma OptionalInt_wraps:
  assumes "lo \<le> v" and "v \<le> hi" and "- (2 ^ 31) \<le> v" and "v < 2 ^ 31" and "json_find key args = Some (JInt (2 ^ 32 * k + v))"
  shows "OptionalInt args meth key d lo hi = Inr v"
proof -
  have "(word_of_int (2 ^ 32 * k + v) :: u32) = word_of_int v"
    by (transfer; simp add: take_bit_eq_mod)
  then have "get_int (2 ^ 32 * k + v) = v" using get_int_small [OF assms(3,4)] by (simp add: get_int_def)
  with assms(1,2,5) show ?thesis by (simp add: OptionalInt_def Let_def)
qed

subsection \<open>Registration\<close>

lemma tool_names: "distinct (map rpc_method CodeGraphToolSpecs)" "distinct (map mcp_name CodeGraphToolSpecs)"
  "[] \<notin> set (map rpc_method CodeGraphToolSpecs)" "[] \<notin> set (map mcp_name CodeGraphToolSpecs)"
  by (simp_all add: CodeGraphToolSpecs_def)

lemma find_by_key:
  "distinct (map f xs) \<Longrightarrow> x \<in> set xs \<Longrightarrow> find (\<lambda>y. f y = f x) xs = Some x"
  by (induction xs) auto

lemma FindToolByMcpName_spec: "spec \<in> set CodeGraphToolSpecs \<Longrightarrow> FindToolByMcpName (mcp_name spec) = Some spec"
  unfolding FindToolByMcpName_def by (rule find_by_key [OF tool_names(2)])

lemma FindToolByRpcMethod_spec: "spec \<in> set CodeGraphToolSpecs \<Longrightarrow> FindToolByRpcMethod (rpc_method spec) = Some spec"
  unfolding FindToolByRpcMethod_def by (rule find_by_key [OF tool_names(1)])

text \<open>Registering a list of methods of one service under different names.\<close>

lemma register_methods:
  assumes "distinct (map f specs)" and "[] \<notin> set (map f specs)" and "s \<noteq> []" and "CHR ''.'' \<notin> set s"
    and "\<forall>spec \<in> set specs. Find s (f spec) reg = None"
  shows "\<exists>reg'. fold (\<lambda>spec (ok, r). case Register s (f spec) (Some (h spec)) r of (b, r1) \<Rightarrow> (b \<and> ok, r1)) specs (ok, reg) = (ok, reg')
    \<and> (\<forall>spec \<in> set specs. Find s (f spec) reg' = Some (h spec))
    \<and> (\<forall>m. m \<notin> set (map f specs) \<longrightarrow> Find s m reg' = Find s m reg)"
  using assms(1,2,5)
proof (induction specs arbitrary: reg)
  case (Cons spec specs)
  obtain b reg1 where reg1: "Register s (f spec) (Some (h spec)) reg = (b, reg1)" by fastforce
  have b: "b" using fst_Register_iff [of s "f spec" "Some (h spec)" reg] reg1 Cons.prems assms(3) by auto
  have here: "Find s (f spec) reg1 = Some (h spec)" using registry.register_finds [of s "f spec" "Some (h spec)" reg reg1] reg1 b by simp
  have others: "Find s m reg1 = Find s m reg" if "m \<noteq> f spec" for m
    using registration_is_separate [of s s "f spec" m "Some (h spec)" reg] assms(4) reg1 that by auto
  have "\<forall>sp \<in> set specs. Find s (f sp) reg1 = None"
  proof
    fix sp assume "sp \<in> set specs"
    moreover from this Cons.prems(1) have "f sp \<noteq> f spec" by (metis distinct.simps(2) image_eqI list.map(2) list.set_map)
    ultimately show "Find s (f sp) reg1 = None" using Cons.prems(3) others by simp
  qed
  then obtain reg' where reg': "fold (\<lambda>spec (ok, r). case Register s (f spec) (Some (h spec)) r of (b, r1) \<Rightarrow> (b \<and> ok, r1)) specs (ok, reg1) = (ok, reg')"
      "\<forall>sp \<in> set specs. Find s (f sp) reg' = Some (h sp)" "\<forall>m. m \<notin> set (map f specs) \<longrightarrow> Find s m reg' = Find s m reg1"
    using Cons.IH [of reg1] Cons.prems(1,2) by auto
  have "Find s (f spec) reg' = Some (h spec)" using reg'(3) here Cons.prems(1) by simp
  with reg' reg1 b others show ?case by auto
qed simp

lemma codegraph_registered:
  assumes "\<forall>spec \<in> set CodeGraphToolSpecs. Find ''CodeGraph'' (rpc_method spec) reg = None"
  obtains reg' where "RegisterCodeGraphService L invoke reg = (True, reg')"
    and "\<forall>spec \<in> set CodeGraphToolSpecs. Find ''CodeGraph'' (rpc_method spec) reg' = Some (HandleRpcCall L invoke (rpc_method spec))"
  using register_methods [OF tool_names(1,3) _ _ assms, of "\<lambda>spec. HandleRpcCall L invoke (rpc_method spec)" True]
  unfolding RegisterCodeGraphService_def by auto

section \<open>The contract of a back end\<close>

text \<open>
  The tool table publishes a schema of the arguments of every method. Arguments conform to it if every
  property that it declares as a string is a non-empty string and every one that it declares as an integer is an integer, null or absent.
\<close>

definition string_field :: "string \<Rightarrow> json \<Rightarrow> bool" where
  "string_field key args \<longleftrightarrow> (\<exists>s. json_find key args = Some (JString s) \<and> s \<noteq> [])"

definition int_field :: "string \<Rightarrow> json \<Rightarrow> bool" where
  "int_field key args \<longleftrightarrow> (\<forall>v. json_find key args = Some v \<longrightarrow> v = JNull \<or> (\<exists>i. v = JInt i))"

definition conforms :: "json \<Rightarrow> json \<Rightarrow> bool" where
  "conforms schema args \<longleftrightarrow>
     (\<forall>props key p. json_find ''properties'' schema = Some props \<and> json_find key props = Some p \<longrightarrow>
        (json_find ''type'' p = Some (JString ''string'') \<longrightarrow> string_field key args)
        \<and> (json_find ''type'' p = Some (JString ''integer'') \<longrightarrow> int_field key args))"

definition schema_checked :: "string \<Rightarrow> json \<Rightarrow> bool" where
  "schema_checked meth args \<longleftrightarrow> (\<exists>spec \<in> set CodeGraphToolSpecs. rpc_method spec = meth \<and> conforms (input_schema spec) args)"

lemma RequiredString_field: "RequiredString args meth key = Inr s \<Longrightarrow> string_field key args"
  by (auto simp: RequiredString_def string_field_def Let_def split: option.splits json.splits if_splits)

lemma OptionalInt_field: "OptionalInt args meth key d lo hi = Inr v \<Longrightarrow> int_field key args"
  by (auto simp: OptionalInt_def int_field_def Let_def split: option.splits json.splits if_splits)

lemma andThen_Inr: "andThen m f = Inr y \<longleftrightarrow> (\<exists>x. m = Inr x \<and> f x = Inr y)"
  by (cases m) (simp_all add: andThen_def)

lemma conforms_ObjectSchema:
  "conforms (ObjectSchema (obj kvs) req) args \<longleftrightarrow>
     (\<forall>key p. map_of kvs key = Some p \<longrightarrow>
        (json_find ''type'' p = Some (JString ''string'') \<longrightarrow> string_field key args)
        \<and> (json_find ''type'' p = Some (JString ''integer'') \<longrightarrow> int_field key args))"
  by (cases req) (simp_all add: conforms_def ObjectSchema_def Let_def json_put_def obj_def json_find_def)

lemma property_types [simp]:
  "json_find ''type'' (StringProperty d) = Some (JString ''string'')"
  "json_find ''type'' (IntegerProperty d i) = Some (JString ''integer'')"
  by (simp_all add: StringProperty_def IntegerProperty_def)

text \<open>What the checks of a method have to cover.\<close>

lemma schema_checkedI:
  "string_field ''query'' args \<Longrightarrow> int_field ''limit'' args \<Longrightarrow> schema_checked ''Search'' args"
  "string_field ''symbol'' args \<Longrightarrow> int_field ''limit'' args \<Longrightarrow> schema_checked ''Context'' args"
  "string_field ''symbol'' args \<Longrightarrow> int_field ''max_depth'' args \<Longrightarrow> schema_checked ''Callers'' args"
  "string_field ''symbol'' args \<Longrightarrow> int_field ''max_depth'' args \<Longrightarrow> schema_checked ''Callees'' args"
  "string_field ''symbol'' args \<Longrightarrow> int_field ''max_depth'' args \<Longrightarrow> schema_checked ''Impact'' args"
  "string_field ''symbol'' args \<Longrightarrow> schema_checked ''Node'' args"
  "schema_checked ''Status'' args" "schema_checked ''Files'' args"
  by (simp_all add: schema_checked_def CodeGraphToolSpecs_def conforms_ObjectSchema symbol_property_def)

text \<open>
  A back end answers a method of the table only, and unless the answer reports an error only for arguments that
  conform to its schema.
\<close>

locale code_graph_backend =
  fixes invoke :: backend
  assumes answers_checked: "invoke meth args = Inr result \<Longrightarrow> json_find ''error'' result = None \<Longrightarrow> schema_checked meth args"
begin

lemma handler_checked:
  assumes "HandleRpcCall L invoke meth payload = Returns reply"
  obtains args result where "ParsePayload L meth payload = Inr args" and "invoke meth args = Inr result" and "jdump L (Some 2) result = Inr reply"
    and "json_find ''error'' result = None \<longrightarrow> schema_checked meth args"
proof -
  from assms obtain result where r: "andThen (ParsePayload L meth payload) (invoke meth) = Inr result" "jdump L (Some 2) result = Inr reply"
    by (auto simp: HandleRpcCall_def thrown_def split: sum.splits exn.splits)
  then obtain args where "ParsePayload L meth payload = Inr args" "invoke meth args = Inr result" by (auto simp: andThen_Inr)
  with r(2) answers_checked that show ?thesis by blast
qed

end

interpretation empty_backend: code_graph_backend EmptyBackend_Invoke
proof
  fix meth args result
  assume "EmptyBackend_Invoke meth args = Inr result"
  then show "schema_checked meth args"
    by (simp add: EmptyBackend_Invoke_def andThen_Inr schema_checkedI split: if_splits)
      (elim exE conjE disjE; hypsubst?; rule schema_checkedI; (erule RequiredString_field | erule OptionalInt_field))+
qed

end
