(* ===== verification/Mcp_Adapter.thy ===== *)
theory Mcp_Adapter
  imports Code_Graph Connection Rpc_Client
begin

text \<open>
  The MCP adapter: \<open>codegraph/mcp_adapter.{h,cpp}\<close>. It reads JSON-RPC requests line by line, turns the call of a tool
  into an RPC call of the code graph service, and writes one response per line. The RPC client is an
  argument: the function from service, method and payload to the result of the call.
\<close>

section \<open>Requests\<close>

definition JsonRpcId :: "json \<Rightarrow> json" where
  "JsonRpcId request = (case json_find ''id'' request of Some i \<Rightarrow> i | None \<Rightarrow> JNull)"

definition IsNotification :: "json \<Rightarrow> bool" where
  "IsNotification request = (case json_find ''id'' request of None \<Rightarrow> True | Some i \<Rightarrow> i = JNull)"

definition RequiredStringParam :: "json \<Rightarrow> string \<Rightarrow> exn + string" where
  "RequiredStringParam params key =
     (let err = Inl (InvalidArgument (''missing non-empty string param '' @ [CHR 0x27] @ key @ [CHR 0x27])) in
      case json_find key params of Some (JString s) \<Rightarrow> if s = [] then err else Inr s | _ \<Rightarrow> err)"

definition RequestParamsObject :: "json \<Rightarrow> exn + json" where
  "RequestParamsObject request =
     (case json_find ''params'' request of
        None \<Rightarrow> Inr (JObject Map.empty)
      | Some JNull \<Rightarrow> Inr (JObject Map.empty)
      | Some params \<Rightarrow> if is_object params then Inr params else Inl (InvalidArgument ''params must be an object''))"

definition RpcFailureText :: "RpcCallResult \<Rightarrow> string" where
  "RpcFailureText result =
     ''RPC error: code='' @ int_text (ec_value (st_code (status result))) @ '' category=''
     @ category_name (ec_category (st_code (status result))) @ '' message='' @ st_message (status result)"

section \<open>Responses\<close>

definition MakeResponse :: "json \<Rightarrow> json \<Rightarrow> json" where
  "MakeResponse i result = obj [(''jsonrpc'', JString ''2.0''), (''result'', result), (''id'', i)]"

definition MakeError :: "json \<Rightarrow> int \<Rightarrow> string \<Rightarrow> json" where
  "MakeError i code msg =
     obj [(''jsonrpc'', JString ''2.0''), (''error'', obj [(''code'', JInt code), (''message'', JString msg)]), (''id'', i)]"

definition MakeToolResult :: "string \<Rightarrow> bool \<Rightarrow> json" where
  "MakeToolResult reply failed =
     (let result = obj [(''content'', JArray [obj [(''type'', JString ''text''), (''text'', JString reply)]])] in
      if failed then json_put ''isError'' (JBool True) result else result)"

section \<open>Handlers\<close>

type_synonym call_fn = "string \<Rightarrow> string \<Rightarrow> string \<Rightarrow> RpcCallResult"

definition HandleInitialize :: "json \<Rightarrow> json" where
  "HandleInitialize request =
     MakeResponse (JsonRpcId request)
       (obj [(''protocolVersion'', JString ''2024-11-05''),
             (''capabilities'', obj [(''tools'', JObject Map.empty)]),
             (''serverInfo'', obj [(''name'', JString ''codegraph-mini-rpc-adapter''), (''version'', JString ''0.1.0'')])])"

definition HandleToolsList :: "json \<Rightarrow> json" where
  "HandleToolsList request =
     MakeResponse (JsonRpcId request)
       (obj [(''tools'', JArray (map (\<lambda>spec. obj [(''name'', JString (mcp_name spec)), (''description'', JString (description spec)),
                                               (''inputSchema'', input_schema spec)]) CodeGraphToolSpecs))])"

definition CallArguments :: "json \<Rightarrow> json option" where
  "CallArguments params =
     (case json_find ''arguments'' params of
        None \<Rightarrow> Some (JObject Map.empty)
      | Some JNull \<Rightarrow> Some (JObject Map.empty)
      | Some a \<Rightarrow> if is_object a then Some a else None)"

fun invalid_params :: "json \<Rightarrow> exn \<Rightarrow> exn + json" where
  "invalid_params i (InvalidArgument w) = Inr (MakeError i (- 32602) w)"
| "invalid_params i e = Inl e"

definition HandleToolsCall :: "json_lib \<Rightarrow> call_fn \<Rightarrow> json \<Rightarrow> exn + json" where
  "HandleToolsCall L call request =
     (let i = JsonRpcId request in
      case RequestParamsObject request of
        Inl e \<Rightarrow> invalid_params i e
      | Inr params \<Rightarrow>
          (case RequiredStringParam params ''name'' of
             Inl e \<Rightarrow> invalid_params i e
           | Inr tool_name \<Rightarrow>
               (case FindToolByMcpName tool_name of
                  None \<Rightarrow> Inr (MakeResponse i (MakeToolResult (''Unknown tool: '' @ tool_name) True))
                | Some spec \<Rightarrow>
                    (case CallArguments params of
                       None \<Rightarrow> Inr (MakeError i (- 32602) ''arguments must be an object'')
                     | Some args \<Rightarrow>
                         (case jdump L None args of
                            Inl problem \<Rightarrow> Inl (OtherException problem)
                          | Inr body \<Rightarrow>
                              (let result = call ''CodeGraph'' (rpc_method spec) body in
                               if \<not> result_ok result then Inr (MakeResponse i (MakeToolResult (RpcFailureText result) True))
                               else Inr (MakeResponse i (MakeToolResult (response_payload result) False))))))))"

text \<open>\<open>request.value("method", "")\<close>; a value that is not a string makes the library throw (the text is an argument).\<close>

definition request_method :: "string \<Rightarrow> json \<Rightarrow> exn + string" where
  "request_method type_error request =
     (case json_find ''method'' request of
        None \<Rightarrow> Inr []
      | Some (JString s) \<Rightarrow> Inr s
      | Some _ \<Rightarrow> Inl (OtherException type_error))"

definition HandleRequest :: "json_lib \<Rightarrow> string \<Rightarrow> call_fn \<Rightarrow> json \<Rightarrow> exn + json" where
  "HandleRequest L type_error call request =
     (if \<not> is_object request then Inl (InvalidArgument ''request must be an object'')
      else let i = JsonRpcId request in
        andThen (request_method type_error request) (\<lambda>meth.
          if meth = [] then Inr (MakeError i (- 32600) ''missing method'')
          else if meth = ''initialize'' then Inr (HandleInitialize request)
          else if meth = ''tools/list'' then Inr (HandleToolsList request)
          else if meth = ''tools/call'' then HandleToolsCall L call request
          else if meth = ''notifications/initialized'' then Inr (MakeResponse i (JObject Map.empty))
          else Inr (MakeError i (- 32601) (''Method not found: '' @ meth))))"

section \<open>The loop over the input\<close>

text \<open>What one line is answered with; \<^const>\<open>None\<close>: nothing.\<close>

definition line_response :: "json_lib \<Rightarrow> string \<Rightarrow> call_fn \<Rightarrow> string \<Rightarrow> json option" where
  "line_response L type_error call input =
     (if input = [] then None
      else case jparse L input of
             Inl (ParseFailure w) \<Rightarrow> Some (MakeError JNull (- 32700) (''Parse error: '' @ w))
           | Inl (RangeFailure w) \<Rightarrow> Some (MakeError JNull (- 32603) (''Internal error: '' @ w))
           | Inr request \<Rightarrow>
               if IsNotification request then None
               else (case HandleRequest L type_error call request of
                       Inr response \<Rightarrow> Some response
                     | Inl (InvalidArgument w) \<Rightarrow> Some (MakeError JNull (- 32600) (''Invalid request: '' @ w))
                     | Inl (OtherException w) \<Rightarrow> Some (MakeError JNull (- 32603) (''Internal error: '' @ w))
                     | Inl (RpcError x) \<Rightarrow> Some (MakeError JNull (- 32603) (''Internal error: '' @ ex_what x))))"

text \<open>\<open>Run\<close>: the lines written, and whether it returned. A response that the printer rejects ends it by an exception.\<close>

fun Run :: "json_lib \<Rightarrow> string \<Rightarrow> call_fn \<Rightarrow> string list \<Rightarrow> string list \<times> bool" where
  "Run L type_error call [] = ([], True)"
| "Run L type_error call (input # rest) =
     (case line_response L type_error call input of
        None \<Rightarrow> Run L type_error call rest
      | Some response \<Rightarrow>
          (case jdump L None response of
             Inl _ \<Rightarrow> ([], False)
           | Inr out \<Rightarrow> (case Run L type_error call rest of (outs, ok) \<Rightarrow> (out # outs, ok))))"

section \<open>Every request is answered\<close>

text \<open>A well-formed response to the request with this id.\<close>

definition answers :: "json \<Rightarrow> json \<Rightarrow> bool" where
  "answers i response \<longleftrightarrow> json_find ''jsonrpc'' response = Some (JString ''2.0'') \<and> json_find ''id'' response = Some i
     \<and> (json_find ''result'' response \<noteq> None) \<noteq> (json_find ''error'' response \<noteq> None)"

lemma answers_Make [simp]: "answers i (MakeResponse i result)" "answers i (MakeError i code msg)"
  by (simp_all add: answers_def MakeResponse_def MakeError_def)

lemma invalid_params_answers: "invalid_params i e = Inr response \<Longrightarrow> answers i response"
  by (cases e) auto

lemma HandleToolsCall_answers: "HandleToolsCall L call request = Inr response \<Longrightarrow> answers (JsonRpcId request) response"
  unfolding HandleToolsCall_def Let_def
  by (auto split: sum.splits option.splits if_splits dest: invalid_params_answers)

lemma HandleRequest_answers:
  assumes "HandleRequest L type_error call request = Inr response"
  shows "answers (JsonRpcId request) response"
proof (cases "request_method type_error request")
  case (Inr meth)
  with assms HandleToolsCall_answers [of L call request response] show ?thesis
    by (auto simp: HandleRequest_def andThen_def Let_def HandleInitialize_def HandleToolsList_def split: if_splits)
next
  case (Inl e)
  with assms show ?thesis by (simp add: HandleRequest_def andThen_def Let_def split: if_splits)
qed


definition sample_lib :: json_lib where
  "sample_lib = \<lparr>jparse = \<lambda>s. if s = ''{}'' then Inr (JObject Map.empty) else Inl (ParseFailure ''bad''), jdump = \<lambda>_ _. Inr ''{}''\<rparr>"


section \<open>From the tool to the back end and back\<close>

text \<open>An RPC call that a server with this registry answers.\<close>

definition served_call :: "ServiceRegistry \<Rightarrow> string \<Rightarrow> call_fn" where
  "served_call reg rid service meth body =
     mapped_result (the (HandleOneRequest reg \<lparr>request_id = rid, service_name = service, method_name = meth, payload = body\<rparr> (Some RpcResponse_init)))"

lemma served_call_returns:
  assumes "Find service meth reg = Some h" and "h body = Returns reply"
  shows "result_ok (served_call reg rid service meth body)" "response_payload (served_call reg rid service meth body) = reply"
  using assms
  by (simp_all add: served_call_def HandleOneRequest_def mapped_result_def result_ok_def status_ok_def is_error_def Let_def
      FromProtoErrorCode_def make_error_code_def)

lemma served_call_throws:
  assumes "Find service meth reg = Some h" and "h body = thrown (rpc_error c msg)" and "c \<noteq> kOk" and "msg \<noteq> []"
  shows "served_call reg rid service meth body = failure c msg"
proof -
  have "h body = ThrowsRpcError \<lparr>ex_code = make_error_code c, ex_what = msg\<rparr>"
    using assms(2,4) by (simp add: thrown_def rpc_error_def RpcException_make_def)
  moreover have "FromProtoErrorCode (ToProtoErrorCode (make_error_code c)) = make_error_code c"
    using error_code_wire_roundtrip by blast
  ultimately show ?thesis
    using assms(1) by (simp add: served_call_def HandleOneRequest_def mapped_result_def failure_def Let_def)
qed

text \<open>A request that calls a tool.\<close>

definition tool_request :: "json \<Rightarrow> string \<Rightarrow> json \<Rightarrow> json" where
  "tool_request i name args =
     obj [(''jsonrpc'', JString ''2.0''), (''id'', i), (''method'', JString ''tools/call''),
          (''params'', obj [(''name'', JString name), (''arguments'', args)])]"

lemma tool_request_handled:
  assumes "spec \<in> set CodeGraphToolSpecs" and "is_object args" and "jdump L None args = Inr body"
  shows "HandleRequest L type_error call (tool_request i (mcp_name spec) args) =
    Inr (MakeResponse i (let result = call ''CodeGraph'' (rpc_method spec) body in
      if result_ok result then MakeToolResult (response_payload result) False else MakeToolResult (RpcFailureText result) True))"
proof -
  let ?params = "obj [(''name'', JString (mcp_name spec)), (''arguments'', args)]" and ?q = "tool_request i (mcp_name spec) args"
  have q: "json_find ''method'' ?q = Some (JString ''tools/call'')" "json_find ''params'' ?q = Some ?params" "JsonRpcId ?q = i" "is_object ?q"
    by (simp_all add: tool_request_def JsonRpcId_def)
  have "mcp_name spec \<noteq> []" using tool_names(4) assms(1) by (metis image_eqI list.set_map)
  then have name: "RequiredStringParam ?params ''name'' = Inr (mcp_name spec)" by (simp add: RequiredStringParam_def)
  have args: "CallArguments ?params = Some args" using assms(2) by (cases args) (simp_all add: CallArguments_def is_object_def)
  have params: "RequestParamsObject ?q = Inr ?params" by (simp add: RequestParamsObject_def q(2) obj_def is_object_def)
  have "HandleRequest L type_error call ?q = HandleToolsCall L call ?q"
    by (simp add: HandleRequest_def request_method_def q andThen_def)
  also have "\<dots> = Inr (MakeResponse i (let result = call ''CodeGraph'' (rpc_method spec) body in
      if result_ok result then MakeToolResult (response_payload result) False else MakeToolResult (RpcFailureText result) True))"
    unfolding HandleToolsCall_def q(3) params name args sum.case FindToolByMcpName_spec [OF assms(1)] option.case assms(3) Let_def by simp
  finally show ?thesis .
qed

text \<open>
  C35: a tool call goes through the whole system. The adapter turns it into an RPC call, a server on
  which the service is registered runs the back end with exactly the arguments of the call, and
  the answer comes back as the text of the tool result under the id of the request; an error that the back end
  reports comes back as a tool error with its code and message.
\<close>

theorem mcp_tool_call_end_to_end:
  assumes "spec \<in> set CodeGraphToolSpecs" and "is_object args"
    and "jdump L None args = Inr body" and "body \<noteq> []" and "jparse L body = Inr args"
    and "\<forall>spec \<in> set CodeGraphToolSpecs. Find ''CodeGraph'' (rpc_method spec) reg = None"
    and "reg' = snd (RegisterCodeGraphService L invoke reg)"
  shows "(invoke (rpc_method spec) args = Inr result \<and> jdump L (Some 2) result = Inr reply \<longrightarrow>
      HandleRequest L type_error (served_call reg' rid) (tool_request i (mcp_name spec) args) = Inr (MakeResponse i (MakeToolResult reply False)))
    \<and> (invoke (rpc_method spec) args = Inl (rpc_error c msg) \<and> c \<noteq> kOk \<and> msg \<noteq> [] \<longrightarrow>
      HandleRequest L type_error (served_call reg' rid) (tool_request i (mcp_name spec) args)
        = Inr (MakeResponse i (MakeToolResult (RpcFailureText (failure c msg)) True)))"
proof -
  obtain reg1 where "RegisterCodeGraphService L invoke reg = (True, reg1)"
      "\<forall>spec \<in> set CodeGraphToolSpecs. Find ''CodeGraph'' (rpc_method spec) reg1 = Some (HandleRpcCall L invoke (rpc_method spec))"
    using codegraph_registered [OF assms(6)] .
  with assms(1,7) have h: "Find ''CodeGraph'' (rpc_method spec) reg' = Some (HandleRpcCall L invoke (rpc_method spec))" by simp
  have run: "HandleRpcCall L invoke (rpc_method spec) body
      = (case invoke (rpc_method spec) args of Inl e \<Rightarrow> thrown e
         | Inr r \<Rightarrow> (case jdump L (Some 2) r of Inl w \<Rightarrow> ThrowsStdException w | Inr t \<Rightarrow> Returns t))"
    using assms(2,4,5) by (simp add: HandleRpcCall_def ParsePayload_def andThen_def)
  note handled = tool_request_handled [OF assms(1-3), of type_error "served_call reg' rid" i, unfolded Let_def]
  show ?thesis
  proof (intro conjI impI)
    assume "invoke (rpc_method spec) args = Inr result \<and> jdump L (Some 2) result = Inr reply"
    then have "HandleRpcCall L invoke (rpc_method spec) body = Returns reply" using run by simp
    from served_call_returns [OF h this, of rid] handled
    show "HandleRequest L type_error (served_call reg' rid) (tool_request i (mcp_name spec) args) = Inr (MakeResponse i (MakeToolResult reply False))"
      by simp
  next
    assume e: "invoke (rpc_method spec) args = Inl (rpc_error c msg) \<and> c \<noteq> kOk \<and> msg \<noteq> []"
    then have "HandleRpcCall L invoke (rpc_method spec) body = thrown (rpc_error c msg)" using run by simp
    from served_call_throws [OF h this, of rid] e have "served_call reg' rid ''CodeGraph'' (rpc_method spec) body = failure c msg" by simp
    moreover have "\<not> result_ok (failure c msg)"
      using e by (cases c) (simp_all add: result_ok_def failure_def status_ok_def is_error_def make_error_code_def)
    ultimately show "HandleRequest L type_error (served_call reg' rid) (tool_request i (mcp_name spec) args)
        = Inr (MakeResponse i (MakeToolResult (RpcFailureText (failure c msg)) True))"
      using handled by simp
  qed
qed

theorem mcp_tool_call_end_to_end_witness:
  "let spec = CodeGraphToolSpecs ! 6; reg = snd (RegisterCodeGraphService sample_lib EmptyBackend_Invoke ServiceRegistry_init) in
   HandleRequest sample_lib [] (served_call reg ''1'') (tool_request (JInt 4) (mcp_name spec) (JObject Map.empty))
     = Inr (MakeResponse (JInt 4) (MakeToolResult ''{}'' False))"
proof -
  let ?spec = "CodeGraphToolSpecs ! 6" and ?args = "JObject Map.empty"
  have "length CodeGraphToolSpecs = 8" by (simp add: CodeGraphToolSpecs_def)
  then have spec: "?spec \<in> set CodeGraphToolSpecs" by (intro nth_mem) simp
  have "rpc_method ?spec = ''Status''" by (simp add: CodeGraphToolSpecs_def)
  then obtain result where "EmptyBackend_Invoke (rpc_method ?spec) ?args = Inr result" by (simp add: EmptyBackend_Invoke_def)
  moreover have none: "\<forall>spec \<in> set CodeGraphToolSpecs. Find ''CodeGraph'' (rpc_method spec) ServiceRegistry_init = None"
    by (simp add: registry.find_empty)
  moreover have lib: "is_object ?args" "jdump sample_lib None ?args = Inr ''{}''" "''{}'' \<noteq> []" "jparse sample_lib ''{}'' = Inr ?args"
    "jdump sample_lib (Some 2) result = Inr ''{}''"
    by (simp_all add: sample_lib_def is_object_def)
  ultimately show ?thesis
    using mcp_tool_call_end_to_end [OF spec lib(1-4) none refl, where result = result and reply = "''{}''"] by (simp add: Let_def)
qed

end
