(* ===== verification/Graph_Backend.thy ===== *)
theory Graph_Backend
  imports Code_Graph
begin

text \<open>
  The back end on an SQLite index: \<open>codegraph/sqlite_codegraph_backend.cpp\<close>. Two schemas are understood; symbols
  are found by name, and callers, callees and impact are breadth-first traversals of the call edges.

  The data base is an argument: what a statement with its bound parameters yields. It may fail when it is opened,
  prepared or bound, and after any number of rows.
\<close>

section \<open>The data base\<close>

datatype sql_value = SqlNull | SqlText string | SqlInt int

datatype sql_outcome = PrepareFails string | BindFails string | Rows "sql_value list list" "string option"

record sqlite =
  sq_open :: "string option"
  sq_exec :: "string \<Rightarrow> string option"
  sq_run :: "string \<Rightarrow> sql_value list \<Rightarrow> sql_outcome"
  sq_text_int :: "string \<Rightarrow> int"
  sq_no_row :: string

definition BackendError :: "string \<Rightarrow> exn" where
  "BackendError message = rpc_error kInternalError message"

text \<open>A column that is not there reads as null; \<open>sqlite3_column_int\<close> keeps the lower 32 bits.\<close>

definition column :: "sql_value list \<Rightarrow> nat \<Rightarrow> sql_value" where
  "column row i = (if i < length row then row ! i else SqlNull)"

definition Text :: "sql_value list \<Rightarrow> nat \<Rightarrow> string" where
  "Text row i = (case column row i of SqlNull \<Rightarrow> [] | SqlText s \<Rightarrow> s | SqlInt n \<Rightarrow> int_text n)"

definition column_int :: "sqlite \<Rightarrow> sql_value list \<Rightarrow> nat \<Rightarrow> int" where
  "column_int db row i = (case column row i of SqlNull \<Rightarrow> 0 | SqlText s \<Rightarrow> get_int (sq_text_int db s) | SqlInt n \<Rightarrow> get_int n)"

definition OpenReadOnly :: "sqlite \<Rightarrow> string \<Rightarrow> exn + unit" where
  "OpenReadOnly db path =
     (case sq_open db of
        Some msg \<Rightarrow> Inl (BackendError (''failed to open CodeGraph DB '' @ [CHR 0x27] @ path @ [CHR 0x27] @ '': '' @ msg))
      | None \<Rightarrow> Inr ())"

definition Exec :: "sqlite \<Rightarrow> string \<Rightarrow> exn + unit" where
  "Exec db sql = (case sq_exec db sql of Some msg \<Rightarrow> Inl (BackendError msg) | None \<Rightarrow> Inr ())"

text \<open>Prepare, bind, and step through all rows.\<close>

definition query_rows :: "sqlite \<Rightarrow> string \<Rightarrow> sql_value list \<Rightarrow> exn + sql_value list list" where
  "query_rows db sql params =
     (case sq_run db sql params of
        PrepareFails msg \<Rightarrow> Inl (BackendError msg)
      | BindFails msg \<Rightarrow> Inl (BackendError msg)
      | Rows rows None \<Rightarrow> Inr rows
      | Rows rows (Some msg) \<Rightarrow> Inl (BackendError msg))"

section \<open>Schemas\<close>

datatype SchemaFlavor = kOfficialCodeGraph | kCodeGraphCpp

definition HasColumn :: "sqlite \<Rightarrow> string \<Rightarrow> string \<Rightarrow> exn + bool" where
  "HasColumn db table col =
     (case sq_run db (''PRAGMA table_info('' @ table @ '')'') [] of
        PrepareFails _ \<Rightarrow> Inr False
      | BindFails _ \<Rightarrow> Inr False
      | Rows rows failed \<Rightarrow>
          if \<exists>row \<in> set rows. Text row 1 = col then Inr True
          else (case failed of None \<Rightarrow> Inr False | Some msg \<Rightarrow> Inl (BackendError msg)))"

definition both_columns :: "sqlite \<Rightarrow> string \<Rightarrow> string \<Rightarrow> string \<Rightarrow> exn + bool" where
  "both_columns db table c1 c2 = andThen (HasColumn db table c1) (\<lambda>b. if b then HasColumn db table c2 else Inr False)"

definition DetectSchema :: "sqlite \<Rightarrow> exn + SchemaFlavor" where
  "DetectSchema db =
     andThen (both_columns db ''nodes'' ''start_line'' ''start_column'') (\<lambda>official_nodes.
     andThen (both_columns db ''edges'' ''source'' ''target'') (\<lambda>official_edges.
       if official_nodes \<and> official_edges then Inr kOfficialCodeGraph
       else
         andThen (both_columns db ''nodes'' ''line'' ''col'') (\<lambda>cpp_nodes.
         andThen (both_columns db ''edges'' ''source_id'' ''target_id'') (\<lambda>cpp_edges.
           if cpp_nodes \<and> cpp_edges then Inr kCodeGraphCpp
           else Inl (BackendError ''unsupported CodeGraph SQLite schema: expected official codegraph.db or codegraph-cpp .codegraph/index'')))))"

fun SchemaName :: "SchemaFlavor \<Rightarrow> string" where
  "SchemaName kOfficialCodeGraph = ''official_codegraph''"
| "SchemaName kCodeGraphCpp = ''codegraph_cpp''"

definition when_clauses :: "string list \<Rightarrow> string" where
  "when_clauses names =
     concat (map (\<lambda>(i, name). '' WHEN '' @ to_string i @ '' THEN '' @ [CHR 0x27] @ name @ [CHR 0x27]) (enumerate 0 names))
     @ '' ELSE '' @ [CHR 0x27] @ ''unknown'' @ [CHR 0x27] @ '' END''"

definition NodeKindCaseSql :: "string \<Rightarrow> string" where
  "NodeKindCaseSql col = ''CASE '' @ col @ when_clauses [''file'', ''function'', ''method'', ''class'', ''struct'', ''enum'', ''enum_member'',
     ''variable'', ''type_alias'', ''namespace'', ''import'', ''parameter'', ''field'']"

definition EdgeKindCaseSql :: "string \<Rightarrow> string" where
  "EdgeKindCaseSql col = ''CASE '' @ col @ when_clauses [''contains'', ''calls'', ''imports'', ''exports'', ''extends'', ''implements'',
     ''references'', ''type_of'', ''returns'', ''overrides'']"

definition empty_literal :: string where
  "empty_literal = [CHR 0x27, CHR 0x27]"

fun NodeSelectSql :: "SchemaFlavor \<Rightarrow> string" where
  "NodeSelectSql kOfficialCodeGraph =
     ''SELECT id, kind, name, qualified_name, file_path, language, start_line, start_column, end_line, end_column, signature, docstring, is_static, is_exported FROM nodes ''"
| "NodeSelectSql kCodeGraphCpp =
     ''SELECT CAST(id AS TEXT), '' @ NodeKindCaseSql ''kind'' @ '', name, COALESCE(qualified_name, name), file_path, COALESCE(language, ''
     @ empty_literal @ ''), line, col, end_line, end_col, COALESCE(signature, '' @ empty_literal @ ''), COALESCE(docstring, ''
     @ empty_literal @ ''), is_static, is_exported FROM nodes ''"

section \<open>Rows\<close>

record NodeRow =
  node_id :: string
  node_kind :: string
  node_name :: string
  qualified_name :: string
  node_file_path :: string
  language :: string
  start_line :: int
  start_column :: int
  end_line :: int
  end_column :: int
  signature :: string
  docstring :: string
  is_static :: bool
  is_exported :: bool

record EdgeRow =
  edge_id :: int
  edge_source :: string
  edge_target :: string
  edge_kind :: string
  edge_line :: int
  edge_col :: int
  metadata :: string

definition Count :: "sqlite \<Rightarrow> string \<Rightarrow> exn + int" where
  "Count db sql =
     (case sq_run db sql [] of
        PrepareFails msg \<Rightarrow> Inl (BackendError msg)
      | BindFails msg \<Rightarrow> Inl (BackendError msg)
      | Rows [] failed \<Rightarrow> Inl (BackendError (case failed of Some msg \<Rightarrow> msg | None \<Rightarrow> sq_no_row db))
      | Rows (row # _) _ \<Rightarrow> Inr (case column row 0 of SqlNull \<Rightarrow> 0 | SqlText s \<Rightarrow> sq_text_int db s | SqlInt n \<Rightarrow> n))"

definition ReadNode :: "sqlite \<Rightarrow> sql_value list \<Rightarrow> NodeRow" where
  "ReadNode db row =
     \<lparr>node_id = Text row 0, node_kind = Text row 1, node_name = Text row 2, qualified_name = Text row 3, node_file_path = Text row 4,
      language = Text row 5, start_line = column_int db row 6, start_column = column_int db row 7, end_line = column_int db row 8,
      end_column = column_int db row 9, signature = Text row 10, docstring = Text row 11,
      is_static = (column_int db row 12 \<noteq> 0), is_exported = (column_int db row 13 \<noteq> 0)\<rparr>"

definition ReadEdge :: "sqlite \<Rightarrow> sql_value list \<Rightarrow> EdgeRow" where
  "ReadEdge db row =
     \<lparr>edge_id = column_int db row 0, edge_source = Text row 1, edge_target = Text row 2, edge_kind = Text row 3,
      edge_line = column_int db row 4, edge_col = column_int db row 5, metadata = Text row 6\<rparr>"

definition NodeToJson :: "NodeRow \<Rightarrow> json" where
  "NodeToJson n =
     obj [(''id'', JString (node_id n)), (''kind'', JString (node_kind n)), (''name'', JString (node_name n)),
          (''qualified_name'', JString (qualified_name n)), (''file'', JString (node_file_path n)), (''language'', JString (language n)),
          (''line'', JInt (start_line n)), (''col'', JInt (start_column n)), (''end_line'', JInt (end_line n)), (''end_col'', JInt (end_column n)),
          (''signature'', JString (signature n)), (''docstring'', JString (docstring n)),
          (''is_static'', JBool (is_static n)), (''is_exported'', JBool (is_exported n))]"

definition EdgeToJson :: "EdgeRow \<Rightarrow> json" where
  "EdgeToJson e =
     obj [(''id'', JInt (edge_id e)), (''source_id'', JString (edge_source e)), (''target_id'', JString (edge_target e)),
          (''kind'', JString (edge_kind e)), (''line'', JInt (edge_line e)), (''col'', JInt (edge_col e)), (''metadata'', JString (metadata e))]"

section \<open>Queries\<close>

definition QueryNodes :: "sqlite \<Rightarrow> string \<Rightarrow> string list \<Rightarrow> int \<Rightarrow> exn + NodeRow list" where
  "QueryNodes db sql text_params limit =
     andThen (query_rows db sql (map SqlText text_params @ [SqlInt limit])) (\<lambda>rows. Inr (map (ReadNode db) rows))"

definition FindNodes :: "sqlite \<Rightarrow> string \<Rightarrow> SchemaFlavor \<Rightarrow> int \<Rightarrow> exn + NodeRow list" where
  "FindNodes db symbol schema limit =
     andThen (QueryNodes db (NodeSelectSql schema
         @ ''WHERE name=? OR qualified_name=? ORDER BY CASE WHEN name=? THEN 0 WHEN qualified_name=? THEN 1 ELSE 2 END LIMIT ?'')
         [symbol, symbol, symbol, symbol] limit) (\<lambda>exact.
       if int (length exact) \<ge> limit then Inr exact
       else
         let remaining = limit - int (length exact); pattern = ''%'' @ symbol @ ''%'' in
         andThen (QueryNodes db (NodeSelectSql schema
             @ ''WHERE (name LIKE ? OR qualified_name LIKE ?) AND name<>? AND qualified_name<>? LIMIT ?'')
             [pattern, pattern, symbol, symbol] remaining) (\<lambda>fuzzy. Inr (exact @ fuzzy)))"

definition SearchNodes :: "sqlite \<Rightarrow> string \<Rightarrow> SchemaFlavor \<Rightarrow> int \<Rightarrow> exn + NodeRow list" where
  "SearchNodes db query schema limit =
     (let sql = NodeSelectSql schema
          @ ''WHERE lower(name) LIKE lower(?) OR lower(qualified_name) LIKE lower(?) ORDER BY CASE WHEN name=? THEN 0 WHEN qualified_name=? THEN 1 ELSE 2 END, file_path, ''
          @ (if schema = kOfficialCodeGraph then ''start_line'' else ''line'') @ '' LIMIT ?'';
        pattern = ''%'' @ query @ ''%''
      in QueryNodes db sql [pattern, pattern, query, query] limit)"

definition edges_sql :: "SchemaFlavor \<Rightarrow> bool \<Rightarrow> string" where
  "edges_sql schema outgoing =
     (if schema = kOfficialCodeGraph then
        ''SELECT id, source, target, kind, line, col, metadata FROM edges WHERE ''
        @ (if outgoing then ''source'' else ''target'') @ ''=? AND kind=? LIMIT ?''
      else
        ''SELECT id, CAST(source_id AS TEXT), CAST(target_id AS TEXT), '' @ EdgeKindCaseSql ''kind''
        @ '', line, col, COALESCE(metadata, '' @ empty_literal @ '') FROM edges WHERE ''
        @ (if outgoing then ''source_id'' else ''target_id'') @ ''=? AND kind=? LIMIT ?'')"

definition QueryEdges :: "sqlite \<Rightarrow> SchemaFlavor \<Rightarrow> string \<Rightarrow> bool \<Rightarrow> string \<Rightarrow> int \<Rightarrow> exn + EdgeRow list" where
  "QueryEdges db schema nid outgoing kind limit =
     (let kind_param = (if schema = kOfficialCodeGraph then SqlText kind else SqlInt (if kind = ''calls'' then 1 else - 1)) in
      andThen (query_rows db (edges_sql schema outgoing) [SqlText nid, kind_param, SqlInt limit]) (\<lambda>rows. Inr (map (ReadEdge db) rows)))"

fun GetNodesByIds :: "sqlite \<Rightarrow> SchemaFlavor \<Rightarrow> string list \<Rightarrow> exn + NodeRow list" where
  "GetNodesByIds db schema [] = Inr []"
| "GetNodesByIds db schema (nid # ids) =
     andThen (QueryNodes db (NodeSelectSql schema
         @ (if schema = kOfficialCodeGraph then ''WHERE id=? LIMIT ?'' else ''WHERE CAST(id AS TEXT)=? LIMIT ?'')) [nid] 1) (\<lambda>rows.
     andThen (GetNodesByIds db schema ids) (\<lambda>nodes. Inr (rows @ nodes)))"

section \<open>Traversal\<close>

text \<open>The vectors that grow while the frontier is expanded; \<open>emitted\<close> counts the edges.\<close>

record trav =
  next_ids :: "string list"
  visited :: "string set"
  out_edges :: "EdgeRow list"
  emitted :: int

definition adjacent :: "bool \<Rightarrow> EdgeRow \<Rightarrow> string" where
  "adjacent outgoing e = (if outgoing then edge_target e else edge_source e)"

text \<open>The edges of one node; the loop stops at the limit.\<close>

fun scan_edges :: "bool \<Rightarrow> int \<Rightarrow> EdgeRow list \<Rightarrow> trav \<Rightarrow> trav" where
  "scan_edges outgoing limit [] s = s"
| "scan_edges outgoing limit (e # es) s =
     (let a = adjacent outgoing e in
      if a \<notin> visited s then
        let s1 = s\<lparr>visited := insert a (visited s), next_ids := next_ids s @ [a], out_edges := out_edges s @ [e], emitted := emitted s + 1\<rparr> in
        if emitted s1 \<ge> limit then s1 else scan_edges outgoing limit es s1
      else scan_edges outgoing limit es s)"

fun scan_frontier :: "(string \<Rightarrow> exn + EdgeRow list) \<Rightarrow> bool \<Rightarrow> int \<Rightarrow> string list \<Rightarrow> trav \<Rightarrow> exn + trav" where
  "scan_frontier edges_of outgoing limit [] s = Inr s"
| "scan_frontier edges_of outgoing limit (nid # frontier) s =
     andThen (edges_of nid) (\<lambda>edges.
       let s1 = scan_edges outgoing limit edges s in
       if emitted s1 \<ge> limit then Inr s1 else scan_frontier edges_of outgoing limit frontier s1)"

text \<open>One round per level of depth; the nodes of a level are fetched after it.\<close>

fun levels :: "(string \<Rightarrow> exn + EdgeRow list) \<Rightarrow> (string list \<Rightarrow> exn + NodeRow list) \<Rightarrow> bool \<Rightarrow> int \<Rightarrow> nat \<Rightarrow> string list \<Rightarrow> trav \<Rightarrow> NodeRow list
    \<Rightarrow> exn + NodeRow list \<times> EdgeRow list" where
  "levels edges_of nodes_of outgoing limit 0 frontier s nodes = Inr (nodes, out_edges s)"
| "levels edges_of nodes_of outgoing limit (Suc depth) frontier s nodes =
     (if frontier = [] \<or> emitted s \<ge> limit then Inr (nodes, out_edges s)
      else andThen (scan_frontier edges_of outgoing limit frontier (s\<lparr>next_ids := []\<rparr>)) (\<lambda>s1.
           andThen (nodes_of (next_ids s1)) (\<lambda>ns. levels edges_of nodes_of outgoing limit depth (next_ids s1) s1 (nodes @ ns))))"

definition trav_init :: "string \<Rightarrow> trav" where
  "trav_init start = \<lparr>next_ids = [], visited = {start}, out_edges = [], emitted = 0\<rparr>"

definition Traversal :: "sqlite \<Rightarrow> SchemaFlavor \<Rightarrow> NodeRow \<Rightarrow> bool \<Rightarrow> int \<Rightarrow> int \<Rightarrow> exn + NodeRow list \<times> EdgeRow list" where
  "Traversal db schema start outgoing max_depth limit =
     levels (\<lambda>nid. QueryEdges db schema nid outgoing ''calls'' limit) (GetNodesByIds db schema) outgoing limit
       (nat max_depth) [node_id start] (trav_init (node_id start)) []"

definition traversal_json :: "NodeRow list \<times> EdgeRow list \<Rightarrow> json" where
  "traversal_json r = obj [(''nodes'', JArray (map NodeToJson (fst r))), (''edges'', JArray (map EdgeToJson (snd r)))]"

definition Files :: "sqlite \<Rightarrow> int \<Rightarrow> exn + json" where
  "Files db limit =
     andThen (query_rows db ''SELECT path, language FROM files ORDER BY path LIMIT ?'' [SqlInt limit]) (\<lambda>rows.
       Inr (JArray (map (\<lambda>row. obj [(''path'', JString (Text row 0)), (''language'', JString (Text row 1))]) rows)))"

section \<open>The methods\<close>

definition sqlite_backend :: "SchemaFlavor \<Rightarrow> (string \<times> json) list" where
  "sqlite_backend schema = [(''backend'', JString ''sqlite''), (''schema'', JString (SchemaName schema))]"

definition symbol_not_found :: "string \<Rightarrow> json" where
  "symbol_not_found symbol = obj [(''error'', JString (''Symbol not found: '' @ symbol))]"

definition Invoke_status :: "sqlite \<Rightarrow> string \<Rightarrow> SchemaFlavor \<Rightarrow> exn + json" where
  "Invoke_status db db_path schema =
     andThen (Count db ''SELECT COUNT(*) FROM nodes'') (\<lambda>node_count.
     andThen (Count db ''SELECT COUNT(*) FROM edges'') (\<lambda>edge_count.
     andThen (Count db ''SELECT COUNT(*) FROM files'') (\<lambda>file_count.
       Inr (obj ((''service'', JString ''CodeGraph'') # sqlite_backend schema @
         [(''db_path'', JString db_path), (''ready'', JBool True), (''transport'', JString ''mini_rpc''),
          (''node_count'', JInt node_count), (''edge_count'', JInt edge_count), (''file_count'', JInt file_count)])))))"

definition Invoke_graph :: "sqlite \<Rightarrow> SchemaFlavor \<Rightarrow> string \<Rightarrow> json \<Rightarrow> exn + json" where
  "Invoke_graph db schema meth args =
     andThen (RequiredString args meth ''symbol'') (\<lambda>symbol.
     andThen (FindNodes db symbol schema 1) (\<lambda>nodes.
       case nodes of
         [] \<Rightarrow> Inr (symbol_not_found symbol)
       | start # _ \<Rightarrow>
           andThen (OptionalInt args meth ''max_depth'' (if meth = ''Impact'' then 5 else 3) 1 20) (\<lambda>max_depth.
           andThen (OptionalInt args meth ''limit'' 50 1 500) (\<lambda>limit.
             if meth = ''Context'' then
               andThen (Traversal db schema start False 2 limit) (\<lambda>callers.
               andThen (Traversal db schema start True 2 limit) (\<lambda>callees.
                 Inr (obj (sqlite_backend schema @
                   [(''symbol'', NodeToJson start), (''callers'', JArray (map NodeToJson (fst callers))),
                    (''callees'', JArray (map NodeToJson (fst callees))),
                    (''edges'', JArray (map EdgeToJson (snd callers @ snd callees)))]))))
             else
               andThen (Traversal db schema start (meth = ''Callees'') max_depth limit) (\<lambda>r.
                 Inr (json_put ''symbol'' (NodeToJson start) (json_put ''schema'' (JString (SchemaName schema))
                   (json_put ''backend'' (JString ''sqlite'') (traversal_json r)))))))))"

definition SQLite_Invoke :: "sqlite \<Rightarrow> string \<Rightarrow> backend" where
  "SQLite_Invoke db db_path meth args =
     andThen (OpenReadOnly db db_path) (\<lambda>_.
     andThen (Exec db ''PRAGMA query_only=ON'') (\<lambda>_.
     andThen (DetectSchema db) (\<lambda>schema.
       if meth = ''Status'' then Invoke_status db db_path schema
       else if meth = ''Files'' then
         andThen (OptionalInt args meth ''limit'' 200 1 10000) (\<lambda>limit.
         andThen (Files db limit) (\<lambda>files. Inr (obj (sqlite_backend schema @ [(''files'', files)]))))
       else if meth = ''Search'' then
         andThen (RequiredString args meth ''query'') (\<lambda>query.
         andThen (OptionalInt args meth ''limit'' 20 1 200) (\<lambda>limit.
         andThen (SearchNodes db query schema limit) (\<lambda>nodes.
           Inr (obj (sqlite_backend schema @ [(''query'', JString query), (''limit'', JInt limit), (''nodes'', JArray (map NodeToJson nodes))])))))
       else if meth = ''Node'' then
         andThen (RequiredString args meth ''symbol'') (\<lambda>symbol.
         andThen (FindNodes db symbol schema 1) (\<lambda>nodes.
           case nodes of
             [] \<Rightarrow> Inr (symbol_not_found symbol)
           | n # _ \<Rightarrow> Inr (obj (sqlite_backend schema @ [(''node'', NodeToJson n)]))))
       else if meth = ''Callers'' \<or> meth = ''Callees'' \<or> meth = ''Impact'' \<or> meth = ''Context'' then Invoke_graph db schema meth args
       else Inl (rpc_error kMethodNotFound (''unknown CodeGraph method: '' @ meth)))))"

section \<open>The contract\<close>

lemma Invoke_graph_checked:
  assumes "Invoke_graph db schema meth args = Inr result" and "json_find ''error'' result = None"
  shows "string_field ''symbol'' args" "int_field ''max_depth'' args" "int_field ''limit'' args"
proof -
  obtain symbol nodes where s: "RequiredString args meth ''symbol'' = Inr symbol" and "FindNodes db symbol schema 1 = Inr nodes"
    using assms(1) by (auto simp: Invoke_graph_def andThen_Inr)
  moreover from this assms have "nodes \<noteq> []" by (auto simp: Invoke_graph_def andThen_def symbol_not_found_def)
  ultimately obtain depth limit where "OptionalInt args meth ''max_depth'' (if meth = ''Impact'' then 5 else 3) 1 20 = Inr depth"
      "OptionalInt args meth ''limit'' 50 1 500 = Inr limit"
    using assms(1) by (cases nodes) (auto simp only: Invoke_graph_def andThen_Inr sum.inject list.case)
  with s show "string_field ''symbol'' args" "int_field ''max_depth'' args" "int_field ''limit'' args"
    by (auto dest: RequiredString_field OptionalInt_field)
qed

interpretation sqlite_backend: code_graph_backend "SQLite_Invoke db db_path" for db db_path
proof
  fix meth args result
  assume "SQLite_Invoke db db_path meth args = Inr result" and e: "json_find ''error'' result = None"
  note graph = Invoke_graph_checked [OF _ e]
  from \<open>SQLite_Invoke db db_path meth args = Inr result\<close> show "schema_checked meth args"
    by (simp add: SQLite_Invoke_def andThen_Inr schema_checkedI split: if_splits)
      (elim exE conjE disjE; hypsubst?; rule schema_checkedI; (erule RequiredString_field | erule OptionalInt_field | erule graph))+
qed

section \<open>What a traversal finds\<close>

text \<open>The nodes at most \<open>k\<close> steps away from \<open>start\<close>, for the edges \<open>E\<close> that the data base returns.\<close>

definition succs :: "bool \<Rightarrow> (string \<Rightarrow> EdgeRow list) \<Rightarrow> string \<Rightarrow> string set" where
  "succs outgoing E x = adjacent outgoing ` set (E x)"

fun within :: "bool \<Rightarrow> (string \<Rightarrow> EdgeRow list) \<Rightarrow> string \<Rightarrow> nat \<Rightarrow> string set" where
  "within outgoing E start 0 = {start}"
| "within outgoing E start (Suc k) = within outgoing E start k \<union> (\<Union>x \<in> within outgoing E start k. succs outgoing E x)"

lemma within_mono: "j \<le> k \<Longrightarrow> within d E start j \<subseteq> within d E start k"
  by (induction k) (auto simp: le_Suc_eq)

lemma within_closed: "(\<Union>x \<in> within d E start k. succs d E x) \<subseteq> within d E start k \<Longrightarrow> within d E start (k + j) = within d E start k"
  by (induction j) auto

definition trav_ok :: "bool \<Rightarrow> string \<Rightarrow> trav \<Rightarrow> bool" where
  "trav_ok d start s \<longleftrightarrow> emitted s = int (length (out_edges s)) \<and> visited s = insert start (adjacent d ` set (out_edges s))
     \<and> distinct (start # map (adjacent d) (out_edges s))"

text \<open>The edges \<open>new\<close> were added, with their ends as new nodes; below the limit nothing in \<open>reached\<close> is missing.\<close>

definition extended :: "bool \<Rightarrow> string \<Rightarrow> int \<Rightarrow> string set \<Rightarrow> EdgeRow list \<Rightarrow> trav \<Rightarrow> trav \<Rightarrow> bool" where
  "extended d start limit reached new s s' \<longleftrightarrow>
     trav_ok d start s' \<and> emitted s' \<le> limit \<and> out_edges s' = out_edges s @ new \<and> next_ids s' = next_ids s @ map (adjacent d) new
     \<and> (emitted s' < limit \<longrightarrow> visited s' = visited s \<union> reached)"

lemma scan_edges_extends:
  "trav_ok d start s \<Longrightarrow> emitted s < limit \<Longrightarrow>
   \<exists>new. extended d start limit (adjacent d ` set es) new s (scan_edges d limit es s) \<and> set new \<subseteq> set es"
proof (induction es arbitrary: s)
  case Nil
  then show ?case by (intro exI [of _ "[]"]) (simp add: extended_def)
next
  case (Cons e es)
  let ?a = "adjacent d e"
  show ?case
  proof (cases "?a \<in> visited s")
    case True
    obtain new where new: "extended d start limit (adjacent d ` set es) new s (scan_edges d limit es s)" "set new \<subseteq> set es"
      using Cons.IH [OF Cons.prems] by blast
    moreover have "scan_edges d limit (e # es) s = scan_edges d limit es s" using True by (simp add: Let_def)
    ultimately show ?thesis using True by (intro exI [of _ new]) (simp add: extended_def subset_insertI2 insert_absorb)
  next
    case False
    let ?s1 = "s\<lparr>visited := insert ?a (visited s), next_ids := next_ids s @ [?a], out_edges := out_edges s @ [e], emitted := emitted s + 1\<rparr>"
    have ok: "trav_ok d start ?s1" using Cons.prems(1) False by (auto simp: trav_ok_def)
    show ?thesis
    proof (cases "emitted ?s1 \<ge> limit")
      case True
      with False have step: "scan_edges d limit (e # es) s = ?s1" by (simp add: Let_def)
      show ?thesis unfolding step using ok True Cons.prems(2) by (intro exI [of _ "[e]"]) (simp add: extended_def)
    next
      case below: False
      then obtain new where new: "extended d start limit (adjacent d ` set es) new ?s1 (scan_edges d limit es ?s1)" "set new \<subseteq> set es"
        using Cons.IH [OF ok] by force
      moreover have "scan_edges d limit (e # es) s = scan_edges d limit es ?s1" using False below by (simp add: Let_def)
      ultimately show ?thesis by (intro exI [of _ "e # new"]) (auto simp: extended_def)
    qed
  qed
qed

lemma scan_frontier_extends:
  assumes "\<And>x. edges_of x = Inr (E x)"
  shows "trav_ok d start s \<Longrightarrow> emitted s < limit \<Longrightarrow>
   \<exists>new s'. scan_frontier edges_of d limit frontier s = Inr s' \<and> extended d start limit (\<Union>x \<in> set frontier. succs d E x) new s s'
     \<and> set new \<subseteq> (\<Union>x \<in> set frontier. set (E x))"
proof (induction frontier arbitrary: s)
  case Nil
  then show ?case by (intro exI [of _ "[]"]) (simp add: extended_def)
next
  case (Cons x frontier)
  let ?s1 = "scan_edges d limit (E x) s"
  obtain new1 where new1: "extended d start limit (succs d E x) new1 s ?s1" "set new1 \<subseteq> set (E x)"
    using scan_edges_extends [OF Cons.prems, of "E x"] by (auto simp: succs_def)
  show ?case
  proof (cases "emitted ?s1 \<ge> limit")
    case True
    then have "scan_frontier edges_of d limit (x # frontier) s = Inr ?s1" by (simp add: assms andThen_def)
    with True new1 show ?thesis by (intro exI [of _ new1] exI [of _ ?s1]) (auto simp: extended_def)
  next
    case False
    have "trav_ok d start ?s1" using new1(1) by (simp add: extended_def)
    then obtain new2 s2 where s2: "scan_frontier edges_of d limit frontier ?s1 = Inr s2"
        "extended d start limit (\<Union>x \<in> set frontier. succs d E x) new2 ?s1 s2" "set new2 \<subseteq> (\<Union>x \<in> set frontier. set (E x))"
      using Cons.IH [of ?s1] False by auto
    moreover have "scan_frontier edges_of d limit (x # frontier) s = Inr s2" using False s2(1) by (simp add: assms andThen_def)
    ultimately show ?thesis using new1 False by (intro exI [of _ "new1 @ new2"] exI [of _ s2]) (auto simp: extended_def)
  qed
qed

text \<open>Between two levels: \<open>k\<close> levels have been expanded, and \<open>frontier\<close> holds the nodes not expanded yet.\<close>

definition level_inv :: "bool \<Rightarrow> (string \<Rightarrow> EdgeRow list) \<Rightarrow> string \<Rightarrow> int \<Rightarrow> nat \<Rightarrow> string list \<Rightarrow> trav \<Rightarrow> bool" where
  "level_inv d E start limit k frontier s \<longleftrightarrow>
     trav_ok d start s \<and> emitted s \<le> limit \<and> visited s \<subseteq> within d E start k \<and> set frontier \<subseteq> visited s
     \<and> (emitted s < limit \<longrightarrow> visited s = within d E start k \<and> (\<forall>x \<in> visited s - set frontier. succs d E x \<subseteq> visited s))
     \<and> (\<forall>e \<in> set (out_edges s). \<exists>x \<in> visited s. e \<in> set (E x))"

lemma level_inv_step:
  assumes inv: "level_inv d E start limit k frontier s" and below: "emitted s < limit"
    and ext: "extended d start limit (\<Union>x \<in> set frontier. succs d E x) new (s\<lparr>next_ids := []\<rparr>) s'"
    and new: "set new \<subseteq> (\<Union>x \<in> set frontier. set (E x))"
  shows "level_inv d E start limit (Suc k) (next_ids s') s'"
proof -
  have s: "trav_ok d start s" "visited s = within d E start k" "\<forall>x \<in> visited s - set frontier. succs d E x \<subseteq> visited s" "set frontier \<subseteq> visited s"
      "\<forall>e \<in> set (out_edges s). \<exists>x \<in> visited s. e \<in> set (E x)"
    using inv below unfolding level_inv_def by blast+
  have s': "trav_ok d start s'" "emitted s' \<le> limit" "out_edges s' = out_edges s @ new" "next_ids s' = map (adjacent d) new"
      "emitted s' < limit \<longrightarrow> visited s' = visited s \<union> (\<Union>x \<in> set frontier. succs d E x)"
    using ext by (simp_all add: extended_def)
  have v: "visited s' = visited s \<union> adjacent d ` set new"
    using s(1) s'(1,3) by (auto simp: trav_ok_def)
  have frontier: "adjacent d ` set new \<subseteq> (\<Union>x \<in> set frontier. succs d E x)" using new unfolding succs_def by blast
  have all: "visited s \<union> (\<Union>x \<in> set frontier. succs d E x) = within d E start (Suc k)"
    using s(2-4) by fastforce
  then have "visited s' \<subseteq> within d E start (Suc k)" using v frontier by blast
  moreover have "set (next_ids s') \<subseteq> visited s'" using v s'(4) by simp
  moreover have "visited s' = within d E start (Suc k) \<and> (\<forall>x \<in> visited s' - set (next_ids s'). succs d E x \<subseteq> visited s')" if "emitted s' < limit"
  proof -
    have v': "visited s' = within d E start (Suc k)" using s'(5) that all by simp
    have "succs d E x \<subseteq> visited s'" if "x \<in> visited s' - set (next_ids s')" for x
    proof -
      have "x \<in> within d E start k" using that v s(2) s'(4) by auto
      then show ?thesis unfolding v' within.simps by blast
    qed
    with v' show ?thesis by blast
  qed
  moreover have "\<forall>e \<in> set (out_edges s'). \<exists>x \<in> visited s'. e \<in> set (E x)"
  proof
    fix e assume "e \<in> set (out_edges s')"
    then consider "e \<in> set (out_edges s)" | x where "x \<in> set frontier" "e \<in> set (E x)" using s'(3) new by auto
    then show "\<exists>x \<in> visited s'. e \<in> set (E x)" using s(4,5) v by cases blast+
  qed
  ultimately show ?thesis using s'(1,2) unfolding level_inv_def by blast
qed

lemma levels_result:
  assumes "\<And>x. edges_of x = Inr (E x)" and "\<And>ids. nodes_of ids = Inr (concat (map N ids))"
  shows "level_inv d E start limit k frontier s \<Longrightarrow> nodes = concat (map (N \<circ> adjacent d) (out_edges s)) \<Longrightarrow>
    \<exists>es s'. levels edges_of nodes_of d limit depth frontier s nodes = Inr (concat (map (N \<circ> adjacent d) es), es)
      \<and> es = out_edges s' \<and> trav_ok d start s' \<and> emitted s' \<le> limit \<and> visited s' \<subseteq> within d E start (k + depth)
      \<and> (emitted s' < limit \<longrightarrow> visited s' = within d E start (k + depth)) \<and> (\<forall>e \<in> set es. \<exists>x \<in> visited s'. e \<in> set (E x))"
proof (induction depth arbitrary: k frontier s nodes)
  case 0
  then show ?case by (intro exI [of _ "out_edges s"] exI [of _ s]) (simp add: level_inv_def)
next
  case (Suc depth)
  show ?case
  proof (cases "frontier = [] \<or> emitted s \<ge> limit")
    case True
    have "visited s = within d E start (k + Suc depth)" if "emitted s < limit"
    proof -
      have "visited s = within d E start k" "(\<Union>x \<in> within d E start k. succs d E x) \<subseteq> within d E start k"
        using Suc.prems(1) that True by (auto simp: level_inv_def)
      with within_closed [of d E start k "Suc depth"] show ?thesis by simp
    qed
    moreover have "visited s \<subseteq> within d E start (k + Suc depth)"
      using Suc.prems(1) within_mono [of k "k + Suc depth" d E start] unfolding level_inv_def by (meson dual_order.trans le_add1)
    ultimately show ?thesis
      using Suc.prems True by (intro exI [of _ "out_edges s"] exI [of _ s]) (auto simp: level_inv_def simp del: within.simps)
  next
    case False
    have ok: "trav_ok d start (s\<lparr>next_ids := []\<rparr>)" using Suc.prems(1) by (simp add: level_inv_def trav_ok_def)
    obtain new s1 where s1: "scan_frontier edges_of d limit frontier (s\<lparr>next_ids := []\<rparr>) = Inr s1"
        "extended d start limit (\<Union>x \<in> set frontier. succs d E x) new (s\<lparr>next_ids := []\<rparr>) s1" "set new \<subseteq> (\<Union>x \<in> set frontier. set (E x))"
      using scan_frontier_extends [where E = E and edges_of = edges_of, OF assms(1) ok, of limit frontier] False by auto
    have lv: "level_inv d E start limit (Suc k) (next_ids s1) s1" using level_inv_step [OF Suc.prems(1) _ s1(2,3)] False by simp
    have nodes: "nodes @ concat (map N (next_ids s1)) = concat (map (N \<circ> adjacent d) (out_edges s1))"
      using s1(2) Suc.prems(2) by (simp add: extended_def comp_def)
    from Suc.IH [OF lv nodes] obtain es s' where "levels edges_of nodes_of d limit depth (next_ids s1) s1 (nodes @ concat (map N (next_ids s1)))
          = Inr (concat (map (N \<circ> adjacent d) es), es)"
        "es = out_edges s'" "trav_ok d start s'" "emitted s' \<le> limit" "visited s' \<subseteq> within d E start (Suc k + depth)"
        "emitted s' < limit \<longrightarrow> visited s' = within d E start (Suc k + depth)" "\<forall>e \<in> set es. \<exists>x \<in> visited s'. e \<in> set (E x)"
      by blast
    moreover have "levels edges_of nodes_of d limit (Suc depth) frontier s nodes
        = levels edges_of nodes_of d limit depth (next_ids s1) s1 (nodes @ concat (map N (next_ids s1)))"
      using False s1(1) by (simp add: andThen_def assms(2))
    ultimately show ?thesis by (intro exI [of _ es] exI [of _ s']) (simp add: comp_def del: within.simps)
  qed
qed

lemma GetNodesByIds_all:
  assumes "\<And>nid. GetNodesByIds db schema [nid] = Inr (N nid)"
  shows "GetNodesByIds db schema ids = Inr (concat (map N ids))"
proof (induction ids)
  case (Cons nid ids)
  obtain rows where q: "QueryNodes db (NodeSelectSql schema
      @ (if schema = kOfficialCodeGraph then ''WHERE id=? LIMIT ?'' else ''WHERE CAST(id AS TEXT)=? LIMIT ?'')) [nid] 1 = Inr rows" (is "?q = _")
    using assms [of nid] unfolding GetNodesByIds.simps andThen_def by (cases ?q) auto
  have "rows = N nid" using assms [of nid] unfolding GetNodesByIds.simps q andThen_def by simp
  with Cons show ?case unfolding GetNodesByIds.simps(2) q andThen_def by simp
qed simp


text \<open>A data base with one call edge, from \<open>a\<close> to \<open>b\<close>.\<close>

definition one_edge :: EdgeRow where
  "one_edge = \<lparr>edge_id = 1, edge_source = ''a'', edge_target = ''b'', edge_kind = ''calls'', edge_line = 3, edge_col = 4, metadata = []\<rparr>"

definition one_edge_db :: sqlite where
  "one_edge_db =
     \<lparr>sq_open = None, sq_exec = \<lambda>_. None,
      sq_run = \<lambda>_ params. Rows (if params = [SqlText ''a'', SqlText ''calls'', SqlInt 5]
        then [[SqlInt 1, SqlText ''a'', SqlText ''b'', SqlText ''calls'', SqlInt 3, SqlInt 4, SqlNull]] else []) None,
      sq_text_int = \<lambda>_. 0, sq_no_row = []\<rparr>"


end
