(* ===== verification/Native_Backend.thy ===== *)
theory Native_Backend
  imports Code_Graph "HOL-Library.Multiset"
begin

text \<open>
  The back end on the native code graph library: \<open>codegraph/codegraph_native_backend.{h,cpp}\<close>, a cache in front of the queries.

  The library is not part of the sources; its operations are arguments and may throw. So are the time, the
  iteration of the JSON library over a value that need not be an array, and the order in which the hash map
  enumerates its entries, which decides which half of them is evicted.
\<close>

section \<open>The cache\<close>

record CacheEntry =
  ce_result :: json
  expires_at :: time_point

type_synonym cache = "(string \<times> CacheEntry) list"

definition kCacheMaxSize :: nat where "kCacheMaxSize = 128"
definition kCacheTTL :: duration where "kCacheTTL = secs 30"

definition cache_get :: "time_point \<Rightarrow> string \<Rightarrow> cache \<Rightarrow> json option \<times> cache" where
  "cache_get now key c =
     (case map_of c key of
        None \<Rightarrow> (None, c)
      | Some e \<Rightarrow> if now > expires_at e then (None, erase_key key c) else (Some (ce_result e), c))"

definition cache_put :: "(cache \<Rightarrow> cache) \<Rightarrow> time_point \<Rightarrow> string \<Rightarrow> json \<Rightarrow> cache \<Rightarrow> cache" where
  "cache_put enum now key result c =
     (let c1 = (if length c \<ge> kCacheMaxSize then drop (length c div 2) (enum c) else c)
      in put_key key \<lparr>ce_result = result, expires_at = now + kCacheTTL\<rparr> c1)"

section \<open>Answers\<close>

record graph_lib =
  gl_status :: "exn + json"
  gl_files :: "exn + (string \<times> string \<times> int \<times> int) list"
  gl_open :: "exn + unit"
  gl_search :: "string \<Rightarrow> int \<Rightarrow> exn + json"
  gl_context :: "string \<Rightarrow> int \<Rightarrow> int \<Rightarrow> exn + json"
  gl_callers :: "string \<Rightarrow> int \<Rightarrow> exn + json"
  gl_callees :: "string \<Rightarrow> int \<Rightarrow> exn + json"
  gl_impact :: "string \<Rightarrow> int \<Rightarrow> exn + json"
  gl_elements :: "json \<Rightarrow> json list"
  gl_type_error :: string

text \<open>\<open>j[key] = v\<close>, which throws unless \<open>j\<close> is an object or null.\<close>

definition assign :: "graph_lib \<Rightarrow> string \<Rightarrow> json \<Rightarrow> json \<Rightarrow> exn + json" where
  "assign G key v j = (if is_object j \<or> j = JNull then Inr (json_put key v j) else Inl (OtherException (gl_type_error G)))"

definition contains :: "string \<Rightarrow> json \<Rightarrow> bool" where
  "contains key j \<longleftrightarrow> json_find key j \<noteq> None"

definition json_erase :: "string \<Rightarrow> json \<Rightarrow> json" where
  "json_erase key j = (case j of JObject m \<Rightarrow> JObject (m(key := None)) | _ \<Rightarrow> j)"

text \<open>\<open>j[to] = j[from]; j.erase(from)\<close> if the one is there and the other is not.\<close>

definition rename_key :: "string \<Rightarrow> string \<Rightarrow> json \<Rightarrow> json" where
  "rename_key old new j =
     (case json_find old j of
        Some v \<Rightarrow> if \<not> contains new j then json_erase old (json_put new v j) else j
      | None \<Rightarrow> j)"

definition NormalizeNodeJson :: "graph_lib \<Rightarrow> json \<Rightarrow> exn + json" where
  "NormalizeNodeJson G node =
     (let n1 = rename_key ''file'' ''file_path'' node in
      if contains ''signature'' n1 then Inr n1 else assign G ''signature'' (JString []) n1)"

definition NormalizeEdgeJson :: "graph_lib \<Rightarrow> json \<Rightarrow> exn + json" where
  "NormalizeEdgeJson G edge =
     (let e1 = rename_key ''dst'' ''target_id'' (rename_key ''src'' ''source_id'' edge) in
      if contains ''line'' e1 then Inr e1 else assign G ''line'' (JInt 0) e1)"

fun normalize_all :: "(json \<Rightarrow> exn + json) \<Rightarrow> json list \<Rightarrow> exn + json list" where
  "normalize_all f [] = Inr []"
| "normalize_all f (j # js) = andThen (f j) (\<lambda>j1. andThen (normalize_all f js) (\<lambda>js1. Inr (j1 # js1)))"

definition NormalizeNodesArray :: "graph_lib \<Rightarrow> json \<Rightarrow> exn + json" where
  "NormalizeNodesArray G nodes = andThen (normalize_all (NormalizeNodeJson G) (gl_elements G nodes)) (\<lambda>ns. Inr (JArray ns))"

definition NormalizeEdgesArray :: "graph_lib \<Rightarrow> json \<Rightarrow> exn + json" where
  "NormalizeEdgesArray G edges = andThen (normalize_all (NormalizeEdgeJson G) (gl_elements G edges)) (\<lambda>es. Inr (JArray es))"

text \<open>\<open>if (r.contains(key)) r[key] = f(r[key])\<close>.\<close>

definition normalize_field :: "string \<Rightarrow> (json \<Rightarrow> exn + json) \<Rightarrow> json \<Rightarrow> exn + json" where
  "normalize_field key f r =
     (case json_find key r of None \<Rightarrow> Inr r | Some v \<Rightarrow> andThen (f v) (\<lambda>v1. Inr (json_put key v1 r)))"

definition MakeCacheKey :: "json_lib \<Rightarrow> string \<Rightarrow> json \<Rightarrow> exn + string" where
  "MakeCacheKey L meth args =
     (case jdump L None args of Inl problem \<Rightarrow> Inl (OtherException problem) | Inr body \<Rightarrow> Inr (meth @ '':'' @ body))"

section \<open>The methods\<close>

definition native :: "string \<times> json" where
  "native = (''backend'', JString ''native'')"

definition status_answer :: "graph_lib \<Rightarrow> string \<Rightarrow> exn + json" where
  "status_answer G db_path =
     andThen (gl_open G) (\<lambda>_.
     andThen (gl_status G) (\<lambda>st.
     andThen (assign G ''backend'' (JString ''native'') st) (\<lambda>st1.
       Inr (json_put ''transport'' (JString ''mini_rpc'') (json_put ''ready'' (JBool True) (json_put ''db_path'' (JString db_path) st1))))))"

definition files_answer :: "graph_lib \<Rightarrow> string \<Rightarrow> json \<Rightarrow> exn + json" where
  "files_answer G meth args =
     andThen (gl_open G) (\<lambda>_.
     andThen (OptionalInt args meth ''limit'' 200 1 10000) (\<lambda>limit.
     andThen (gl_files G) (\<lambda>files.
       Inr (obj [native, (''files'', JArray (map (\<lambda>(path, lang, mtime, size). obj [(''path'', JString path), (''language'', JString lang),
              (''mtime'', JInt mtime), (''size'', JInt size)]) (take (nat limit) files)))]))))"

definition traversal_answer :: "graph_lib \<Rightarrow> (string \<Rightarrow> int \<Rightarrow> exn + json) \<Rightarrow> string \<Rightarrow> int \<Rightarrow> json \<Rightarrow> exn + json" where
  "traversal_answer G query meth default_depth args =
     andThen (RequiredString args meth ''symbol'') (\<lambda>symbol.
     andThen (OptionalInt args meth ''max_depth'' default_depth 1 20) (\<lambda>max_depth.
     andThen (query symbol max_depth) (\<lambda>r.
     andThen (assign G ''backend'' (JString ''native'') r) (\<lambda>r1.
     andThen (normalize_field ''nodes'' (NormalizeNodesArray G) r1) (\<lambda>r2.
       normalize_field ''edges'' (NormalizeEdgesArray G) r2)))))"

definition context_answer :: "graph_lib \<Rightarrow> string \<Rightarrow> json \<Rightarrow> exn + json" where
  "context_answer G meth args =
     andThen (RequiredString args meth ''symbol'') (\<lambda>symbol.
     andThen (OptionalInt args meth ''limit'' 10 1 200) (\<lambda>limit.
     andThen (OptionalInt args meth ''max_depth'' 3 1 20) (\<lambda>max_depth.
     andThen (gl_context G symbol limit max_depth) (\<lambda>r.
     andThen (assign G ''backend'' (JString ''native'') r) (\<lambda>r1.
     andThen (normalize_field ''callers'' (NormalizeNodesArray G) r1) (\<lambda>r2.
     andThen (normalize_field ''callees'' (NormalizeNodesArray G) r2) (\<lambda>r3.
     andThen (normalize_field ''edges'' (NormalizeEdgesArray G) r3) (\<lambda>r4.
       normalize_field ''symbol'' (NormalizeNodeJson G) r4))))))))"

text \<open>The answer of the methods that are cached.\<close>

definition computed :: "graph_lib \<Rightarrow> string \<Rightarrow> json \<Rightarrow> exn + json" where
  "computed G meth args =
     andThen (gl_open G) (\<lambda>_.
       if meth = ''Search'' then
         andThen (RequiredString args meth ''query'') (\<lambda>query.
         andThen (OptionalInt args meth ''limit'' 20 1 200) (\<lambda>limit.
         andThen (gl_search G query limit) (\<lambda>found.
         andThen (NormalizeNodesArray G found) (\<lambda>nodes.
           Inr (obj [native, (''query'', JString query), (''limit'', JInt limit), (''nodes'', nodes)])))))
       else if meth = ''Node'' then
         andThen (RequiredString args meth ''symbol'') (\<lambda>symbol.
         andThen (gl_search G symbol 1) (\<lambda>found.
           case found of
             JArray (n # _) \<Rightarrow> andThen (NormalizeNodeJson G n) (\<lambda>n1. Inr (obj [native, (''node'', n1)]))
           | _ \<Rightarrow> Inr (obj [(''error'', JString (''Symbol not found: '' @ symbol))])))
       else if meth = ''Context'' then context_answer G meth args
       else if meth = ''Callers'' then traversal_answer G (gl_callers G) meth 3 args
       else if meth = ''Callees'' then traversal_answer G (gl_callees G) meth 3 args
       else if meth = ''Impact'' then traversal_answer G (gl_impact G) meth 5 args
       else Inl (rpc_error kMethodNotFound (''unknown CodeGraph method: '' @ meth)))"

text \<open>\<open>Invoke\<close>: the clock is read at the look-up and when the result is stored.\<close>

definition Native_Invoke :: "json_lib \<Rightarrow> graph_lib \<Rightarrow> (cache \<Rightarrow> cache) \<Rightarrow> string \<Rightarrow> time_point \<Rightarrow> time_point \<Rightarrow> string \<Rightarrow> json \<Rightarrow> cache
    \<Rightarrow> (exn + json) \<times> cache" where
  "Native_Invoke L G enum db_path get_now put_now meth args c =
     (if meth = ''Status'' then (status_answer G db_path, c)
      else if meth = ''Files'' then (files_answer G meth args, c)
      else case MakeCacheKey L meth args of
             Inl e \<Rightarrow> (Inl e, c)
           | Inr key \<Rightarrow>
               (case cache_get get_now key c of
                  (Some r, c1) \<Rightarrow> (Inr r, c1)
                | (None, c1) \<Rightarrow>
                    (case computed G meth args of
                       Inl e \<Rightarrow> (Inl e, c1)
                     | Inr r \<Rightarrow> (Inr r, cache_put enum put_now key r c1))))"

section \<open>What the cache promises\<close>

text \<open>Its operations in any order, as the threads of the pool interleave them; \<open>last_put\<close> is the last result stored under a key.\<close>

datatype cache_op = CGet time_point string | CPut time_point string json

fun cache_step :: "(cache \<Rightarrow> cache) \<Rightarrow> cache_op \<Rightarrow> cache \<Rightarrow> cache" where
  "cache_step enum (CGet now key) c = snd (cache_get now key c)"
| "cache_step enum (CPut now key r) c = cache_put enum now key r c"

definition last_put :: "string \<Rightarrow> cache_op list \<Rightarrow> (time_point \<times> json) option" where
  "last_put key ops =
     fold (\<lambda>op acc. case op of CPut now k r \<Rightarrow> if k = key then Some (now, r) else acc | CGet _ _ \<Rightarrow> acc) ops None"

definition cache_inv :: "cache_op list \<Rightarrow> cache \<Rightarrow> bool" where
  "cache_inv ops c \<longleftrightarrow> distinct (keys c) \<and> length c \<le> kCacheMaxSize
     \<and> (\<forall>key e. map_of c key = Some e \<longrightarrow> (\<exists>now. last_put key ops = Some (now, ce_result e) \<and> expires_at e = now + kCacheTTL))"

lemma last_put_snoc:
  "last_put key (ops @ [CGet now k]) = last_put key ops"
  "last_put key (ops @ [CPut now k r]) = (if k = key then Some (now, r) else last_put key ops)"
  by (simp_all add: last_put_def)

lemma length_erase_key_le: "length (erase_key k c) \<le> length c"
  by (simp add: erase_key_def)

lemma cache_get_inv: "cache_inv ops c \<Longrightarrow> cache_inv (ops @ [CGet now k]) (snd (cache_get now k c))"
  using length_erase_key_le [of k c]
  by (auto simp: cache_inv_def cache_get_def last_put_snoc split: option.splits)

lemma evicted:
  assumes "distinct (keys c)" and "mset (enum c) = mset c"
  shows "distinct (keys (drop n (enum c)))" "length (drop n (enum c)) = length c - n"
    "map_of (drop n (enum c)) key = Some e \<Longrightarrow> map_of c key = Some e"
proof -
  have "mset (keys (enum c)) = mset (keys c)" using assms(2) by (simp add: keys_def flip: mset_map) (simp add: mset_map)
  then have "distinct (keys (enum c))" using assms(1) by (metis mset_eq_imp_distinct_iff)
  then show "distinct (keys (drop n (enum c)))" by (metis keys_def drop_map distinct_drop)
  show "length (drop n (enum c)) = length c - n" using mset_eq_length [OF assms(2)] by simp
  assume "map_of (drop n (enum c)) key = Some e"
  then have "(key, e) \<in> set (enum c)" using map_of_SomeD in_set_dropD by metis
  then have "(key, e) \<in> set c" using mset_eq_setD [OF assms(2)] by simp
  then show "map_of c key = Some e" using assms(1) by (simp add: keys_def map_of_is_SomeI)
qed

lemma cache_put_inv:
  assumes "cache_inv ops c" and "mset (enum c) = mset c"
  shows "cache_inv (ops @ [CPut now k r]) (cache_put enum now k r c)"
proof -
  let ?c1 = "if length c \<ge> kCacheMaxSize then drop (length c div 2) (enum c) else c"
  have c: "distinct (keys c)" "length c \<le> kCacheMaxSize"
      "\<And>key e. map_of c key = Some e \<Longrightarrow> \<exists>now. last_put key ops = Some (now, ce_result e) \<and> expires_at e = now + kCacheTTL"
    using assms(1) by (simp_all add: cache_inv_def)
  note ev = evicted [where enum = enum and c = c and n = "length c div 2", OF c(1) assms(2)]
  have c1: "distinct (keys ?c1)" "length ?c1 < kCacheMaxSize" using c(1,2) ev(1,2) by (auto simp: kCacheMaxSize_def)
  have m: "map_of c key = Some e" if "map_of ?c1 key = Some e" for key e using that ev(3) by (simp split: if_splits)
  have put: "cache_put enum now k r c = put_key k \<lparr>ce_result = r, expires_at = now + kCacheTTL\<rparr> ?c1" by (simp add: cache_put_def Let_def)
  have "length (cache_put enum now k r c) \<le> kCacheMaxSize" unfolding put using c1(2) by (simp add: length_put_key)
  moreover have "distinct (keys (cache_put enum now k r c))" unfolding put using c1(1) by simp
  moreover have "\<exists>t. last_put key (ops @ [CPut now k r]) = Some (t, ce_result e) \<and> expires_at e = t + kCacheTTL"
    if "map_of (cache_put enum now k r c) key = Some e" for key e
  proof (cases "key = k")
    case True
    with that show ?thesis unfolding put last_put_snoc by auto
  next
    case False
    with that have "map_of ?c1 key = Some e" unfolding put map_of_put_key by simp
    with c(3) [OF m] False show ?thesis unfolding last_put_snoc by simp
  qed
  ultimately show ?thesis by (simp add: cache_inv_def)
qed

lemma cache_run_inv:
  assumes "\<And>c. mset (enum c) = mset c"
  shows "cache_inv ops (fold (cache_step enum) ops [])"
proof (induction ops rule: rev_induct)
  case Nil
  show ?case by (simp add: cache_inv_def keys_def)
next
  case (snoc op ops)
  then show ?case by (cases op) (simp_all add: cache_get_inv cache_put_inv assms)
qed

text \<open>
  C38: the cache never grows beyond its bound, and a hit is never stale. Whatever order the operations of
  the threads come in, and whatever the hash map evicts, an answer from the cache is the
  last one stored under its key, and it was stored at most thirty seconds before.
\<close>

theorem native_cache_sound:
  assumes "\<And>c. mset (enum c) = mset c"
  shows "let c = fold (cache_step enum) ops [] in
    length c \<le> 128 \<and> (\<forall>now key r. fst (cache_get now key c) = Some r \<longrightarrow> (\<exists>t. last_put key ops = Some (t, r) \<and> now \<le> t + secs 30))"
proof -
  note inv = cache_run_inv [OF assms, of ops]
  then show ?thesis
    by (fastforce simp: Let_def cache_inv_def cache_get_def kCacheMaxSize_def kCacheTTL_def split: option.splits if_splits)
qed

theorem native_cache_sound_witness:
  "let c = fold (cache_step rev) [CPut 0 ''k'' JNull] [] in
   fst (cache_get 1 ''k'' c) = Some JNull \<and> (\<exists>t. last_put ''k'' [CPut 0 ''k'' JNull] = Some (t, JNull) \<and> 1 \<le> t + secs 30)"
proof -
  have "fst (cache_get 1 ''k'' (fold (cache_step rev) [CPut 0 ''k'' JNull] [])) = Some JNull"
    by (simp add: cache_put_def cache_get_def kCacheMaxSize_def kCacheTTL_def secs_def)
  with native_cache_sound [of rev "[CPut 0 ''k'' JNull]"] show ?thesis by (simp add: Let_def)
qed

text \<open>An answer of \<open>Invoke\<close> comes from the cache or from the library, and no failure is cached.\<close>

lemma Native_Invoke_answers:
  assumes "meth \<noteq> ''Status''" and "meth \<noteq> ''Files''" and "MakeCacheKey L meth args = Inr key"
    and "cache_get get_now key c = (hit, c1)" and "Native_Invoke L G enum db_path get_now put_now meth args c = (answer, c2)"
  shows "case hit of Some r \<Rightarrow> answer = Inr r \<and> c2 = c1
    | None \<Rightarrow> answer = computed G meth args \<and> c2 = (case answer of Inl _ \<Rightarrow> c1 | Inr r \<Rightarrow> cache_put enum put_now key r c1)"
  using assms by (auto simp: Native_Invoke_def split: option.splits sum.splits)

section \<open>The contract\<close>

text \<open>An answer that is computed, not taken from the cache, obeys the contract of the back ends.\<close>

lemma computed_checked: "computed G meth args = Inr result \<Longrightarrow> schema_checked meth args"
  by (simp add: computed_def andThen_Inr context_answer_def traversal_answer_def split: if_splits)
    (elim exE conjE disjE; hypsubst?; rule schema_checkedI; (erule RequiredString_field | erule OptionalInt_field))+

lemma Native_Invoke_miss:
  "fst (Native_Invoke L G enum db_path get_now put_now meth args []) =
     (if meth = ''Status'' then status_answer G db_path else if meth = ''Files'' then files_answer G meth args
      else andThen (MakeCacheKey L meth args) (\<lambda>_. computed G meth args))"
  by (simp add: Native_Invoke_def cache_get_def andThen_def split: sum.split)

interpretation native_backend: code_graph_backend "\<lambda>meth args. fst (Native_Invoke L G enum db_path get_now put_now meth args [])"
  for L G enum db_path get_now put_now
proof
  fix meth args result
  assume "fst (Native_Invoke L G enum db_path get_now put_now meth args []) = Inr result"
  then show "schema_checked meth args"
    by (simp add: Native_Invoke_miss andThen_Inr schema_checkedI split: if_splits) (elim exE conjE, erule computed_checked)
qed

end
